(* ===== verification/Prelude.thy ===== *)
theory Prelude
  imports Main "HOL-Library.Word"
begin

text \<open>
  Shared vocabulary of the development: names for the C integer types, the
  faults a C function of the firmware can end in, the sequencing of fallible
  functions, the collections of rewrite rules the component proofs use, and
  generic facts about lists and words.

  Fallible functions return \<open>fault + 'a\<close>; a failed \<open>JD_ASSERT\<close> (a panic of the
  device), a busy-wait loop that never ends and the use of an invalid pointer
  are different faults. Functions of the firmware that cannot fail are plain
  state transformers.
\<close>

unbundle bit_operations_syntax

declare Let_def [simp]

section \<open>C integer types\<close>

type_synonym u8 = "8 word"
type_synonym u16 = "16 word"
type_synonym u32 = "32 word"
type_synonym u64 = "64 word"

section \<open>Faults and sequencing\<close>

datatype fault = Assert_failed | Panic | Hang | Null_deref | Out_of_bounds

type_synonym 'a res = "fault + 'a"

named_theorems res_simps \<open>evaluation of sequenced fallible functions\<close>
named_theorems trace_simps \<open>what one operation appends to the boundary trace\<close>
named_theorems frame_simps \<open>fields an operation leaves alone\<close>

definition bindE :: "'a res \<Rightarrow> ('a \<Rightarrow> 'b res) \<Rightarrow> 'b res" where
  "bindE m f = (case m of Inl e \<Rightarrow> Inl e | Inr x \<Rightarrow> f x)"

lemma bindE_Inl [simp, res_simps]: "bindE (Inl e) f = Inl e"
  by (simp add: bindE_def)

lemma bindE_Inr [simp, res_simps]: "bindE (Inr x) f = f x"
  by (simp add: bindE_def)

lemma bindE_return [simp, res_simps]: "bindE m Inr = m"
  by (cases m) simp_all

lemma bindE_eq_Inr [res_simps]: "bindE m f = Inr y \<longleftrightarrow> (\<exists>x. m = Inr x \<and> f x = Inr y)"
  by (cases m) simp_all

lemma bindE_eq_Inl: "bindE m f = Inl e \<longleftrightarrow> m = Inl e \<or> (\<exists>x. m = Inr x \<and> f x = Inl e)"
  by (cases m) simp_all

lemma bindE_assoc: "bindE (bindE m f) g = bindE m (\<lambda>x. bindE (f x) g)"
  by (cases m) simp_all

text \<open>\<open>JD_ASSERT(b)\<close>: the state is passed on when the condition holds.\<close>

definition jd_assert :: "bool \<Rightarrow> 's \<Rightarrow> 's res" where
  "jd_assert b s = (if b then Inr s else Inl Assert_failed)"

lemma jd_assert_True [simp, res_simps]: "jd_assert True s = Inr s"
  by (simp add: jd_assert_def)

lemma jd_assert_False [simp, res_simps]: "jd_assert False s = Inl Assert_failed"
  by (simp add: jd_assert_def)

lemma jd_assert_eq_Inr [simp, res_simps]: "jd_assert b s = Inr t \<longleftrightarrow> b \<and> t = s"
  by (auto simp: jd_assert_def)

text \<open>Lifting the result of a loop that may not end.\<close>

definition of_loop :: "'a option \<Rightarrow> 'a res" where
  "of_loop r = (case r of None \<Rightarrow> Inl Hang | Some x \<Rightarrow> Inr x)"

lemma of_loop_simps [simp, res_simps]: "of_loop None = Inl Hang" "of_loop (Some x) = Inr x"
  by (simp_all add: of_loop_def)

section \<open>Words\<close>

text \<open>The truth value of a C integer used as a condition.\<close>

abbreviation truth :: "int \<Rightarrow> bool" where
  "truth x \<equiv> x \<noteq> 0"

text \<open>The bit \<open>1u << n\<close>.\<close>

abbreviation bit32 :: "nat \<Rightarrow> u32" where
  "bit32 n \<equiv> push_bit n 1"

lemma and_bit32_eq_0_iff: "2 ^ n AND m = 0 \<longleftrightarrow> \<not> bit m n" if "n < 32" for m :: u32
proof
  assume "2 ^ n AND m = 0"
  then have "bit (2 ^ n AND m) n = bit (0::u32) n" by simp
  with that show "\<not> bit m n" by (simp add: bit_simps)
next
  assume "\<not> bit m n"
  then show "2 ^ n AND m = 0"
    by (intro bit_word_eqI) (auto simp: bit_simps)
qed

lemma u32_of_nat_mod: "(of_nat (n mod 4294967296) :: u32) = of_nat n"
  by (simp add: word_of_nat_eq_iff take_bit_eq_mod)

lemma u32_of_nat_eq_iff: "(of_nat a :: u32) = of_nat b \<longleftrightarrow> a mod 2 ^ 32 = b mod 2 ^ 32"
  by (simp add: word_of_nat_eq_iff take_bit_eq_mod)

lemma bit_0xff: "bit (0xff :: int) n \<longleftrightarrow> n < 8"
proof -
  have "(0xff :: int) = Bit_Operations.mask 8"
    by (simp add: mask_eq_exp_minus_1)
  then show ?thesis
    by (simp only: bit_mask_iff) auto
qed

section \<open>Runs of events and simulation\<close>

text \<open>Events handled one after the other; the first fault ends the run.\<close>

fun run_res :: "('e \<Rightarrow> 's \<Rightarrow> 's res) \<Rightarrow> 'e list \<Rightarrow> 's \<Rightarrow> 's res" where
  "run_res f [] s = Inr s"
| "run_res f (e # es) s = bindE (f e s) (run_res f es)"

lemma run_res_append: "run_res f (es @ fs) s = bindE (run_res f es s) (run_res f fs)"
  by (induction es arbitrary: s) (auto simp: bindE_def split: sum.split)

text \<open>The events are admissible one after the other along the specification.\<close>

fun oks :: "('e \<Rightarrow> 'a \<Rightarrow> bool) \<Rightarrow> ('e \<Rightarrow> 'a \<Rightarrow> 'a) \<Rightarrow> 'e list \<Rightarrow> 'a \<Rightarrow> bool" where
  "oks ok spec [] a \<longleftrightarrow> True"
| "oks ok spec (e # es) a \<longleftrightarrow> ok e a \<and> oks ok spec es (spec e a)"

lemma oks_list_all: "oks (\<lambda>e _. ok e) spec es a \<longleftrightarrow> list_all ok es"
  by (induction es arbitrary: a) auto

lemma oks_append: "oks ok spec (es @ fs) a \<longleftrightarrow> oks ok spec es a \<and> oks ok spec fs (fold spec es a)"
  by (induction es arbitrary: a) auto

text \<open>
  The contract of a component with several entry points: every admissible
  event is handled without a fault and takes a state related to an abstract
  one to a state related to the abstract successor.
\<close>

locale simulation =
  fixes spec :: "'e \<Rightarrow> 'a \<Rightarrow> 'a"
    and impl :: "'e \<Rightarrow> 's \<Rightarrow> 's res"
    and ok :: "'e \<Rightarrow> 'a \<Rightarrow> bool"
    and rel :: "'a \<Rightarrow> 's \<Rightarrow> bool"
  assumes step: "rel a s \<Longrightarrow> ok e a \<Longrightarrow> \<exists>t. impl e s = Inr t \<and> rel (spec e a) t"
begin

lemma run_refines:
  "rel a s \<Longrightarrow> oks ok spec es a \<Longrightarrow> \<exists>t. run_res impl es s = Inr t \<and> rel (fold spec es a) t"
proof (induction es arbitrary: a s)
  case (Cons e es)
  then obtain t where "impl e s = Inr t" "rel (spec e a) t"
    using step [of a s e] by auto
  with Cons show ?case by simp
qed simp

lemma run_prefix_refines:
  assumes "rel a s" "oks ok spec (es @ fs) a"
  shows "\<exists>t. run_res impl es s = Inr t \<and> rel (fold spec es a) t"
proof -
  have "oks ok spec es a" using assms(2) by (induction es arbitrary: a) auto
  with assms(1) show ?thesis by (rule run_refines)
qed

end

section \<open>Two contracts on one state\<close>

text \<open>
  Two components, each with its contract, work on one state. When no step of one
  disturbs the relation of the other, the two together keep both contracts.
\<close>

locale shared_state =
  left: simulation specA implA okA relA + right: simulation specB implB okB relB
  for specA :: "'e \<Rightarrow> 'a \<Rightarrow> 'a" and implA :: "'e \<Rightarrow> 's \<Rightarrow> 's res" and okA relA
    and specB :: "'f \<Rightarrow> 'b \<Rightarrow> 'b" and implB :: "'f \<Rightarrow> 's \<Rightarrow> 's res" and okB relB +
  fixes common :: "'s \<Rightarrow> bool"
  assumes left_frame: "relA a s \<Longrightarrow> relB b s \<Longrightarrow> common s \<Longrightarrow> implA e s = Inr t \<Longrightarrow> relB b t \<and> common t"
    and right_frame: "relA a s \<Longrightarrow> relB b s \<Longrightarrow> common s \<Longrightarrow> implB f s = Inr t \<Longrightarrow> relA a t \<and> common t"
begin

lemma left_step:
  "relA a s \<Longrightarrow> relB b s \<Longrightarrow> common s \<Longrightarrow> okA e a \<Longrightarrow>
    \<exists>t. implA e s = Inr t \<and> relA (specA e a) t \<and> relB b t \<and> common t"
  using left.step left_frame by blast

lemma right_step:
  "relA a s \<Longrightarrow> relB b s \<Longrightarrow> common s \<Longrightarrow> okB f b \<Longrightarrow>
    \<exists>t. implB f s = Inr t \<and> relA a t \<and> relB (specB f b) t \<and> common t"
  using right.step right_frame by blast

end

sublocale shared_state \<subseteq> joint: simulation
  "\<lambda>e (a, b). case e of Inl x \<Rightarrow> (specA x a, b) | Inr y \<Rightarrow> (a, specB y b)"
  "case_sum implA implB"
  "\<lambda>e (a, b). case e of Inl x \<Rightarrow> okA x a | Inr y \<Rightarrow> okB y b"
  "\<lambda>(a, b) s. relA a s \<and> relB b s \<and> common s"
proof (unfold_locales, goal_cases)
  case (1 p s e)
  then show ?case using left_step right_step by (cases p; cases e) auto
qed

end
