(* ===== verification/Boundary.thy ===== *)
theory Boundary
  imports Prelude
begin

text \<open>
  The boundary of the firmware: every hardware register it reads or writes and
  every function of the Pico SDK, TinyUSB, lwIP, the CYW43 driver and the
  Jacdac runtime it calls. None of that code belongs to this repository, so
  nothing is assumed about it here. A run of the firmware appends what it does
  at the boundary to a trace (\<open>trace\<close>), in program order; what the other side
  answers (the value of a register, the return value of a call) is the
  parameter \<open>resp\<close>, an arbitrary function of the whole history and the call.
  The numeric constants of those libraries that the sources compute with are
  fields of the same parameter record \<open>plat\<close>; its field \<open>xip\<close> is the contents of
  the memory-mapped flash after a history, its field \<open>outbuf\<close> the bytes a call writes
  to the buffer it is given.
\<close>

section \<open>Registers\<close>

datatype pio = pio0 | pio1

datatype reg =
    TIMER_INTR | TIMER_ALARM nat | TIMER_TIMERAWL | TIMER_TIMERAWH | TIMER_INTE
  | DMA_INTS0 | DMA_INTE0 | DMA_ABORT
  | NVIC_ICPR | NVIC_ISER | NVIC_ICER | NVIC_IPR u32
  | SCB_ICSR
  | IO_INTR nat | IO_PROC0_INTE nat | IO_PROC0_INTS nat | IO_CTRL nat | PADS_IO nat
  | SIO_GPIO_IN | SIO_GPIO_CLR | SIO_GPIO_OE_SET | SIO_GPIO_OE_CLR
  | PIO_PINCTRL pio nat | PIO_FDEBUG pio | PIO_IRQ pio
  | ROSC_RANDOMBIT

section \<open>Calls\<close>

datatype cpu_call = Cpsid | Cpsie

datatype irq_call =
    Hardware_alarm_claim nat
  | Irq_set_exclusive_handler_tim nat
  | Irq_clear nat
  | Irq_is_enabled nat

text \<open>Addresses a DMA transfer is configured with.\<close>

datatype spi_inst = spi0 | spi1

datatype uart_inst = uart0 | uart1

datatype i2c_inst = i2c0 | i2c1

datatype dma_addr =
    Null
  | Spi_dr spi_inst
  | Uart_dr uart_inst
  | Pio_rxf pio nat nat
  | Pio_txf pio nat

datatype dma_setting =
    Dma_default int
  | Dma_bswap bool
  | Dma_read_increment bool
  | Dma_write_increment bool
  | Dma_transfer_data_size nat
  | Dma_dreq int

datatype dma_call =
    Dma_channel_set_irq0_enabled nat bool
  | Dma_claim_unused_channel bool
  | Dma_channel_configure int "dma_setting list" dma_addr dma_addr u32 bool
  | Dma_channel_transfer_from_buffer_now int nat u32
  | Dma_channel_transfer_to_buffer_now int nat u32
  | Dma_channel_set_read_addr nat nat bool
  | Dma_channel_set_write_addr nat nat bool
  | Dma_channel_set_trans_count nat u32 bool
  | Dma_start_channel_mask u32

datatype spi_call =
    Spi_init spi_inst u32
  | Spi_set_format spi_inst nat u32 u32
  | Spi_get_dreq spi_inst bool

datatype uart_call =
    Uart_init uart_inst u32
  | Uart_get_dreq uart_inst bool
  | Stdio_set_driver_enabled bool
  | Jd_dmesg_write nat int

datatype i2c_call =
    I2c_init i2c_inst u32
  | I2c_read_blocking i2c_inst u8 nat u32 bool
  | I2c_write_blocking i2c_inst u8 nat u32 bool

datatype adc_call =
    Adc_init
  | Adc_select_input u32
  | Adc_read
  | Adc_set_temp_sensor_enabled bool

datatype pio_program = jd_tx_program | jd_rx_program

datatype pio_instr = Pio_set_pins u32 | Pio_set_pindirs u32 | Pio_jmp u32

datatype fifo_join = PIO_FIFO_JOIN_NONE | PIO_FIFO_JOIN_TX | PIO_FIFO_JOIN_RX

text \<open>The clock divider is the \<open>float\<close> quotient of the two numbers.\<close>

datatype sm_setting =
    Sm_default
  | Sm_default_of pio_program u32
  | Sm_out_shift bool bool nat
  | Sm_in_shift bool bool nat
  | Sm_out_pins u32 nat
  | Sm_in_pins u32
  | Sm_sideset_pins u32
  | Sm_jmp_pin u32
  | Sm_fifo_join fifo_join
  | Sm_clkdiv u32 u32

datatype pio_call =
    Pio_sm_exec pio nat pio_instr
  | Pio_sm_set_enabled pio nat bool
  | Pio_sm_set_config pio nat "sm_setting list"
  | Pio_sm_clear_fifos pio nat
  | Pio_sm_restart pio nat
  | Pio_sm_clkdiv_restart pio nat
  | Pio_add_program pio pio_program
  | Pio_get_dreq pio nat bool
  | Pio_set_irq0_source_interrupt1 pio bool

datatype gpio_function =
    GPIO_FUNC_SPI | GPIO_FUNC_UART | GPIO_FUNC_I2C | GPIO_FUNC_PWM | GPIO_FUNC_SIO
  | GPIO_FUNC_PIO0 | GPIO_FUNC_PIO1 | GPIO_FUNC_NULL

datatype gpio_call =
    Gpio_put u32 bool
  | Gpio_get u32
  | Gpio_set_dir u32 bool
  | Gpio_set_irq_enabled u32 u32 bool
  | Gpio_acknowledge_irq u32 u32
  | Gpio_set_function u32 gpio_function
  | Gpio_pull_up u32

text \<open>The entry of a scan report (\<open>jd_wifi_results_t\<close> of the Jacdac runtime).\<close>

record jd_wifi_results_t =
  res_flags :: u32
  res_rssi :: "8 word"
  res_channel :: u8
  res_bssid :: "u8 list"
  res_ssid :: "u8 list"

datatype wifi_call =
    Cyw43_wifi_scan_active
  | Cyw43_wifi_scan
  | Cyw43_arch_wifi_connect_async "u8 list" "u8 list option" u32
  | Cyw43_wifi_leave
  | Cyw43_tcpip_link_status
  | Cyw43_arch_enable_sta_mode
  | Cyw43_state_mac
  | Cyw43_netif_ip_addr
  | Cyw43_arch_gpio_put bool
  | Cyw43_init
  | Lwip_init
  | Get_core_num
  | Sys_check_timeouts
  | Cyw43_stat_inc
  | Cyw43_poll_set
  | Cyw43_poll
  | Get_current_exception
  | Jd_wifi_scan_done_cb "jd_wifi_results_t list"
  | Jd_wifi_got_ip_cb u32
  | Jd_wifi_lost_ip_cb

text \<open>
  The events of a socket; the text of an error is the rendering of a format
  string with its arguments.
\<close>

datatype conn_ev =
    JD_CONN_EV_OPEN
  | JD_CONN_EV_CLOSE
  | JD_CONN_EV_ERROR string "u8 list list" "int list"
  | JD_CONN_EV_MESSAGE "u8 list"

text \<open>
  Calls to lwIP and to the string helpers of the runtime. Pointers that lwIP or
  the allocator hand out are numbers, 0 is the null pointer; a callback or
  argument that is registered is named by whether it is set.
\<close>

datatype sock_call =
    Tcp_arg int bool
  | Tcp_poll int bool u8
  | Tcp_sent int bool
  | Tcp_recv int bool
  | Tcp_err int bool
  | Tcp_close int
  | Tcp_abort int
  | Tcp_new_ip_type u32
  | Tcp_connect int u32 u16
  | Tcp_write int "u8 list"
  | Tcp_output int
  | Tcp_recved int u16
  | Pbuf_free int
  | Dns_gethostbyname "u8 list option"
  | Ip4addr_ntoa u32
  | Jd_strdup "u8 list"
  | Jd_vsprintf_a string "u8 list list" "int list"
  | Jd_tcpsock_on_event conn_ev

datatype usb_call =
    Tusb_init
  | Tud_task
  | Tud_cdc_connected
  | Tud_cdc_available
  | Tud_cdc_read nat
  | Tud_cdc_n_write_available
  | Tud_cdc_n_write "u8 list"
  | Tud_cdc_n_write_flush
  | Jd_usb_push "u8 list"
  | Jd_usb_pull
  | Tud_hid_n_ready nat
  | Tud_hid_n_keyboard_report u8 "u8 list"
  | Tud_hid_n_mouse_report u8 u8 u8 u8 u8
  | Tud_hid_n_report "u8 list"
  | Jd_device_id
  | Jd_to_hex u64 nat

datatype plat_call =
    Jd_hash_fnv1a "u8 list"
  | Jd_seed_random u32
  | Pico_get_unique_board_id
  | Nvic_SystemReset
  | Reset_usb_boot
  | Calloc u32 u32
  | Free int
  | Devs_service_full_init
  | Jd_scan_all
  | Jd_dmesg_read nat nat
  | Jd_init
  | Jd_process_everything
  | Jd_set_max_sleep u32
  | Jd_rx_has_frame
  | Wfe

datatype flash_call =
    Flash_range_program u32 "u8 list"
  | Flash_range_erase u32 u32

text \<open>Library configuration structures: the setters applied to the default, in order.\<close>

datatype pwm_setting = Pwm_clkdiv_int u8 | Pwm_wrap u32

datatype pwm_call =
    Pwm_gpio_to_slice_num u32
  | Pwm_init int "pwm_setting list" bool
  | Pwm_set_gpio_level u32 u32

datatype call =
    Cpu cpu_call
  | Rd reg
  | Wr reg u32
  | Hw_set_bits reg u32
  | Hw_clear_bits reg u32
  | Hw_write_masked reg u32 u32
  | Irq irq_call
  | Dma dma_call
  | Gpio gpio_call
  | Pwm pwm_call
  | Flash flash_call
  | Pio pio_call
  | Clock_get_hz_sys
  | Dcfg_get_pin string
  | Dcfg_get_i32 string int
  | Dcfg_get_u32 string u32
  | Spi spi_call
  | Uart uart_call
  | I2c i2c_call
  | Adc adc_call
  | Wifi wifi_call
  | Sock sock_call
  | Usb usb_call
  | Plat plat_call
  | Log string "u8 list list" "int list"
  | Dmesg string "int list"
  | Get_jd_max_sleep
  | Call_cb nat

section \<open>The other side\<close>

record plat =
  resp :: "call list \<Rightarrow> call \<Rightarrow> int"
  NO_PIN :: int
  TIMER_IRQ_0 :: nat
  DMA_IRQ_0 :: nat
  JD_MIN_MAX_SLEEP :: int
  SCB_ICSR_VECTACTIVE_Msk :: u32
  NUM_BANK0_GPIOS :: nat
  IO_IRQ_BANK0 :: nat
  PADS_IE_BITS :: u32
  PADS_OD_BITS :: u32
  PADS_PUE_LSB :: nat
  PADS_PDE_LSB :: nat
  PADS_PUE_BITS :: u32
  PADS_PDE_BITS :: u32
  CTRL_FUNCSEL_LSB :: nat
  func_code :: "gpio_function \<Rightarrow> u32"
  GPIO_IRQ_EDGE_FALL :: u32
  GPIO_IRQ_EDGE_RISE :: u32
  PIN_PULL_UP :: int
  PIN_PULL_NONE :: int
  xip :: "call list \<Rightarrow> u32 \<Rightarrow> u8"
  XIP_BASE :: u32
  FLASH_PAGE_SIZE :: u32
  PINCTRL_SET_COUNT_LSB :: nat
  PINCTRL_SET_BASE_LSB :: nat
  FDEBUG_TXOVER_LSB :: nat
  FDEBUG_RXUNDER_LSB :: nat
  FDEBUG_TXSTALL_LSB :: nat
  FDEBUG_RXSTALL_LSB :: nat
  DREQ_PIO0_RX0 :: int
  PIO0_IRQ_0 :: nat
  spi_default :: spi_inst
  PICO_ERROR_NO_DATA :: int
  outbuf :: "call list \<Rightarrow> call \<Rightarrow> nat \<Rightarrow> u8"
  CYW43_LINK_DOWN :: int
  CYW43_LINK_JOIN :: int
  CYW43_LINK_NOIP :: int
  CYW43_LINK_UP :: int
  CYW43_LINK_FAIL :: int
  CYW43_LINK_NONET :: int
  CYW43_LINK_BADAUTH :: int
  CYW43_AUTH_OPEN :: u32
  CYW43_AUTH_WPA2_AES_PSK :: u32
  JD_WIFI_APFLAGS_HAS_PASSWORD :: u32
  ERR_OK :: int
  ERR_INPROGRESS :: int
  ERR_ABRT :: int
  SIZEOF_GAMEPAD :: nat
  TUSB_DESC_STRING :: u16
  HID_REPORT_TYPE_OUTPUT :: int
  SIZEOF_WIFI_RESULTS :: nat
  SIZEOF_WIFI_SSID :: nat
  TUD_CONFIG_DESC_LEN :: nat
  TUD_CDC_DESC_LEN :: nat
  TUD_HID_DESC_LEN :: nat
  TUD_HID_REPORT_DESC_KEYBOARD :: "u8 list"
  TUD_HID_REPORT_DESC_MOUSE :: "u8 list"
  HID_ITF_PROTOCOL_NONE :: u8
  HID_ITF_PROTOCOL_KEYBOARD :: u8
  HID_ITF_PROTOCOL_MOUSE :: u8
  SIZEOF_DEVICE_DESC :: u8
  TUSB_DESC_DEVICE :: u8
  TUSB_CLASS_MISC :: u8
  MISC_SUBCLASS_COMMON :: u8
  MISC_PROTOCOL_IAD :: u8
  CFG_TUD_ENDPOINT0_SIZE :: u8
  KEYBOARD_LED_CAPSLOCK :: u8
  SIZEOF_BOARD_ID :: nat
  dmesg_buf :: nat

text \<open>A platform with the documented constants, for concrete instances; its answers are 0.\<close>

definition sample_plat :: plat where
  "sample_plat =
     \<lparr>resp = (\<lambda>_ _. 0), NO_PIN = 255, TIMER_IRQ_0 = 0, DMA_IRQ_0 = 11,
      JD_MIN_MAX_SLEEP = 9999, SCB_ICSR_VECTACTIVE_Msk = 0x1ff,
      NUM_BANK0_GPIOS = 30, IO_IRQ_BANK0 = 13, PADS_IE_BITS = 0x40, PADS_OD_BITS = 0x80,
      PADS_PUE_LSB = 3, PADS_PDE_LSB = 2, PADS_PUE_BITS = 8, PADS_PDE_BITS = 4,
      CTRL_FUNCSEL_LSB = 0,
      func_code = (\<lambda>f. case f of GPIO_FUNC_SPI \<Rightarrow> 1 | GPIO_FUNC_UART \<Rightarrow> 2 | GPIO_FUNC_I2C \<Rightarrow> 3
        | GPIO_FUNC_PWM \<Rightarrow> 4 | GPIO_FUNC_SIO \<Rightarrow> 5 | GPIO_FUNC_PIO0 \<Rightarrow> 6 | GPIO_FUNC_PIO1 \<Rightarrow> 7
        | GPIO_FUNC_NULL \<Rightarrow> 31),
      GPIO_IRQ_EDGE_FALL = 4, GPIO_IRQ_EDGE_RISE = 8, PIN_PULL_UP = 1, PIN_PULL_NONE = 0,
      xip = (\<lambda>_ _. 0xff),
      XIP_BASE = 0x10000000,
      FLASH_PAGE_SIZE = 256,
      PINCTRL_SET_COUNT_LSB = 26,
      PINCTRL_SET_BASE_LSB = 5,
      FDEBUG_TXOVER_LSB = 16,
      FDEBUG_RXUNDER_LSB = 8,
      FDEBUG_TXSTALL_LSB = 24,
      FDEBUG_RXSTALL_LSB = 0,
      DREQ_PIO0_RX0 = 4,
      PIO0_IRQ_0 = 7,
      spi_default = spi0,
      PICO_ERROR_NO_DATA = -3,
      outbuf = (\<lambda>_ _ _. 0),
      CYW43_LINK_DOWN = 0,
      CYW43_LINK_JOIN = 1,
      CYW43_LINK_NOIP = 2,
      CYW43_LINK_UP = 3,
      CYW43_LINK_FAIL = -1,
      CYW43_LINK_NONET = -2,
      CYW43_LINK_BADAUTH = -3,
      CYW43_AUTH_OPEN = 0,
      CYW43_AUTH_WPA2_AES_PSK = 0x00400004,
      JD_WIFI_APFLAGS_HAS_PASSWORD = 1,
      ERR_OK = 0,
      ERR_INPROGRESS = -5,
      ERR_ABRT = -13,
      SIZEOF_GAMEPAD = 8,
      TUSB_DESC_STRING = 3,
      HID_REPORT_TYPE_OUTPUT = 2,
      SIZEOF_WIFI_RESULTS = 48,
      SIZEOF_WIFI_SSID = 33,
      TUD_CONFIG_DESC_LEN = 9,
      TUD_CDC_DESC_LEN = 66,
      TUD_HID_DESC_LEN = 25,
      TUD_HID_REPORT_DESC_KEYBOARD = replicate 65 0,
      TUD_HID_REPORT_DESC_MOUSE = replicate 77 0,
      HID_ITF_PROTOCOL_NONE = 0,
      HID_ITF_PROTOCOL_KEYBOARD = 1,
      HID_ITF_PROTOCOL_MOUSE = 2,
      SIZEOF_DEVICE_DESC = 18,
      TUSB_DESC_DEVICE = 1,
      TUSB_CLASS_MISC = 0xEF,
      MISC_SUBCLASS_COMMON = 2,
      MISC_PROTOCOL_IAD = 1,
      CFG_TUD_ENDPOINT0_SIZE = 64,
      KEYBOARD_LED_CAPSLOCK = 2,
      SIZEOF_BOARD_ID = 8,
      dmesg_buf = 0x20005000\<rparr>"

text \<open>The same platform with the given answers.\<close>

definition answering :: "(call list \<Rightarrow> call \<Rightarrow> int) \<Rightarrow> plat" where
  "answering r = sample_plat\<lparr>resp := r\<rparr>"

lemma resp_answering [simp]: "resp (answering r) = r"
  by (simp add: answering_def)

lemma sample_consts [simp]:
  "NO_PIN sample_plat = 255"
  "NO_PIN (answering r) = 255"
  "TIMER_IRQ_0 sample_plat = 0"
  "TIMER_IRQ_0 (answering r) = 0"
  "DMA_IRQ_0 sample_plat = 11"
  "DMA_IRQ_0 (answering r) = 11"
  "JD_MIN_MAX_SLEEP sample_plat = 9999"
  "JD_MIN_MAX_SLEEP (answering r) = 9999"
  "SCB_ICSR_VECTACTIVE_Msk sample_plat = 0x1ff"
  "SCB_ICSR_VECTACTIVE_Msk (answering r) = 0x1ff"
  "NUM_BANK0_GPIOS sample_plat = 30"
  "NUM_BANK0_GPIOS (answering r) = 30"
  "IO_IRQ_BANK0 sample_plat = 13"
  "IO_IRQ_BANK0 (answering r) = 13"
  "PADS_IE_BITS sample_plat = 0x40"
  "PADS_IE_BITS (answering r) = 0x40"
  "PADS_OD_BITS sample_plat = 0x80"
  "PADS_OD_BITS (answering r) = 0x80"
  "PADS_PUE_LSB sample_plat = 3"
  "PADS_PUE_LSB (answering r) = 3"
  "PADS_PDE_LSB sample_plat = 2"
  "PADS_PDE_LSB (answering r) = 2"
  "PADS_PUE_BITS sample_plat = 8"
  "PADS_PUE_BITS (answering r) = 8"
  "PADS_PDE_BITS sample_plat = 4"
  "PADS_PDE_BITS (answering r) = 4"
  "CTRL_FUNCSEL_LSB sample_plat = 0"
  "CTRL_FUNCSEL_LSB (answering r) = 0"
  "func_code sample_plat = (\<lambda>f. case f of GPIO_FUNC_SPI \<Rightarrow> 1 | GPIO_FUNC_UART \<Rightarrow> 2 | GPIO_FUNC_I2C \<Rightarrow> 3 | GPIO_FUNC_PWM \<Rightarrow> 4 | GPIO_FUNC_SIO \<Rightarrow> 5 | GPIO_FUNC_PIO0 \<Rightarrow> 6 | GPIO_FUNC_PIO1 \<Rightarrow> 7 | GPIO_FUNC_NULL \<Rightarrow> 31)"
  "func_code (answering r) = (\<lambda>f. case f of GPIO_FUNC_SPI \<Rightarrow> 1 | GPIO_FUNC_UART \<Rightarrow> 2 | GPIO_FUNC_I2C \<Rightarrow> 3 | GPIO_FUNC_PWM \<Rightarrow> 4 | GPIO_FUNC_SIO \<Rightarrow> 5 | GPIO_FUNC_PIO0 \<Rightarrow> 6 | GPIO_FUNC_PIO1 \<Rightarrow> 7 | GPIO_FUNC_NULL \<Rightarrow> 31)"
  "GPIO_IRQ_EDGE_FALL sample_plat = 4"
  "GPIO_IRQ_EDGE_FALL (answering r) = 4"
  "GPIO_IRQ_EDGE_RISE sample_plat = 8"
  "GPIO_IRQ_EDGE_RISE (answering r) = 8"
  "PIN_PULL_UP sample_plat = 1"
  "PIN_PULL_UP (answering r) = 1"
  "PIN_PULL_NONE sample_plat = 0"
  "PIN_PULL_NONE (answering r) = 0"
  "xip sample_plat = (\<lambda>_ _. 0xff)"
  "xip (answering r) = (\<lambda>_ _. 0xff)"
  "XIP_BASE sample_plat = 0x10000000"
  "XIP_BASE (answering r) = 0x10000000"
  "FLASH_PAGE_SIZE sample_plat = 256"
  "FLASH_PAGE_SIZE (answering r) = 256"
  "PINCTRL_SET_COUNT_LSB sample_plat = 26"
  "PINCTRL_SET_COUNT_LSB (answering r) = 26"
  "PINCTRL_SET_BASE_LSB sample_plat = 5"
  "PINCTRL_SET_BASE_LSB (answering r) = 5"
  "FDEBUG_TXOVER_LSB sample_plat = 16"
  "FDEBUG_TXOVER_LSB (answering r) = 16"
  "FDEBUG_RXUNDER_LSB sample_plat = 8"
  "FDEBUG_RXUNDER_LSB (answering r) = 8"
  "FDEBUG_TXSTALL_LSB sample_plat = 24"
  "FDEBUG_TXSTALL_LSB (answering r) = 24"
  "FDEBUG_RXSTALL_LSB sample_plat = 0"
  "FDEBUG_RXSTALL_LSB (answering r) = 0"
  "DREQ_PIO0_RX0 sample_plat = 4"
  "DREQ_PIO0_RX0 (answering r) = 4"
  "PIO0_IRQ_0 sample_plat = 7"
  "PIO0_IRQ_0 (answering r) = 7"
  "spi_default sample_plat = spi0"
  "spi_default (answering r) = spi0"
  "PICO_ERROR_NO_DATA sample_plat = -3"
  "PICO_ERROR_NO_DATA (answering r) = -3"
  "outbuf sample_plat = (\<lambda>_ _ _. 0)"
  "outbuf (answering r) = (\<lambda>_ _ _. 0)"
  "CYW43_LINK_DOWN sample_plat = 0"
  "CYW43_LINK_DOWN (answering r) = 0"
  "CYW43_LINK_JOIN sample_plat = 1"
  "CYW43_LINK_JOIN (answering r) = 1"
  "CYW43_LINK_NOIP sample_plat = 2"
  "CYW43_LINK_NOIP (answering r) = 2"
  "CYW43_LINK_UP sample_plat = 3"
  "CYW43_LINK_UP (answering r) = 3"
  "CYW43_LINK_FAIL sample_plat = -1"
  "CYW43_LINK_FAIL (answering r) = -1"
  "CYW43_LINK_NONET sample_plat = -2"
  "CYW43_LINK_NONET (answering r) = -2"
  "CYW43_LINK_BADAUTH sample_plat = -3"
  "CYW43_LINK_BADAUTH (answering r) = -3"
  "CYW43_AUTH_OPEN sample_plat = 0"
  "CYW43_AUTH_OPEN (answering r) = 0"
  "CYW43_AUTH_WPA2_AES_PSK sample_plat = 0x00400004"
  "CYW43_AUTH_WPA2_AES_PSK (answering r) = 0x00400004"
  "JD_WIFI_APFLAGS_HAS_PASSWORD sample_plat = 1"
  "JD_WIFI_APFLAGS_HAS_PASSWORD (answering r) = 1"
  "ERR_OK sample_plat = 0"
  "ERR_OK (answering r) = 0"
  "ERR_INPROGRESS sample_plat = -5"
  "ERR_INPROGRESS (answering r) = -5"
  "ERR_ABRT sample_plat = -13"
  "ERR_ABRT (answering r) = -13"
  "SIZEOF_GAMEPAD sample_plat = 8"
  "SIZEOF_GAMEPAD (answering r) = 8"
  "TUSB_DESC_STRING sample_plat = 3"
  "TUSB_DESC_STRING (answering r) = 3"
  "HID_REPORT_TYPE_OUTPUT sample_plat = 2"
  "HID_REPORT_TYPE_OUTPUT (answering r) = 2"
  "SIZEOF_WIFI_RESULTS sample_plat = 48"
  "SIZEOF_WIFI_RESULTS (answering r) = 48"
  "SIZEOF_WIFI_SSID sample_plat = 33"
  "SIZEOF_WIFI_SSID (answering r) = 33"
  "TUD_CONFIG_DESC_LEN sample_plat = 9"
  "TUD_CONFIG_DESC_LEN (answering r) = 9"
  "TUD_CDC_DESC_LEN sample_plat = 66"
  "TUD_CDC_DESC_LEN (answering r) = 66"
  "TUD_HID_DESC_LEN sample_plat = 25"
  "TUD_HID_DESC_LEN (answering r) = 25"
  "TUD_HID_REPORT_DESC_KEYBOARD sample_plat = replicate 65 0"
  "TUD_HID_REPORT_DESC_KEYBOARD (answering r) = replicate 65 0"
  "TUD_HID_REPORT_DESC_MOUSE sample_plat = replicate 77 0"
  "TUD_HID_REPORT_DESC_MOUSE (answering r) = replicate 77 0"
  "HID_ITF_PROTOCOL_NONE sample_plat = 0"
  "HID_ITF_PROTOCOL_NONE (answering r) = 0"
  "HID_ITF_PROTOCOL_KEYBOARD sample_plat = 1"
  "HID_ITF_PROTOCOL_KEYBOARD (answering r) = 1"
  "HID_ITF_PROTOCOL_MOUSE sample_plat = 2"
  "HID_ITF_PROTOCOL_MOUSE (answering r) = 2"
  "SIZEOF_DEVICE_DESC sample_plat = 18"
  "SIZEOF_DEVICE_DESC (answering r) = 18"
  "TUSB_DESC_DEVICE sample_plat = 1"
  "TUSB_DESC_DEVICE (answering r) = 1"
  "TUSB_CLASS_MISC sample_plat = 0xEF"
  "TUSB_CLASS_MISC (answering r) = 0xEF"
  "MISC_SUBCLASS_COMMON sample_plat = 2"
  "MISC_SUBCLASS_COMMON (answering r) = 2"
  "MISC_PROTOCOL_IAD sample_plat = 1"
  "MISC_PROTOCOL_IAD (answering r) = 1"
  "CFG_TUD_ENDPOINT0_SIZE sample_plat = 64"
  "CFG_TUD_ENDPOINT0_SIZE (answering r) = 64"
  "KEYBOARD_LED_CAPSLOCK sample_plat = 2"
  "KEYBOARD_LED_CAPSLOCK (answering r) = 2"
  "SIZEOF_BOARD_ID sample_plat = 8"
  "SIZEOF_BOARD_ID (answering r) = 8"
  "dmesg_buf sample_plat = 0x20005000"
  "dmesg_buf (answering r) = 0x20005000"
  by (simp_all add: sample_plat_def answering_def)

section \<open>The trace\<close>

record mach =
  trace :: "call list"

definition emit :: "call \<Rightarrow> 'a mach_scheme \<Rightarrow> 'a mach_scheme" where
  "emit c s = s\<lparr>trace := trace s @ [c]\<rparr>"

definition ask :: "plat \<Rightarrow> call \<Rightarrow> 'a mach_scheme \<Rightarrow> int \<times> 'a mach_scheme" where
  "ask E c s = (resp E (trace s) c, emit c s)"

definition rd :: "plat \<Rightarrow> reg \<Rightarrow> 'a mach_scheme \<Rightarrow> u32 \<times> 'a mach_scheme" where
  "rd E r s = (word_of_int (resp E (trace s) (Rd r)), emit (Rd r) s)"

abbreviation wr :: "reg \<Rightarrow> u32 \<Rightarrow> 'a mach_scheme \<Rightarrow> 'a mach_scheme" where
  "wr r v \<equiv> emit (Wr r v)"

declare emit_def [simp] ask_def [simp] rd_def [simp]

text \<open>What a function appended to the trace.\<close>

definition since :: "'a mach_scheme \<Rightarrow> 'b mach_scheme \<Rightarrow> call list" where
  "since s t = drop (length (trace s)) (trace t)"

lemma since_append: "trace t = trace s @ cs \<Longrightarrow> since s t = cs"
  by (simp add: since_def)

end
