(* ===== verification/Irq.thy ===== *)
theory Irq
  imports Boundary
begin

text \<open>
  The interrupt mask of \<open>platform.c\<close>: \<open>target_disable_irq\<close> and
  \<open>target_enable_irq\<close> nest through an \<open>int8_t\<close> counter. The abstract
  specification is a nesting depth that cannot go below zero; the processor's
  mask is read off the trace (the last \<open>cpsid\<close>/\<open>cpsie\<close> instruction).
\<close>

record irq = mach +
  irq_disabled :: "8 word"

definition target_disable_irq :: "'a irq_scheme \<Rightarrow> 'a irq_scheme" where
  "target_disable_irq s =
     (let s = emit (Cpu Cpsid) s in s\<lparr>irq_disabled := irq_disabled s + 1\<rparr>)"

definition target_enable_irq :: "'a irq_scheme \<Rightarrow> 'a irq_scheme" where
  "target_enable_irq s =
     (let s = s\<lparr>irq_disabled := irq_disabled s - 1\<rparr> in
      if sint (irq_disabled s) \<le> 0
      then emit (Cpu Cpsie) (s\<lparr>irq_disabled := 0\<rparr>)
      else s)"

definition target_in_irq :: "plat \<Rightarrow> 'a mach_scheme \<Rightarrow> bool \<times> 'a mach_scheme" where
  "target_in_irq E s =
     (let (v, s) = rd E SCB_ICSR s in (v AND SCB_ICSR_VECTACTIVE_Msk E \<noteq> 0, s))"

lemmas irq_defs = target_disable_irq_def target_enable_irq_def

section \<open>The abstract nesting specification\<close>

datatype irq_op = Disable | Enable

fun irq_step :: "irq_op \<Rightarrow> 'a irq_scheme \<Rightarrow> 'a irq_scheme" where
  "irq_step Disable s = target_disable_irq s"
| "irq_step Enable s = target_enable_irq s"

definition irq_run :: "irq_op list \<Rightarrow> 'a irq_scheme \<Rightarrow> 'a irq_scheme" where
  "irq_run ops s = fold irq_step ops s"

fun depth_step :: "irq_op \<Rightarrow> nat \<Rightarrow> nat" where
  "depth_step Disable d = d + 1"
| "depth_step Enable d = d - 1"

definition depth_run :: "irq_op list \<Rightarrow> nat \<Rightarrow> nat" where
  "depth_run ops d = fold depth_step ops d"

text \<open>No prefix of the operations nests deeper than the counter can hold.\<close>

fun depth_fits :: "irq_op list \<Rightarrow> nat \<Rightarrow> bool" where
  "depth_fits [] d = (d \<le> 127)"
| "depth_fits (x # xs) d = (d \<le> 127 \<and> depth_fits xs (depth_step x d))"

text \<open>The processor's interrupt mask after a trace, from the mask before it.\<close>

definition primask_step :: "call \<Rightarrow> bool \<Rightarrow> bool" where
  "primask_step c m = (case c of Cpu i \<Rightarrow> (case i of Cpsid \<Rightarrow> True | Cpsie \<Rightarrow> False) | _ \<Rightarrow> m)"

declare primask_step_def [simp]

definition primask :: "call list \<Rightarrow> bool" where
  "primask tr = fold primask_step tr False"

lemma primask_Nil [simp]: "primask [] = False"
  by (simp add: primask_def)

lemma primask_append [simp]: "primask (tr @ cs) = fold primask_step cs (primask tr)"
  by (simp add: primask_def)

definition irq_rel :: "nat \<Rightarrow> 'a irq_scheme \<Rightarrow> bool" where
  "irq_rel d s \<longleftrightarrow> d \<le> 127 \<and> irq_disabled s = of_nat d \<and> primask (trace s) = (0 < d)"

lemma sint_of_nat_u8: "d \<le> 127 \<Longrightarrow> sint (of_nat d :: 8 word) = int d"
  by (simp add: signed_of_nat signed_take_bit_int_eq_self)

lemma irq_rel_disable: "irq_rel d s \<Longrightarrow> d < 127 \<Longrightarrow> irq_rel (d + 1) (target_disable_irq s)"
  by (simp add: irq_rel_def target_disable_irq_def)

lemma irq_rel_enable:
  assumes "irq_rel d s"
  shows "irq_rel (d - 1) (target_enable_irq s)"
proof (cases d)
  case 0
  with assms show ?thesis
    by (simp add: irq_rel_def target_enable_irq_def)
next
  case (Suc n)
  with assms have "irq_disabled s - 1 = of_nat n" and "n \<le> 126" "primask (trace s)"
    by (simp_all add: irq_rel_def)
  with Suc show ?thesis
    by (simp add: irq_rel_def target_enable_irq_def sint_of_nat_u8)
qed

section \<open>The contract of a critical section\<close>

text \<open>
  What the other components rely on when they bracket code with the two
  functions: nesting is counted up to a limit, the outermost section masks
  interrupts from the first instruction on, and leaving restores the depth.
\<close>

locale critical_section =
  fixes enter leave :: "'s \<Rightarrow> 's"
    and at_depth :: "nat \<Rightarrow> 's \<Rightarrow> bool"
    and masked :: "'s \<Rightarrow> bool"
    and limit :: nat
  assumes enter_depth: "at_depth d s \<Longrightarrow> d < limit \<Longrightarrow> at_depth (d + 1) (enter s)"
    and leave_depth: "at_depth d s \<Longrightarrow> at_depth (d - 1) (leave s)"
    and depth_masked: "at_depth d s \<Longrightarrow> masked s = (0 < d)"
begin

lemma inside_masked: "at_depth d s \<Longrightarrow> d < limit \<Longrightarrow> masked (enter s)"
  using depth_masked [OF enter_depth] by simp

lemma bracket_depth:
  assumes "at_depth d s" "d < limit" "\<And>t. at_depth (d + 1) t \<Longrightarrow> at_depth (d + 1) (f t)"
  shows "at_depth d (leave (f (enter s)))"
  using leave_depth [OF assms(3) [OF enter_depth [OF assms(1,2)]]] by simp

lemma bracket_masked:
  assumes "at_depth d s" "d < limit" "\<And>t. at_depth (d + 1) t \<Longrightarrow> at_depth (d + 1) (f t)"
  shows "masked (leave (f (enter s))) = masked s"
  using depth_masked [OF bracket_depth [OF assms]] depth_masked [OF assms(1)] by simp

lemma nested_depth:
  "at_depth d s \<Longrightarrow> d + n \<le> limit \<Longrightarrow> at_depth d ((leave ^^ n) ((enter ^^ n) s))"
proof (induction n arbitrary: s d)
  case (Suc n)
  have "at_depth (d + 1) (enter s)"
    using Suc.prems enter_depth [of d s] by simp
  then have "at_depth (d + 1) ((leave ^^ n) ((enter ^^ n) (enter s)))"
    by (rule Suc.IH) (use Suc.prems in simp)
  from leave_depth [OF this] show ?case
    by (simp add: funpow_swap1)
qed simp

end

interpretation irq_cs: critical_section target_disable_irq target_enable_irq irq_rel
    "\<lambda>s. primask (trace s)" 127
  by unfold_locales
    (fact irq_rel_disable, fact irq_rel_enable, simp add: irq_rel_def)

lemma depth_fits_start: "depth_fits ops d \<Longrightarrow> d \<le> 127"
  by (cases ops) auto

lemma irq_rel_step:
  assumes "irq_rel d s" "depth_step x d \<le> 127"
  shows "irq_rel (depth_step x d) (irq_step x s)"
  using assms irq_cs.enter_depth [of d s] irq_cs.leave_depth [of d s] by (cases x) auto

text \<open>
  C9. The nested interrupt mask of \<open>platform.c\<close> implements the abstract nesting
  depth: for every sequence of \<open>target_disable_irq\<close> and \<open>target_enable_irq\<close>
  calls that never nests deeper than 127 (unmatched enables included, which the
  code clamps at zero), the \<open>int8_t\<close> counter holds the depth and the processor
  has interrupts masked exactly when the depth is positive.
\<close>

theorem irq_nesting_refines_depth:
  assumes "irq_rel d s" "depth_fits ops d"
  shows "irq_rel (depth_run ops d) (irq_run ops s)"
  using assms
proof (induction ops arbitrary: d s)
  case (Cons x xs)
  then have "irq_rel (depth_step x d) (irq_step x s)"
    by (auto intro: irq_rel_step dest: depth_fits_start)
  with Cons show ?case
    by (simp add: depth_run_def irq_run_def)
qed (simp add: depth_run_def irq_run_def)

definition irq_reset :: irq where
  "irq_reset = \<lparr>trace = [], irq_disabled = 0\<rparr>"

theorem irq_nesting_refines_depth_witness:
  "irq_rel (depth_run [Enable, Disable, Disable, Enable] 0)
     (irq_run [Enable, Disable, Disable, Enable] irq_reset)"
  by (rule irq_nesting_refines_depth) (simp_all add: irq_rel_def irq_reset_def)

end
