(* ===== verification/Dma.thy ===== *)
theory Dma
  imports Irq
begin

text \<open>
  \<open>dma.c\<close>: the NVIC helpers that run from RAM and the table of one-shot DMA
  completion handlers. The functions whose address the firmware stores in the
  table are the constructors of \<open>dma_cb\<close>; calling one is the parameter \<open>run\<close>
  of the interrupt handler, which the components that register handlers
  instantiate.
\<close>

section \<open>NVIC helpers\<close>

definition irq_set_mask_enabled' :: "u32 \<Rightarrow> bool \<Rightarrow> 'a mach_scheme \<Rightarrow> 'a mach_scheme" where
  "irq_set_mask_enabled' msk enabled s =
     (if enabled
      then (let s = wr NVIC_ICPR msk s in wr NVIC_ISER msk s)
      else wr NVIC_ICER msk s)"

definition ram_irq_set_priority :: "plat \<Rightarrow> u32 \<Rightarrow> u8 \<Rightarrow> 'a mach_scheme \<Rightarrow> 'a mach_scheme" where
  "ram_irq_set_priority E num hardware_priority s =
     (let p = NVIC_IPR (num AND NOT 3);
          (v, s) = rd E p s
      in wr p ((v AND NOT (push_bit (8 * unat (num AND 3)) 0xff)) OR
               push_bit (8 * unat (num AND 3)) (ucast hardware_priority)) s)"

definition ram_irq_set_enabled :: "u32 \<Rightarrow> bool \<Rightarrow> 'a mach_scheme \<Rightarrow> 'a mach_scheme" where
  "ram_irq_set_enabled num enabled s = irq_set_mask_enabled' (push_bit (unat num) 1) enabled s"

text \<open>The priorities of \<open>jdpico.h\<close>.\<close>

definition IRQ_PRIORITY_TIM :: u8 where
  "IRQ_PRIORITY_TIM = push_bit 6 2"

definition IRQ_PRIORITY_EXTI :: u8 where
  "IRQ_PRIORITY_EXTI = push_bit 6 0"

definition IRQ_PRIORITY_UART :: u8 where
  "IRQ_PRIORITY_UART = push_bit 6 0"

section \<open>The handler table\<close>

datatype dma_cb = Uart_rx_handler | Uart_tx_handler | Spi_dma_cb | Log_tx_handler

record DMAHandler =
  cb_context :: "nat option"
  cb_handler :: "dma_cb option"

record dma = irq +
  dmaHandler :: "DMAHandler list"

abbreviation DMA_CHANNELS :: nat where
  "DMA_CHANNELS \<equiv> 12"

text \<open>Taking the handler of a channel out of the table before it is called.\<close>

definition dma_take :: "nat \<Rightarrow> 'a dma_scheme \<Rightarrow> 'a dma_scheme" where
  "dma_take ch s =
     (let s = emit (Dma (Dma_channel_set_irq0_enabled ch False)) s
      in s\<lparr>dmaHandler := (dmaHandler s)[ch := (dmaHandler s ! ch)\<lparr>cb_handler := None\<rparr>]\<rparr>)"

definition isr_dma_channel ::
  "(dma_cb \<Rightarrow> nat option \<Rightarrow> 'a dma_scheme \<Rightarrow> 'a dma_scheme res) \<Rightarrow> u32 \<Rightarrow> nat
    \<Rightarrow> 'a dma_scheme \<Rightarrow> 'a dma_scheme res" where
  "isr_dma_channel run msk ch s =
     (if bit32 ch AND msk \<noteq> 0
      then case cb_handler (dmaHandler s ! ch) of
             None \<Rightarrow> Inr s
           | Some f \<Rightarrow> (let s = dma_take ch s in run f (cb_context (dmaHandler s ! ch)) s)
      else Inr s)"

fun isr_dma_loop ::
  "(dma_cb \<Rightarrow> nat option \<Rightarrow> 'a dma_scheme \<Rightarrow> 'a dma_scheme res) \<Rightarrow> u32 \<Rightarrow> nat list
    \<Rightarrow> 'a dma_scheme \<Rightarrow> 'a dma_scheme res" where
  "isr_dma_loop run msk [] s = Inr s"
| "isr_dma_loop run msk (ch # chs) s =
     bindE (isr_dma_channel run msk ch s) (isr_dma_loop run msk chs)"

definition isr_dma_0 ::
  "plat \<Rightarrow> (dma_cb \<Rightarrow> nat option \<Rightarrow> 'a dma_scheme \<Rightarrow> 'a dma_scheme res)
    \<Rightarrow> 'a dma_scheme \<Rightarrow> 'a dma_scheme res" where
  "isr_dma_0 E run s =
     (let (msk, s) = rd E DMA_INTS0 s;
          s = wr DMA_INTS0 msk s
      in isr_dma_loop run msk [0..<DMA_CHANNELS] s)"

definition dma_dump :: "plat \<Rightarrow> 'a mach_scheme \<Rightarrow> 'a mach_scheme" where
  "dma_dump E s =
     (let (a, s) = rd E DMA_INTS0 s;
          (b, s) = rd E DMA_INTE0 s;
          (c, s) = ask E (Irq (Irq_is_enabled (DMA_IRQ_0 E))) s
      in emit (Dmesg ''DMA ints0=%x inte0=%x en=%d'' [uint a, uint b, c]) s)"

definition dma_set_ch_cb ::
  "plat \<Rightarrow> u8 \<Rightarrow> dma_cb \<Rightarrow> nat option \<Rightarrow> 'a dma_scheme \<Rightarrow> 'a dma_scheme res" where
  "dma_set_ch_cb E channel f ctx s =
     (if 12 \<le> channel then Inr s
      else let ch = unat channel in
        bindE (jd_assert (cb_handler (dmaHandler s ! ch) = None) s) (\<lambda>s.
          let s = s\<lparr>dmaHandler := (dmaHandler s)[ch := (dmaHandler s ! ch)\<lparr>cb_handler := Some f\<rparr>]\<rparr>;
              s = s\<lparr>dmaHandler := (dmaHandler s)[ch := (dmaHandler s ! ch)\<lparr>cb_context := ctx\<rparr>]\<rparr>;
              s = wr DMA_INTS0 (bit32 ch) s;
              s = emit (Dma (Dma_channel_set_irq0_enabled ch True)) s
          in Inr (ram_irq_set_enabled (of_nat (DMA_IRQ_0 E)) True s)))"

definition dma_inv :: "'a dma_scheme \<Rightarrow> bool" where
  "dma_inv s \<longleftrightarrow> length (dmaHandler s) = DMA_CHANNELS"

lemmas nvic_defs = irq_set_mask_enabled'_def ram_irq_set_priority_def ram_irq_set_enabled_def

section \<open>Priorities\<close>

lemma byte_lane_index: "unat (num AND 3 :: u32) < 4"
proof -
  have "num AND 3 \<le> 3" by (rule word_and_le1)
  then show ?thesis by (simp add: word_le_nat_alt)
qed

text \<open>Replacing byte lane \<open>l\<close> of a word leaves the other three lanes as they were.\<close>

lemma byte_lane_update:
  fixes v :: u32 and p :: u8
  assumes "i < 4" "l < 4"
  shows "(ucast (drop_bit (8 * i) ((v AND NOT (push_bit (8 * l) 0xff)) OR push_bit (8 * l) (ucast p))) :: u8)
    = (if i = l then p else ucast (drop_bit (8 * i) v))"
  using assms by (intro bit_word_eqI) (auto simp: bit_simps bit_0xff dest: bit_imp_le_length)

text \<open>
  \<open>ram_irq_set_priority\<close> only makes whole-word accesses to the NVIC, all to
  the priority word that holds the interrupt's byte, and the word it writes has
  the new priority in that byte and what was read before in the other three.
\<close>

lemma ram_irq_set_priority_lane:
  "\<exists>w. since s (ram_irq_set_priority E num prio s) =
      [Rd (NVIC_IPR (num AND NOT 3)), Wr (NVIC_IPR (num AND NOT 3)) w] \<and>
    (\<forall>i<4. ucast (drop_bit (8 * i) w) =
       (if i = unat (num AND 3) then prio
        else ucast (drop_bit (8 * i)
          (word_of_int (resp E (trace s) (Rd (NVIC_IPR (num AND NOT 3)))) :: u32))))"
proof (intro exI conjI allI impI)
  fix i :: nat
  assume "i < 4"
  then show "ucast (drop_bit (8 * i) ((v AND NOT (push_bit (8 * unat (num AND 3)) 0xff)) OR
      push_bit (8 * unat (num AND 3)) (ucast prio))) =
    (if i = unat (num AND 3) then prio else ucast (drop_bit (8 * i) v))" for v :: u32
    by (rule byte_lane_update) (rule byte_lane_index)
qed (simp add: since_def ram_irq_set_priority_def)

section \<open>Dispatch\<close>

text \<open>
  The reference: the channels that are pending and have a handler, in ascending
  order, each with the handler and context the table holds when the interrupt
  is taken.
\<close>

fun dma_pending :: "u32 \<Rightarrow> DMAHandler list \<Rightarrow> nat list \<Rightarrow> (nat \<times> dma_cb \<times> nat option) list" where
  "dma_pending msk tbl [] = []"
| "dma_pending msk tbl (ch # chs) =
     (case cb_handler (tbl ! ch) of
        Some f \<Rightarrow> (if bit msk ch then [(ch, f, cb_context (tbl ! ch))] else [])
      | None \<Rightarrow> []) @ dma_pending msk tbl chs"

fun dma_dispatch ::
  "(dma_cb \<Rightarrow> nat option \<Rightarrow> 'a dma_scheme \<Rightarrow> 'a dma_scheme res)
    \<Rightarrow> (nat \<times> dma_cb \<times> nat option) list \<Rightarrow> 'a dma_scheme \<Rightarrow> 'a dma_scheme res" where
  "dma_dispatch run [] s = Inr s"
| "dma_dispatch run ((ch, f, c) # xs) s = bindE (run f c (dma_take ch s)) (dma_dispatch run xs)"

text \<open>A callback that leaves alone the table entries of the channels being serviced.\<close>

definition keeps_pending ::
  "u32 \<Rightarrow> (dma_cb \<Rightarrow> nat option \<Rightarrow> 'a dma_scheme \<Rightarrow> 'a dma_scheme res) \<Rightarrow> bool" where
  "keeps_pending msk run \<longleftrightarrow>
     (\<forall>f c t t'. run f c t = Inr t' \<longrightarrow> dma_inv t \<longrightarrow>
        dma_inv t' \<and> (\<forall>ch<DMA_CHANNELS. bit msk ch \<longrightarrow> dmaHandler t' ! ch = dmaHandler t ! ch))"

lemma dma_inv_take [simp]: "dma_inv (dma_take ch s) = dma_inv s"
  by (simp add: dma_inv_def dma_take_def)

lemma dmaHandler_take: "ch' \<noteq> ch \<Longrightarrow> dmaHandler (dma_take ch s) ! ch' = dmaHandler s ! ch'"
  by (simp add: dma_take_def)

lemma context_take: "ch < length (dmaHandler s) \<Longrightarrow>
    cb_context (dmaHandler (dma_take ch s) ! ch) = cb_context (dmaHandler s ! ch)"
  by (simp add: dma_take_def)

lemma isr_dma_loop_dispatch:
  assumes "keeps_pending msk run" "dma_inv s" "dma_inv s0"
    and "distinct chs" "set chs \<subseteq> {..<DMA_CHANNELS}"
    and "\<forall>ch\<in>set chs. bit msk ch \<longrightarrow> dmaHandler s ! ch = dmaHandler s0 ! ch"
  shows "isr_dma_loop run msk chs s = dma_dispatch run (dma_pending msk (dmaHandler s0) chs) s"
  using assms(2-)
proof (induction chs arbitrary: s)
  case (Cons ch chs)
  then have ch: "ch < 32" "ch < length (dmaHandler s)" by (auto simp: dma_inv_def)
  show ?case
  proof (cases "bit msk ch \<and> cb_handler (dmaHandler s0 ! ch) \<noteq> None")
    case True
    then obtain f where f: "cb_handler (dmaHandler s ! ch) = Some f" using Cons.prems by auto
    let ?c = "cb_context (dmaHandler s0 ! ch)"
    have "isr_dma_channel run msk ch s = run f ?c (dma_take ch s)"
      using True f ch Cons.prems(5) by (simp add: isr_dma_channel_def and_bit32_eq_0_iff context_take)
    moreover have "isr_dma_loop run msk chs t = dma_dispatch run (dma_pending msk (dmaHandler s0) chs) t"
      if "run f ?c (dma_take ch s) = Inr t" for t
    proof -
      have "dma_inv t \<and> (\<forall>i<DMA_CHANNELS. bit msk i \<longrightarrow> dmaHandler t ! i = dmaHandler (dma_take ch s) ! i)"
        using assms(1) that Cons.prems(1) by (auto simp: keeps_pending_def)
      moreover have "\<forall>i\<in>set chs. dmaHandler (dma_take ch s) ! i = dmaHandler s ! i"
        using Cons.prems(3) by (auto intro: dmaHandler_take)
      ultimately show ?thesis
        using Cons.prems by (intro Cons.IH) (auto simp: subset_iff)
    qed
    ultimately show ?thesis
      using True f Cons.prems(5)
      by (cases "run f ?c (dma_take ch s)") auto
  next
    case False
    then have "isr_dma_channel run msk ch s = Inr s"
      using ch Cons.prems(5) by (auto simp: isr_dma_channel_def and_bit32_eq_0_iff)
    moreover have "isr_dma_loop run msk chs s = dma_dispatch run (dma_pending msk (dmaHandler s0) chs) s"
      using Cons.prems by (intro Cons.IH) auto
    ultimately show ?thesis
      using False by (auto split: option.split)
  qed
qed simp

text \<open>
  C10. The DMA interrupt handler, which walks the live table and clears each
  entry before calling it, serves exactly the channels that were pending when
  the interrupt status was read: each has its handler called once, in ascending
  channel order, with its own context, provided the handlers leave the entries
  of the pending channels alone. The status bits are acknowledged first.
\<close>

theorem isr_dma_0_dispatches:
  assumes "dma_inv s" "m = word_of_int (resp E (trace s) (Rd DMA_INTS0))" "keeps_pending m run"
  shows "isr_dma_0 E run s =
    dma_dispatch run (dma_pending m (dmaHandler s) [0..<DMA_CHANNELS])
      (wr DMA_INTS0 m (emit (Rd DMA_INTS0) s))"
proof -
  have "isr_dma_loop run m [0..<DMA_CHANNELS] (wr DMA_INTS0 m (emit (Rd DMA_INTS0) s)) =
      dma_dispatch run (dma_pending m (dmaHandler s) [0..<DMA_CHANNELS])
        (wr DMA_INTS0 m (emit (Rd DMA_INTS0) s))"
    by (rule isr_dma_loop_dispatch [OF assms(3)])
      (use assms(1) in \<open>simp_all only: dma_inv_def distinct_upt set_upt emit_def, auto\<close>)
  then show ?thesis
    by (simp add: isr_dma_0_def assms(2))
qed

definition dma_demo :: dma where
  "dma_demo = \<lparr>trace = [], irq_disabled = 0, dmaHandler =
     (replicate 12 \<lparr>cb_context = None, cb_handler = None\<rparr>)
       [1 := \<lparr>cb_context = Some 7, cb_handler = Some Spi_dma_cb\<rparr>,
        4 := \<lparr>cb_context = None, cb_handler = Some Log_tx_handler\<rparr>]\<rparr>"

theorem isr_dma_0_dispatches_witness:
  "let E = answering (\<lambda>_ c. if c = Rd DMA_INTS0 then 18 else 0); run = (\<lambda>f c t. Inr (emit (Call_cb 0) t)) in
    isr_dma_0 E run dma_demo =
      dma_dispatch run [(1, Spi_dma_cb, Some 7), (4, Log_tx_handler, None)]
        (wr DMA_INTS0 18 (emit (Rd DMA_INTS0) dma_demo))"
proof -
  have "dma_pending 18 (dmaHandler dma_demo) [0..<DMA_CHANNELS] =
      [(1, Spi_dma_cb, Some 7), (4, Log_tx_handler, None)]"
    by code_simp
  then show ?thesis
    by (simp add: isr_dma_0_dispatches [where m = 18] keeps_pending_def dma_inv_def dma_demo_def)
qed

section \<open>The one-shot contract\<close>

text \<open>
  What a component that registers a completion handler relies on: a free slot
  can be armed, an armed slot refuses a second handler (the assertion), and
  taking the handler frees the slot and no other.
\<close>

locale one_shot =
  fixes arm :: "'c \<Rightarrow> 'h \<Rightarrow> 's \<Rightarrow> 's res"
    and disarm :: "'c \<Rightarrow> 's \<Rightarrow> 's"
    and armed :: "'c \<Rightarrow> 's \<Rightarrow> 'h option"
    and slot :: "'c \<Rightarrow> bool"
    and ok :: "'s \<Rightarrow> bool"
  assumes arm_free: "ok s \<Longrightarrow> slot c \<Longrightarrow> armed c s = None \<Longrightarrow>
      \<exists>t. arm c h s = Inr t \<and> ok t \<and> armed c t = Some h \<and>
        (\<forall>d. slot d \<longrightarrow> d \<noteq> c \<longrightarrow> armed d t = armed d s)"
    and arm_busy: "ok s \<Longrightarrow> slot c \<Longrightarrow> armed c s \<noteq> None \<Longrightarrow> arm c h s = Inl Assert_failed"
    and disarm: "ok s \<Longrightarrow> slot c \<Longrightarrow> ok (disarm c s) \<and> armed c (disarm c s) = None \<and>
        (\<forall>d. slot d \<longrightarrow> d \<noteq> c \<longrightarrow> armed d (disarm c s) = armed d s)"
begin

lemma arm_succeeds_iff: "ok s \<Longrightarrow> slot c \<Longrightarrow> (\<exists>t. arm c h s = Inr t) \<longleftrightarrow> armed c s = None"
  using arm_free arm_busy by (metis Inl_Inr_False)

lemma armed_after: "ok s \<Longrightarrow> slot c \<Longrightarrow> arm c h s = Inr t \<Longrightarrow> ok t \<and> armed c t = Some h"
  using arm_free [of s c h] arm_busy [of s c h] by (cases "armed c s") auto

lemma arm_twice: "ok s \<Longrightarrow> slot c \<Longrightarrow> arm c h s = Inr t \<Longrightarrow> arm c h' t = Inl Assert_failed"
  using armed_after arm_busy by (metis option.distinct(1))

lemma rearm: "ok s \<Longrightarrow> slot c \<Longrightarrow> arm c h s = Inr t \<Longrightarrow>
    \<exists>u. arm c h' (disarm c t) = Inr u \<and> armed c u = Some h'"
  using armed_after [of s c h t] disarm [of t c] arm_free [of "disarm c t" c h'] by auto

end

definition dma_armed :: "u8 \<Rightarrow> 'a dma_scheme \<Rightarrow> (dma_cb \<times> nat option) option" where
  "dma_armed ch s = (let e = dmaHandler s ! unat ch in map_option (\<lambda>f. (f, cb_context e)) (cb_handler e))"

lemma unat_less_12: "ch < 12 \<longleftrightarrow> unat ch < 12" for ch :: u8
  by (simp add: word_less_nat_alt)

lemma unat_u8_eq_iff: "unat c = unat d \<longleftrightarrow> c = d" for c d :: u8
  by (simp add: word_unat_eq_iff)

lemmas dma_armed_simps =
  dma_armed_def dma_set_ch_cb_def dma_take_def dma_inv_def nvic_defs unat_less_12 not_le

interpretation dma_slots: one_shot "\<lambda>ch (f, c). dma_set_ch_cb E ch f c" "\<lambda>ch. dma_take (unat ch)"
    dma_armed "\<lambda>ch. ch < 12" dma_inv for E
  by unfold_locales
    (auto simp: dma_armed_simps nth_list_update jd_assert_def unat_u8_eq_iff)

lemma isr_dma_loop_append:
  "isr_dma_loop run msk (xs @ ys) s = bindE (isr_dma_loop run msk xs s) (isr_dma_loop run msk ys)"
  by (induction xs arbitrary: s) (auto simp: bindE_def split: sum.split)

lemma isr_dma_loop_skip:
  "\<forall>ch\<in>set chs. ch < 32 \<and> \<not> bit msk ch \<Longrightarrow> isr_dma_loop run msk chs s = Inr s"
  by (induction chs) (auto simp: isr_dma_channel_def and_bit32_eq_0_iff)

lemma isr_dma_loop_single:
  assumes "ch < DMA_CHANNELS" "cb_handler (dmaHandler s ! ch) = Some f" "dma_inv s"
  shows "isr_dma_loop run (bit32 ch) [0..<DMA_CHANNELS] s =
    run f (cb_context (dmaHandler s ! ch)) (dma_take ch s)"
proof -
  have split: "[0..<DMA_CHANNELS] = [0..<ch] @ [ch] @ [Suc ch..<DMA_CHANNELS]"
    using assms(1) upt_add_eq_append [of 0 ch "DMA_CHANNELS - ch"] upt_conv_Cons [of ch DMA_CHANNELS]
    by simp
  have skip: "isr_dma_loop run (2 ^ ch) [0..<ch] u = Inr u"
    "isr_dma_loop run (2 ^ ch) [Suc ch..<DMA_CHANNELS] u = Inr u" for u
    using assms(1) by (auto intro!: isr_dma_loop_skip simp: bit_simps)
  have "isr_dma_channel run (2 ^ ch) ch s = run f (cb_context (dmaHandler s ! ch)) (dma_take ch s)"
    using assms by (simp add: isr_dma_channel_def and_bit32_eq_0_iff bit_simps context_take dma_inv_def)
  then show ?thesis
    unfolding split by (auto simp: isr_dma_loop_append skip bindE_def split: sum.split)
qed

text \<open>
  C25. A registered DMA handler is one-shot: when a registration succeeds, a
  second one on the same channel fails the assertion; the next interrupt of the
  channel calls the handler with the registered context, in a state in which
  the channel is already free again and every other channel is as before the
  registration.
\<close>

theorem dma_completion_one_shot:
  assumes "dma_inv s" "ch < 12" "dma_set_ch_cb E ch f c s = Inr t"
    and "resp E (trace t) (Rd DMA_INTS0) = uint (bit32 (unat ch))"
  shows "dma_set_ch_cb E ch g d t = Inl Assert_failed \<and>
    (\<exists>u. isr_dma_0 E run t = run f c u \<and> dma_inv u \<and> dma_armed ch u = None \<and>
       (\<forall>e<12. e \<noteq> ch \<longrightarrow> dma_armed e u = dma_armed e s))"
proof -
  let ?u = "wr DMA_INTS0 (bit32 (unat ch)) (emit (Rd DMA_INTS0) t)"
  have armed: "dma_inv t" "dma_armed ch t = Some (f, c)"
    using dma_slots.armed_after [OF assms(1,2), of E "(f, c)" t] assms(3) by simp_all
  have others: "dma_armed e t = dma_armed e s" if "e < 12" "e \<noteq> ch" for e
    using dma_slots.arm_free [OF assms(1,2), of E "(f, c)"] assms(3) that
      dma_slots.arm_succeeds_iff [OF assms(1,2), of E "(f, c)"] by auto
  have u: "dma_inv ?u" "\<And>e. dma_armed e ?u = dma_armed e t"
    using armed(1) by (simp_all add: dma_inv_def dma_armed_def)
  have "isr_dma_0 E run t = run f c (dma_take (unat ch) ?u)"
    using armed assms(2) isr_dma_loop_single [of "unat ch" ?u f run] u(1)
    by (auto simp: isr_dma_0_def assms(4) dma_armed_def unat_less_12)
  moreover have "dma_set_ch_cb E ch g d t = Inl Assert_failed"
    using dma_slots.arm_twice [OF assms(1,2), of E "(f, c)" t "(g, d)"] assms(3) by simp
  ultimately show ?thesis
    using dma_slots.disarm [OF u(1) assms(2)] u(2) others by auto
qed

theorem dma_completion_one_shot_witness:
  "let E = answering (\<lambda>_ c. if c = Rd DMA_INTS0 then 8 else 0);
       t = projr (dma_set_ch_cb E 3 Uart_tx_handler None dma_demo)
   in \<exists>u. isr_dma_0 E (\<lambda>f c t. Inr (emit (Call_cb 0) t)) t = Inr (emit (Call_cb 0) u) \<and>
      dma_armed 3 u = None"
proof -
  let ?E = "answering (\<lambda>_ c. if c = Rd DMA_INTS0 then 8 else 0)"
  let ?t = "projr (dma_set_ch_cb ?E 3 Uart_tx_handler None dma_demo)"
  have "dma_set_ch_cb ?E 3 Uart_tx_handler None dma_demo = Inr ?t"
    by (simp add: dma_set_ch_cb_def dma_demo_def)
  from dma_completion_one_shot [OF _ _ this, of Spi_dma_cb None "\<lambda>f c t. Inr (emit (Call_cb 0) t)"]
  show ?thesis
    by (auto simp: dma_inv_def dma_demo_def)
qed

end
