(* ===== verification/Timer.thy ===== *)
theory Timer
  imports Dma
begin

text \<open>
  \<open>tim.c\<close>: the one-shot alarm, the 64-bit microsecond clock read through two
  32-bit registers, and the busy-wait delay. Reads of the timer registers are
  answers of the other side; the clock they are assumed to show is the
  predicate \<open>clock\<close>. The two loops may not end on an arbitrary clock, so they
  are partial functions into \<open>option\<close>; that they return is proved.
\<close>

section \<open>State and operations\<close>

definition ALARM_NUM :: nat where
  "ALARM_NUM = 0"

record tim = dma +
  timer_cb :: "nat option"
  int2 :: u32
  last_delay :: u32
  last_delay_now :: u32

definition tim_handler :: "plat \<Rightarrow> (nat \<Rightarrow> 'a tim_scheme \<Rightarrow> 'a tim_scheme res)
    \<Rightarrow> 'a tim_scheme \<Rightarrow> 'a tim_scheme res" where
  "tim_handler E run s =
     (let s = wr TIMER_INTR (bit32 ALARM_NUM) s in
      case timer_cb s of
        None \<Rightarrow> Inr s
      | Some f \<Rightarrow>
         (let s = target_disable_irq s;
              (tal, s) = rd E (TIMER_ALARM ALARM_NUM) s;
              (now, s) = rd E TIMER_TIMERAWL s
          in if drop_bit 29 (tal - (now + 5)) = 0
             then (let s = wr (TIMER_ALARM ALARM_NUM) tal s;
                       s = s\<lparr>last_delay := tal, last_delay_now := now\<rparr>;
                       (i, s) = rd E TIMER_INTR s;
                       s = s\<lparr>int2 := i\<rparr>;
                       s = emit (Dmesg ''timer problem: al=%u now=%u'' [uint tal, uint now]) s
                   in Inr (target_enable_irq s))
             else (let s = target_enable_irq s
                   in run f (s\<lparr>last_delay := 0, timer_cb := None\<rparr>))))"

definition harware_alarm_irq_number :: "plat \<Rightarrow> nat \<Rightarrow> nat" where
  "harware_alarm_irq_number E alarm_num = TIMER_IRQ_0 E + alarm_num"

definition tim_init :: "plat \<Rightarrow> 'a mach_scheme \<Rightarrow> 'a mach_scheme" where
  "tim_init E s =
     (let irq_num = harware_alarm_irq_number E ALARM_NUM;
          s = emit (Irq (Hardware_alarm_claim ALARM_NUM)) s;
          s = emit (Irq (Irq_set_exclusive_handler_tim irq_num)) s;
          s = ram_irq_set_priority E (of_nat irq_num) IRQ_PRIORITY_TIM s;
          s = ram_irq_set_enabled (of_nat irq_num) True s
      in emit (Hw_set_bits TIMER_INTE (bit32 ALARM_NUM)) s)"

partial_function (option) micros_loop ::
  "plat \<Rightarrow> u32 \<Rightarrow> 'a mach_scheme \<Rightarrow> (u64 \<times> 'a mach_scheme) option" where
  "micros_loop E hi s =
     (let (lo, s) = rd E TIMER_TIMERAWL s;
          (next_hi, s) = rd E TIMER_TIMERAWH s
      in if hi = next_hi then Some (push_bit 32 (ucast hi) OR ucast lo, s)
         else micros_loop E next_hi s)"

definition tim_get_micros :: "plat \<Rightarrow> 'a mach_scheme \<Rightarrow> (u64 \<times> 'a mach_scheme) option" where
  "tim_get_micros E s =
     (let (hi, s) = rd E TIMER_TIMERAWH s in micros_loop E hi s)"

definition tim_set_timer :: "plat \<Rightarrow> int \<Rightarrow> nat option \<Rightarrow> 'a tim_scheme \<Rightarrow> 'a tim_scheme res" where
  "tim_set_timer E delta cb s =
     (let delta = (if delta < 10 then 10 else delta);
          (delta, s) = (if delta = JD_MIN_MAX_SLEEP E then ask E Get_jd_max_sleep s else (delta, s));
          s = target_disable_irq s;
          s = s\<lparr>timer_cb := cb\<rparr>
      in bindE (of_loop (tim_get_micros E s)) (\<lambda>(t, s).
         let s = wr (TIMER_ALARM ALARM_NUM) (ucast t + word_of_int delta) s;
             s = wr TIMER_INTR (bit32 ALARM_NUM) s;
             s = emit (Irq (Irq_clear (harware_alarm_irq_number E ALARM_NUM))) s
         in Inr (target_enable_irq s)))"

partial_function (option) wait_loop ::
  "plat \<Rightarrow> u32 \<Rightarrow> u32 \<Rightarrow> 'a mach_scheme \<Rightarrow> 'a mach_scheme option" where
  "wait_loop E start n s =
     (let (t, s) = rd E TIMER_TIMERAWL s
      in if t - start < n then wait_loop E start n s else Some s)"

definition target_wait_us :: "plat \<Rightarrow> u32 \<Rightarrow> 'a mach_scheme \<Rightarrow> 'a mach_scheme option" where
  "target_wait_us E n s =
     (let (start, s) = rd E TIMER_TIMERAWL s in wait_loop E start n s)"

section \<open>What the timer registers show\<close>

text \<open>
  The documented timer: a microsecond counter that never goes back, whose two
  raw registers are its low and high word; it keeps counting while the
  processor polls it, and no two accesses at the boundary are more than
  \<open>2^29\<close> microseconds apart.
\<close>

definition clock :: "plat \<Rightarrow> (call list \<Rightarrow> nat) \<Rightarrow> bool" where
  "clock E clk \<longleftrightarrow>
     (\<forall>tr. resp E tr (Rd TIMER_TIMERAWL) = int (clk tr mod 2 ^ 32)) \<and>
     (\<forall>tr. resp E tr (Rd TIMER_TIMERAWH) = int (clk tr div 2 ^ 32 mod 2 ^ 32)) \<and>
     (\<forall>tr c. clk tr \<le> clk (tr @ [c]) \<and> clk (tr @ [c]) \<le> clk tr + 2 ^ 29) \<and>
     (\<forall>tr t. \<exists>n. t \<le> clk (tr @ replicate n (Rd TIMER_TIMERAWL)))"

lemma clock_lo: "clock E clk \<Longrightarrow>
    word_of_int (resp E tr (Rd TIMER_TIMERAWL)) = (of_nat (clk tr) :: u32)"
  by (simp add: clock_def u32_of_nat_mod del: of_nat_mod)

lemma clock_hi: "clock E clk \<Longrightarrow>
    word_of_int (resp E tr (Rd TIMER_TIMERAWH)) = (of_nat (clk tr div 2 ^ 32) :: u32)"
  by (simp add: clock_def u32_of_nat_mod del: of_nat_div)

lemma clock_mono: "clock E clk \<Longrightarrow> clk tr \<le> clk (tr @ [c])"
  by (simp add: clock_def)

lemma clock_step: "clock E clk \<Longrightarrow> clk (tr @ [c]) \<le> clk tr + 2 ^ 29"
  by (simp add: clock_def)

lemma clock_progress: "clock E clk \<Longrightarrow> \<exists>n. t \<le> clk (tr @ replicate n (Rd TIMER_TIMERAWL))"
  by (simp add: clock_def)

section \<open>Reading the clock\<close>

text \<open>Recombining the two words of a 64-bit count.\<close>

lemma u64_join:
  "push_bit 32 (ucast (of_nat (t div 2 ^ 32) :: u32)) OR
     ucast (of_nat t :: u32) = (of_nat t :: u64)"
  unfolding drop_bit_eq_div [symmetric]
  by (rule bit_word_eqI) (auto simp: bit_simps)

lemma div_less_wrap: "c < a + 2 ^ 32 \<Longrightarrow> c div 2 ^ 32 \<le> a div 2 ^ 32 + 1" for a c :: nat
  using div_le_mono [of c "a + 2 ^ 32" "2 ^ 32"] by simp

text \<open>Two readings of the high word that agree, less than a wrap apart, bracket the low word.\<close>

lemma high_words_agree:
  fixes a b c :: nat
  assumes "a \<le> b" "b \<le> c" "c < a + 2 ^ 32"
    and "a div 2 ^ 32 mod 2 ^ 32 = c div 2 ^ 32 mod 2 ^ 32"
  shows "a div 2 ^ 32 = b div 2 ^ 32"
proof -
  have "c div 2 ^ 32 = a div 2 ^ 32 \<or> c div 2 ^ 32 = a div 2 ^ 32 + 1"
    using div_less_wrap [OF assms(3)] div_le_mono [of a c "2 ^ 32"] assms(1,2) by linarith
  then have "c div 2 ^ 32 = a div 2 ^ 32"
    using assms(4) by (auto simp: mod_Suc split: if_splits)
  then show ?thesis
    using div_le_mono [OF assms(1), of "2 ^ 32"] div_le_mono [OF assms(2), of "2 ^ 32"] by linarith
qed

text \<open>After a wrap of the low word the next one is far away.\<close>

lemma high_word_stays:
  fixes a b c :: nat
  assumes "a \<le> b" "b \<le> c" "c < a + 2 ^ 32" "a div 2 ^ 32 \<noteq> b div 2 ^ 32"
  shows "b div 2 ^ 32 = c div 2 ^ 32"
  using div_less_wrap [OF assms(3)] div_le_mono [OF assms(1), of "2 ^ 32"]
    div_le_mono [OF assms(2), of "2 ^ 32"] assms(4) by linarith

abbreviation hi_word :: "nat \<Rightarrow> u32" where
  "hi_word t \<equiv> of_nat (t div 2 ^ 32)"

lemma micros_loop_done:
  assumes "clock E clk" "hi = hi_word a" "a \<le> clk (trace s)"
    and "clk (trace s @ [Rd TIMER_TIMERAWL]) < a + 2 ^ 32"
    and "hi = hi_word (clk (trace s @ [Rd TIMER_TIMERAWL]))"
  shows "micros_loop E hi s =
    Some (of_nat (clk (trace s)), emit (Rd TIMER_TIMERAWH) (emit (Rd TIMER_TIMERAWL) s))"
proof -
  have "a div 2 ^ 32 = clk (trace s) div 2 ^ 32"
    using assms clock_mono [OF assms(1), of "trace s" "Rd TIMER_TIMERAWL"]
    by (intro high_words_agree [of _ _ "clk (trace s @ [Rd TIMER_TIMERAWL])"])
      (simp_all add: u32_of_nat_eq_iff del: of_nat_div)
  with assms(2,5) show ?thesis
    by (subst micros_loop.simps)
      (simp only: u64_join [of "clk (trace s)", symmetric] Let_def rd_def prod.case
        clock_lo [OF assms(1)] clock_hi [OF assms(1)] emit_def, simp)
qed

lemma micros_loop_again:
  assumes "clock E clk" "hi \<noteq> hi_word (clk (trace s @ [Rd TIMER_TIMERAWL]))"
  shows "micros_loop E hi s =
    micros_loop E (hi_word (clk (trace s @ [Rd TIMER_TIMERAWL])))
      (emit (Rd TIMER_TIMERAWH) (emit (Rd TIMER_TIMERAWL) s))"
  using assms(2)
  by (subst micros_loop.simps)
    (simp add: clock_hi [OF assms(1)] del: of_nat_div)

lemma clock_window:
  assumes "clock E clk"
  shows "clk tr \<le> clk (tr @ [c1]) \<and> clk (tr @ [c1]) \<le> clk (tr @ [c1, c2]) \<and>
    clk (tr @ [c1, c2]) \<le> clk (tr @ [c1, c2, c3]) \<and>
    clk (tr @ [c1, c2, c3]) \<le> clk (tr @ [c1, c2, c3, c4]) \<and>
    clk (tr @ [c1, c2, c3, c4]) \<le> clk (tr @ [c1, c2, c3, c4, c5]) \<and>
    clk (tr @ [c1, c2, c3, c4, c5]) < clk tr + 2 ^ 32"
  using clock_mono [OF assms, of tr c1] clock_mono [OF assms, of "tr @ [c1]" c2]
    clock_mono [OF assms, of "tr @ [c1, c2]" c3] clock_mono [OF assms, of "tr @ [c1, c2, c3]" c4]
    clock_mono [OF assms, of "tr @ [c1, c2, c3, c4]" c5]
    clock_step [OF assms, of tr c1] clock_step [OF assms, of "tr @ [c1]" c2]
    clock_step [OF assms, of "tr @ [c1, c2]" c3] clock_step [OF assms, of "tr @ [c1, c2, c3]" c4]
    clock_step [OF assms, of "tr @ [c1, c2, c3, c4]" c5]
  by simp

lemma tim_get_micros_returns:
  assumes "clock E clk"
  shows "\<exists>t cs. tim_get_micros E s = Some (of_nat t, s\<lparr>trace := trace s @ cs\<rparr>) \<and>
    set cs \<subseteq> {Rd TIMER_TIMERAWL, Rd TIMER_TIMERAWH} \<and> length cs \<le> 5 \<and>
    clk (trace s) \<le> t \<and> t \<le> clk (trace s @ cs)"
proof -
  let ?L = "Rd TIMER_TIMERAWL" and ?H = "Rd TIMER_TIMERAWH"
  let ?tr = "trace s"
  let ?s1 = "emit ?H s" and ?s3 = "emit ?H (emit ?L (emit ?H s))"
  have start: "tim_get_micros E s = micros_loop E (hi_word (clk ?tr)) ?s1"
    by (simp add: tim_get_micros_def clock_hi [OF assms] del: of_nat_div)
  note w = clock_window [OF assms, of ?tr ?H ?L ?H ?L ?H]
  show ?thesis
  proof (cases "hi_word (clk ?tr) = hi_word (clk (?tr @ [?H, ?L]))")
    case True
    then have "micros_loop E (hi_word (clk ?tr)) ?s1 =
        Some (of_nat (clk (?tr @ [?H])), emit ?H (emit ?L ?s1))"
      using w by (subst micros_loop_done [OF assms refl]) simp_all
    with start w show ?thesis
      by (intro exI [of _ "clk (?tr @ [?H])"] exI [of _ "[?H, ?L, ?H]"]) simp
  next
    case False
    then have "clk ?tr div 2 ^ 32 \<noteq> clk (?tr @ [?H, ?L]) div 2 ^ 32"
      by auto
    then have stays: "clk (?tr @ [?H, ?L]) div 2 ^ 32 = clk (?tr @ [?H, ?L, ?H, ?L]) div 2 ^ 32"
      using w by (intro high_word_stays [of "clk ?tr"]) linarith+
    have "micros_loop E (hi_word (clk ?tr)) ?s1 = micros_loop E (hi_word (clk (?tr @ [?H, ?L]))) ?s3"
      using False by (subst micros_loop_again [OF assms]) simp_all
    also have "\<dots> = Some (of_nat (clk (trace ?s3)), emit ?H (emit ?L ?s3))"
      using w stays
      by (intro micros_loop_done [OF assms, where a = "clk (?tr @ [?H, ?L])"]) simp_all
    finally have "micros_loop E (hi_word (clk ?tr)) ?s1 =
        Some (of_nat (clk (?tr @ [?H, ?L, ?H])), emit ?H (emit ?L ?s3))"
      by simp
    with start w show ?thesis
      by (intro exI [of _ "clk (?tr @ [?H, ?L, ?H])"] exI [of _ "[?H, ?L, ?H, ?L, ?H]"]) simp
  qed
qed

text \<open>
  C13. Reading the 64-bit clock is atomic although it takes several 32-bit
  reads: on the documented timer \<open>tim_get_micros\<close> always returns, after at most
  one retry, and the value is the count at an instant between the call and the
  return, even when the low word wraps around in between.
\<close>

theorem tim_get_micros_atomic:
  assumes "clock E clk"
  shows "\<exists>t s'. tim_get_micros E s = Some (of_nat t, s') \<and>
    clk (trace s) \<le> t \<and> t \<le> clk (trace s') \<and> length (since s s') \<le> 5"
  using tim_get_micros_returns [OF assms, of s] by (auto simp: since_def)

section \<open>Busy waiting\<close>

lemma elapsed_less_iff:
  fixes n :: u32
  assumes "t0 \<le> t" "t < t0 + 2 ^ 32"
  shows "(of_nat t :: u32) - of_nat t0 < n \<longleftrightarrow> t - t0 < unat n"
proof -
  have "(of_nat t :: u32) - of_nat t0 = of_nat (t - t0)"
    using assms(1) by simp
  then show ?thesis
    using assms by (simp only:) (simp del: of_nat_diff add: word_less_nat_alt unsigned_of_nat take_bit_nat_eq_self)
qed

lemma wait_loop_run:
  assumes "clock E clk"
    and "\<And>j. j \<le> k \<Longrightarrow> t0 \<le> clk (trace s @ replicate j (Rd TIMER_TIMERAWL)) \<and>
      clk (trace s @ replicate j (Rd TIMER_TIMERAWL)) < t0 + 2 ^ 32"
    and "\<And>j. j < k \<Longrightarrow> clk (trace s @ replicate j (Rd TIMER_TIMERAWL)) < t0 + unat n"
    and "t0 + unat n \<le> clk (trace s @ replicate k (Rd TIMER_TIMERAWL))"
  shows "wait_loop E (of_nat t0) n s =
    Some (s\<lparr>trace := trace s @ replicate (Suc k) (Rd TIMER_TIMERAWL)\<rparr>)"
  using assms(2-)
proof (induction k arbitrary: s)
  case 0
  then have "\<not> (of_nat (clk (trace s)) :: u32) - of_nat t0 < n"
    by (subst elapsed_less_iff) auto
  then show ?case
    by (subst wait_loop.simps) (simp add: clock_lo [OF assms(1)])
next
  case (Suc k)
  let ?s = "s\<lparr>trace := trace s @ [Rd TIMER_TIMERAWL]\<rparr>"
  have rec: "wait_loop E (of_nat t0) n ?s =
      Some (?s\<lparr>trace := trace ?s @ replicate (Suc k) (Rd TIMER_TIMERAWL)\<rparr>)"
  proof (rule Suc.IH, goal_cases)
    case (1 j)
    then show ?case using Suc.prems(1) [of "Suc j"] by simp
  next
    case (2 j)
    then show ?case using Suc.prems(2) [of "Suc j"] by simp
  next
    case 3
    then show ?case using Suc.prems(3) by simp
  qed
  have "(of_nat (clk (trace s)) :: u32) - of_nat t0 < n"
    using Suc.prems(1,2) [of 0] by (subst elapsed_less_iff) (auto simp: less_diff_conv2)
  then show ?case
    using rec by (subst wait_loop.simps) (simp add: clock_lo [OF assms(1)])
qed

lemma clock_append_mono:
  assumes "clock E clk"
  shows "clk tr \<le> clk (tr @ cs)"
proof (induction cs rule: rev_induct)
  case (snoc c cs)
  also have "clk (tr @ cs) \<le> clk ((tr @ cs) @ [c])"
    by (rule clock_mono [OF assms])
  finally show ?case by simp
qed simp

text \<open>The first sample that is late enough, and that no sample before it skipped a wrap.\<close>

lemma clock_first_sample:
  assumes "clock E clk" "clk tr \<le> t0 + 2 ^ 29" "m \<le> 2 ^ 32 - 2 ^ 29"
  obtains k where "t0 + m \<le> clk (tr @ replicate k (Rd TIMER_TIMERAWL))"
    "\<And>j. j < k \<Longrightarrow> clk (tr @ replicate j (Rd TIMER_TIMERAWL)) < t0 + m"
    "\<And>j. j \<le> k \<Longrightarrow> clk (tr @ replicate j (Rd TIMER_TIMERAWL)) < t0 + 2 ^ 32"
proof -
  let ?t = "\<lambda>j. clk (tr @ replicate j (Rd TIMER_TIMERAWL))"
  define k where "k = (LEAST k. t0 + m \<le> ?t k)"
  have late: "t0 + m \<le> ?t k"
    unfolding k_def using clock_progress [OF assms(1), of "t0 + m" tr] by (rule LeastI_ex)
  have early: "?t j < t0 + m" if "j < k" for j
    using not_less_Least [OF that [unfolded k_def]] by simp
  have bound: "?t j < t0 + 2 ^ 32" if "j \<le> k" for j
  proof (cases j)
    case (Suc i)
    then have "?t i < t0 + m" using that early by simp
    moreover have "?t j \<le> ?t i + 2 ^ 29"
      using clock_step [OF assms(1), of "tr @ replicate i (Rd TIMER_TIMERAWL)" "Rd TIMER_TIMERAWL"] Suc
      by (simp add: replicate_append_same)
    ultimately show ?thesis using assms(3) by simp
  qed (use assms(2) in simp)
  show ?thesis
    by (rule that [OF late early bound])
qed

lemma target_wait_us_returns:
  assumes "clock E clk" "unat n \<le> 2 ^ 32 - 2 ^ 29"
  shows "\<exists>k. target_wait_us E n s =
      Some (s\<lparr>trace := trace s @ replicate (Suc (Suc k)) (Rd TIMER_TIMERAWL)\<rparr>) \<and>
    clk (trace s) + unat n \<le> clk (trace s @ replicate (Suc k) (Rd TIMER_TIMERAWL))"
proof -
  let ?L = "Rd TIMER_TIMERAWL"
  let ?s = "s\<lparr>trace := trace s @ [?L]\<rparr>"
  have "clk (trace ?s) \<le> clk (trace s) + 2 ^ 29"
    using clock_step [OF assms(1)] by simp
  then obtain k where k: "clk (trace s) + unat n \<le> clk (trace ?s @ replicate k ?L)"
    "\<And>j. j < k \<Longrightarrow> clk (trace ?s @ replicate j ?L) < clk (trace s) + unat n"
    "\<And>j. j \<le> k \<Longrightarrow> clk (trace ?s @ replicate j ?L) < clk (trace s) + 2 ^ 32"
    using clock_first_sample [OF assms(1) _ assms(2)] by blast
  have mono: "clk (trace s) \<le> clk (trace ?s @ replicate j ?L)" for j
    using clock_append_mono [OF assms(1), of "trace s" "replicate (Suc j) ?L"] by simp
  have "wait_loop E (of_nat (clk (trace s))) n ?s =
      Some (?s\<lparr>trace := trace ?s @ replicate (Suc k) ?L\<rparr>)"
    by (rule wait_loop_run [OF assms(1)]) (use mono k in auto)
  with k(1) show ?thesis
    by (intro exI [of _ k])
      (simp add: target_wait_us_def clock_lo [OF assms(1)])
qed

text \<open>
  C14. \<open>target_wait_us\<close> returns on the documented timer, for every delay up to
  \<open>2^32 - 2^29\<close> microseconds and across a wrap of the 32-bit counter, and not
  before the delay has passed.
\<close>

theorem target_wait_us_waits:
  assumes "clock E clk" "unat n \<le> 2 ^ 32 - 2 ^ 29"
  shows "\<exists>k. target_wait_us E n s =
      Some (s\<lparr>trace := trace s @ replicate (Suc (Suc k)) (Rd TIMER_TIMERAWL)\<rparr>) \<and>
    clk (trace s) + unat n \<le> clk (trace s @ replicate (Suc k) (Rd TIMER_TIMERAWL))"
  by (rule target_wait_us_returns [OF assms])

definition wrap_clk :: "call list \<Rightarrow> nat" where
  "wrap_clk tr = 2 ^ 32 - 1 + length tr"

definition wrap_plat :: plat where
  "wrap_plat = answering (\<lambda>tr c.
     if c = Rd TIMER_TIMERAWL then int (wrap_clk tr mod 2 ^ 32)
     else if c = Rd TIMER_TIMERAWH then int (wrap_clk tr div 2 ^ 32 mod 2 ^ 32)
     else if c = Rd (TIMER_ALARM 0) then 40
     else 0)"

lemma wrap_clock: "clock wrap_plat wrap_clk"
proof -
  have "\<exists>n. t \<le> wrap_clk (tr @ replicate n (Rd TIMER_TIMERAWL))" for t tr
    by (rule exI [of _ t]) (simp add: wrap_clk_def)
  then show ?thesis
    by (simp add: clock_def wrap_plat_def) (simp add: wrap_clk_def)
qed

theorem tim_get_micros_atomic_witness:
  "\<exists>t s'. tim_get_micros wrap_plat \<lparr>trace = []\<rparr> = Some (of_nat t, s') \<and>
    wrap_clk [] \<le> t \<and> t \<le> wrap_clk (trace s') \<and> length (trace s') \<le> 5"
  using tim_get_micros_atomic [OF wrap_clock, of "\<lparr>trace = []\<rparr>"] by (simp add: since_def)

theorem target_wait_us_waits_witness:
  "\<exists>k. target_wait_us wrap_plat 12 \<lparr>trace = []\<rparr> =
      Some \<lparr>trace = replicate (Suc (Suc k)) (Rd TIMER_TIMERAWL)\<rparr> \<and>
    wrap_clk [] + 12 \<le> wrap_clk (replicate (Suc k) (Rd TIMER_TIMERAWL))"
  using target_wait_us_waits [OF wrap_clock, of 12 "\<lparr>trace = []\<rparr>"] by simp

section \<open>The alarm\<close>

lemma drop_bit_29_eq_0_iff: "drop_bit 29 w = 0 \<longleftrightarrow> unat w < 2 ^ 29" for w :: u32
  by (simp add: drop_bit_eq_div word_unat_eq_iff unat_div_distrib div_eq_0_iff)

lemma alarm_window:
  fixes a b :: nat
  assumes "a \<le> b + 2 ^ 29 - 1" "b \<le> a + 2 ^ 31 + 5"
  shows "drop_bit 29 ((of_nat a :: u32) - of_nat b) = 0 \<longleftrightarrow> b \<le> a"
proof (cases "b \<le> a")
  case True
  then have "(of_nat a :: u32) - of_nat b = of_nat (a - b)" by simp
  moreover have "unat (of_nat (a - b) :: u32) = a - b"
    using assms(1) True by (simp add: unsigned_of_nat take_bit_nat_eq_self del: of_nat_diff)
  ultimately show ?thesis
    using assms(1) True by (simp add: drop_bit_29_eq_0_iff del: of_nat_diff)
next
  case False
  let ?d = "2 ^ 32 - (b - a)"
  have "(of_nat a :: u32) - of_nat b = of_nat (2 ^ 32) - of_nat (b - a)"
    using False by simp
  also have "\<dots> = of_nat ?d"
    using assms(2) False by (subst of_nat_diff) simp_all
  finally have "unat ((of_nat a :: u32) - of_nat b) = ?d"
    using False assms(2) by (simp add: unsigned_of_nat take_bit_nat_eq_self del: of_nat_diff)
  then show ?thesis
    using assms(2) False by (simp add: drop_bit_29_eq_0_iff)
qed

text \<open>
  C16. The alarm interrupt handler tells an alarm that is due from one that the
  hardware raised early, across wraps of the 32-bit counter: with the alarm
  register holding the low word of \<open>A\<close> and the clock read at \<open>T\<close>, the callback is
  called (once, after it was taken out of \<open>timer_cb\<close>) exactly when
  \<open>A < T + 5\<close>; otherwise the callback stays registered and the alarm is armed
  again with the same value. Either way the interrupt mask is as before.
\<close>

theorem tim_handler_due:
  fixes s :: "'a tim_scheme"
  defines "tr \<equiv> trace s @ [Wr TIMER_INTR 1, Cpu Cpsid]"
  assumes "clock E clk" "timer_cb s = Some f" "irq_rel d s" "d < 127"
    and "resp E tr (Rd (TIMER_ALARM 0)) = int (A mod 2 ^ 32)"
    and "T = clk (tr @ [Rd (TIMER_ALARM 0)])"
    and "A \<le> T + 2 ^ 29" "T \<le> A + 2 ^ 31"
  shows "if A < T + 5
    then \<exists>s'. tim_handler E run s = run f s' \<and> timer_cb s' = None \<and> irq_rel d s'
    else \<exists>s'. tim_handler E run s = Inr s' \<and> timer_cb s' = Some f \<and> irq_rel d s' \<and>
      Wr (TIMER_ALARM 0) (of_nat A) \<in> set (since s s')"
proof -
  define s1 where "s1 = target_disable_irq (wr TIMER_INTR 1 s)"
  have "irq_rel d (wr TIMER_INTR 1 s)"
    using assms(4) by (simp add: irq_rel_def)
  then have s1: "irq_rel (d + 1) s1"
    unfolding s1_def using assms(5) by (rule irq_cs.enter_depth)
  have fold_s1: "target_disable_irq (s\<lparr>trace := trace s @ [Wr TIMER_INTR 1]\<rparr>) = s1"
    by (simp add: s1_def)
  have tr: "trace s1 = tr" "timer_cb s1 = Some f"
    using assms(3) by (simp_all add: s1_def target_disable_irq_def tr_def)
  have "(of_nat A :: u32) - (of_nat T + 5) = of_nat A - of_nat (T + 5)"
    by simp
  then have win: "drop_bit 29 ((of_nat A :: u32) - (of_nat T + 5)) = 0 \<longleftrightarrow> \<not> A < T + 5"
    using alarm_window [of A "T + 5"] assms(8,9) by auto
  define s2 where "s2 = emit (Rd TIMER_TIMERAWL) (emit (Rd (TIMER_ALARM 0)) s1)"
  define s3 where "s3 = emit (Dmesg ''timer problem: al=%u now=%u'' [uint (of_nat A :: u32), uint (of_nat T :: u32)])
    ((emit (Rd TIMER_INTR) ((wr (TIMER_ALARM 0) (of_nat A) s2)\<lparr>last_delay := of_nat A, last_delay_now := of_nat T\<rparr>))
      \<lparr>int2 := word_of_int (resp E (trace s2 @ [Wr (TIMER_ALARM 0) (of_nat A)]) (Rd TIMER_INTR))\<rparr>)"
  have eq: "tim_handler E run s =
      (if A < T + 5 then run f ((target_enable_irq s2)\<lparr>last_delay := 0, timer_cb := None\<rparr>)
       else Inr (target_enable_irq s3))"
    using assms(6,7) win tr
    by (simp add: tim_handler_def ALARM_NUM_def s2_def s3_def u32_of_nat_mod clock_lo [OF assms(2)]
        assms(3) fold_s1)
  have rel: "irq_rel (d + 1) s2" "irq_rel (d + 1) s3"
    using s1 by (simp_all add: s2_def s3_def irq_rel_def)
  note out = rel [THEN irq_cs.leave_depth]
  have "timer_cb (target_enable_irq s3) = Some f"
    using tr(2) by (simp add: s2_def s3_def target_enable_irq_def)
  moreover have "Wr (TIMER_ALARM 0) (of_nat A) \<in> set (since s (target_enable_irq s3))"
    using tr(1) by (simp add: s2_def s3_def target_enable_irq_def since_def tr_def)
  ultimately show ?thesis
    using eq out by (auto simp: irq_rel_def)
qed

theorem tim_handler_due_witness:
  "\<exists>s'. tim_handler wrap_plat (\<lambda>f s. Inr (emit (Call_cb f) s))
      \<lparr>trace = [], irq_disabled = 0, dmaHandler = [], timer_cb = Some 3, int2 = 0, last_delay = 0,
       last_delay_now = 0\<rparr> = Inr s' \<and> timer_cb s' = Some 3"
  using tim_handler_due [OF wrap_clock, of
      "\<lparr>trace = [], irq_disabled = 0, dmaHandler = [], timer_cb = Some 3, int2 = 0, last_delay = 0,
       last_delay_now = 0\<rparr>" 3 0 "2 ^ 32 + 40" "2 ^ 32 + 2" "\<lambda>f s. Inr (emit (Call_cb f) s)"]
  by (auto simp: irq_rel_def wrap_plat_def wrap_clk_def)

lemma ucast_of_nat_u64: "(ucast (of_nat t :: u64) :: u32) = of_nat t"
  by (rule bit_word_eqI) (auto simp: bit_simps)

text \<open>The delay the alarm is armed with.\<close>

definition timer_delta :: "plat \<Rightarrow> call list \<Rightarrow> int \<Rightarrow> int" where
  "timer_delta E tr delta =
     (if max 10 delta = JD_MIN_MAX_SLEEP E then resp E tr Get_jd_max_sleep else max 10 delta)"

text \<open>
  C15. \<open>tim_set_timer\<close> returns on the documented timer with the callback
  registered and the interrupt mask as before; the alarm it arms is the clock
  at an instant between the call and the return plus the requested delay, which
  is at least 10 microseconds (or the runtime's maximal sleep, when that is
  what the delay asks for), and the stale interrupt is cleared after the alarm
  is armed.
\<close>

theorem tim_set_timer_arms:
  assumes "clock E clk" "irq_rel d s" "d < 127"
  shows "\<exists>t s'. tim_set_timer E delta cb s = Inr s' \<and> timer_cb s' = cb \<and> irq_rel d s' \<and>
    clk (trace s) \<le> t \<and> t \<le> clk (trace s') \<and>
    filter (\<lambda>c. \<not> (\<exists>r. c = Rd r) \<and> c \<noteq> Get_jd_max_sleep) (since s s') =
      [Cpu Cpsid,
       Wr (TIMER_ALARM 0) (of_nat t + word_of_int (timer_delta E (trace s) delta)),
       Wr TIMER_INTR 1,
       Irq (Irq_clear (TIMER_IRQ_0 E))] @ (if d = 0 then [Cpu Cpsie] else [])"
proof -
  define as where "as = (if max 10 delta = JD_MIN_MAX_SLEEP E then [Get_jd_max_sleep] else [])"
  define s1 where "s1 = (target_disable_irq (s\<lparr>trace := trace s @ as\<rparr>))\<lparr>timer_cb := cb\<rparr>"
  have "irq_rel d (s\<lparr>trace := trace s @ as\<rparr>)"
    using assms(2) by (simp add: irq_rel_def as_def)
  from irq_cs.enter_depth [OF this assms(3)] have s1: "irq_rel (d + 1) s1"
    by (simp add: s1_def irq_rel_def)
  have tr1: "trace s1 = trace s @ as @ [Cpu Cpsid]"
    by (simp add: s1_def target_disable_irq_def)
  obtain t cs where t: "tim_get_micros E s1 = Some (of_nat t, s1\<lparr>trace := trace s1 @ cs\<rparr>)"
      "set cs \<subseteq> {Rd TIMER_TIMERAWL, Rd TIMER_TIMERAWH}" "clk (trace s1) \<le> t" "t \<le> clk (trace s1 @ cs)"
    using tim_get_micros_returns [OF assms(1), of s1] by blast
  define s2 where "s2 = s1\<lparr>trace := trace s1 @ cs @
    [Wr (TIMER_ALARM 0) (of_nat t + word_of_int (timer_delta E (trace s) delta)), Wr TIMER_INTR 1,
     Irq (Irq_clear (TIMER_IRQ_0 E))]\<rparr>"
  have eq: "tim_set_timer E delta cb s = Inr (target_enable_irq s2)"
    using t(1)
    by (auto simp: tim_set_timer_def s2_def s1_def as_def timer_delta_def max_def ucast_of_nat_u64
        ALARM_NUM_def harware_alarm_irq_number_def split: if_splits)
  have prim: "fold primask_step cs b = b" for b
    using t(2) by (induction cs) auto
  have rel: "irq_rel (d + 1) s2"
    using s1 by (simp add: s2_def irq_rel_def prim)
  have enable: "trace (target_enable_irq s2) = trace s2 @ (if d = 0 then [Cpu Cpsie] else [])"
    using rel by (simp add: target_enable_irq_def irq_rel_def sint_of_nat_u8)
  have "filter (\<lambda>c. \<not> (\<exists>r. c = Rd r) \<and> c \<noteq> Get_jd_max_sleep) cs = []"
    using t(2) by (auto simp: filter_empty_conv)
  moreover have "clk (trace s) \<le> clk (trace s1)" "clk (trace s1 @ cs) \<le> clk (trace (target_enable_irq s2))"
    using clock_append_mono [OF assms(1), of "trace s"] clock_append_mono [OF assms(1), of "trace s1 @ cs"] tr1 enable
    by (simp_all add: s2_def)
  moreover have "timer_cb (target_enable_irq s2) = cb"
    by (simp add: s2_def s1_def target_enable_irq_def)
  ultimately show ?thesis
    using eq t(3,4) irq_cs.leave_depth [OF rel] enable tr1
    by (intro exI [of _ t] exI [of _ "target_enable_irq s2"]) (auto simp: since_def s2_def as_def)
qed

theorem tim_set_timer_arms_witness:
  "\<exists>t s'. tim_set_timer wrap_plat 1 (Some 3)
      \<lparr>trace = [], irq_disabled = 0, dmaHandler = [], timer_cb = None, int2 = 0, last_delay = 0,
       last_delay_now = 0\<rparr> = Inr s' \<and> timer_cb s' = Some 3 \<and>
     Wr (TIMER_ALARM 0) (of_nat t + 10) \<in> set (trace s')"
proof -
  let ?s = "\<lparr>trace = [], irq_disabled = 0, dmaHandler = [], timer_cb = None, int2 = 0, last_delay = 0,
       last_delay_now = 0\<rparr>"
  have "irq_rel 0 ?s" by (simp add: irq_rel_def)
  from tim_set_timer_arms [OF wrap_clock this, of 1 "Some 3"] obtain t s' where
    t: "tim_set_timer wrap_plat 1 (Some 3) ?s = Inr s'" "timer_cb s' = Some 3"
    and calls: "filter (\<lambda>c. \<not> (\<exists>r. c = Rd r) \<and> c \<noteq> Get_jd_max_sleep) (trace s') =
      [Cpu Cpsid, Wr (TIMER_ALARM 0) (of_nat t + word_of_int (timer_delta wrap_plat [] 1)),
       Wr TIMER_INTR 1, Irq (Irq_clear (TIMER_IRQ_0 wrap_plat)), Cpu Cpsie]"
    by (auto simp: since_def)
  have "timer_delta wrap_plat [] 1 = 10"
    by (simp add: timer_delta_def wrap_plat_def answering_def sample_plat_def)
  then have "Wr (TIMER_ALARM 0) (of_nat t + 10) \<in>
      set (filter (\<lambda>c. \<not> (\<exists>r. c = Rd r) \<and> c \<noteq> Get_jd_max_sleep) (trace s'))"
    unfolding calls by simp
  with t show ?thesis by auto
qed

end
