(* ===== verification/Pins.thy ===== *)
theory Pins
  imports Timer
begin

text \<open>
  \<open>pins.c\<close>: pin modes, PWM outputs and the table of pin-change (EXTI) callbacks.
  Pins are C \<open>int\<close>s; a pin whose low byte is \<open>NO_PIN\<close> is absent and every pin
  function ignores it. The EXTI table has one entry per GPIO and is indexed
  without a check, so an index past its end is the fault \<open>Out_of_bounds\<close>. The
  parameter-validation macros of the SDK (\<open>invalid_params_if\<close>) expand to nothing
  in this build and have no counterpart here.
\<close>

section \<open>State\<close>

record pins = tim +
  exti_cb :: "nat option list"
  exti_ev :: "u8 list"

definition no_pin :: "plat \<Rightarrow> int \<Rightarrow> bool" where
  "no_pin E pin \<longleftrightarrow> uint (word_of_int pin :: u8) = NO_PIN E"

section \<open>Register helpers\<close>

definition gpio_acknowledge_irq' :: "u32 \<Rightarrow> u32 \<Rightarrow> 'a mach_scheme \<Rightarrow> 'a mach_scheme" where
  "gpio_acknowledge_irq' gpio events s =
     wr (IO_INTR (unat gpio div 8)) (push_bit (4 * (unat gpio mod 8)) events) s"

definition gpio_set_irq_enabled_base :: "u32 \<Rightarrow> u32 \<Rightarrow> bool \<Rightarrow> 'a mach_scheme \<Rightarrow> 'a mach_scheme" where
  "gpio_set_irq_enabled_base gpio events enabled s =
     (let s = gpio_acknowledge_irq' gpio events s;
          en_reg = IO_PROC0_INTE (unat gpio div 8);
          events = push_bit (4 * (unat gpio mod 8)) events
      in if enabled then emit (Hw_set_bits en_reg events) s
         else emit (Hw_clear_bits en_reg events) s)"

definition gpio_set_input_enabled' :: "plat \<Rightarrow> u32 \<Rightarrow> bool \<Rightarrow> 'a mach_scheme \<Rightarrow> 'a mach_scheme" where
  "gpio_set_input_enabled' E gpio enabled s =
     (if enabled then emit (Hw_set_bits (PADS_IO (unat gpio)) (PADS_IE_BITS E)) s
      else emit (Hw_clear_bits (PADS_IO (unat gpio)) (PADS_IE_BITS E)) s)"

definition gpio_set_irq_enabled' :: "u32 \<Rightarrow> u32 \<Rightarrow> bool \<Rightarrow> 'a mach_scheme \<Rightarrow> 'a mach_scheme" where
  "gpio_set_irq_enabled' gpio events enabled s = gpio_set_irq_enabled_base gpio events enabled s"

definition gpio_set_function' :: "plat \<Rightarrow> u32 \<Rightarrow> gpio_function \<Rightarrow> 'a mach_scheme \<Rightarrow> 'a mach_scheme" where
  "gpio_set_function' E gpio fn s =
     (let s = emit (Hw_write_masked (PADS_IO (unat gpio)) (PADS_IE_BITS E)
                      (PADS_IE_BITS E OR PADS_OD_BITS E)) s
      in wr (IO_CTRL (unat gpio)) (push_bit (CTRL_FUNCSEL_LSB E) (func_code E fn)) s)"

definition gpio_init' :: "plat \<Rightarrow> u32 \<Rightarrow> 'a mach_scheme \<Rightarrow> 'a mach_scheme" where
  "gpio_init' E gpio s =
     (let s = wr SIO_GPIO_OE_CLR (bit32 (unat gpio)) s;
          s = wr SIO_GPIO_CLR (bit32 (unat gpio)) s
      in gpio_set_function' E gpio GPIO_FUNC_SIO s)"

definition gpio_set_pulls' :: "plat \<Rightarrow> u32 \<Rightarrow> bool \<Rightarrow> bool \<Rightarrow> 'a mach_scheme \<Rightarrow> 'a mach_scheme" where
  "gpio_set_pulls' E gpio up down s =
     emit (Hw_write_masked (PADS_IO (unat gpio))
       (push_bit (PADS_PUE_LSB E) (of_bool up) OR push_bit (PADS_PDE_LSB E) (of_bool down))
       (PADS_PUE_BITS E OR PADS_PDE_BITS E)) s"

section \<open>PWM\<close>

definition jd_pwm_init :: "plat \<Rightarrow> u8 \<Rightarrow> u32 \<Rightarrow> u32 \<Rightarrow> u8 \<Rightarrow> 'a mach_scheme \<Rightarrow> u8 \<times> 'a mach_scheme" where
  "jd_pwm_init E pin period duty prescaler s =
     (let c = [Pwm_clkdiv_int prescaler];
          c = c @ [Pwm_wrap (period - 1)];
          (slice_num, s) = ask E (Pwm (Pwm_gpio_to_slice_num (ucast pin))) s;
          s = emit (Pwm (Pwm_init slice_num c True)) s;
          s = emit (Pwm (Pwm_set_gpio_level (ucast pin) duty)) s;
          s = gpio_set_function' E (ucast pin) GPIO_FUNC_PWM s
      in (pin, s))"

definition jd_pwm_set_duty :: "u8 \<Rightarrow> u32 \<Rightarrow> 'a mach_scheme \<Rightarrow> 'a mach_scheme" where
  "jd_pwm_set_duty pwm_id duty s = emit (Pwm (Pwm_set_gpio_level (ucast pwm_id) duty)) s"

definition jd_pwm_enable :: "plat \<Rightarrow> u8 \<Rightarrow> bool \<Rightarrow> 'a mach_scheme \<Rightarrow> 'a mach_scheme" where
  "jd_pwm_enable E pwm_id enabled s =
     (if enabled then gpio_set_function' E (ucast pwm_id) GPIO_FUNC_PWM s
      else gpio_init' E (ucast pwm_id) s)"

section \<open>Pin modes\<close>

definition pin_set :: "plat \<Rightarrow> int \<Rightarrow> int \<Rightarrow> 'a mach_scheme \<Rightarrow> 'a mach_scheme" where
  "pin_set E pin v s =
     (if \<not> no_pin E pin then emit (Gpio (Gpio_put (word_of_int pin) (truth v))) s else s)"

definition pin_setup_output :: "plat \<Rightarrow> int \<Rightarrow> 'a mach_scheme \<Rightarrow> 'a mach_scheme" where
  "pin_setup_output E pin s =
     (if \<not> no_pin E pin
      then (let s = emit (Gpio (Gpio_set_dir (word_of_int pin) True)) s
            in gpio_set_function' E (word_of_int pin) GPIO_FUNC_SIO s)
      else s)"

partial_function (option) pulse_loop :: "int \<Rightarrow> int \<Rightarrow> 'a mach_scheme \<Rightarrow> 'a mach_scheme option" where
  "pulse_loop pin num s =
     (if num = 0 then Some s
      else let s = emit (Gpio (Gpio_put (word_of_int pin) True)) s;
               s = emit (Gpio (Gpio_put (word_of_int pin) False)) s
           in pulse_loop pin (num - 1) s)"

definition pin_pulse :: "plat \<Rightarrow> int \<Rightarrow> int \<Rightarrow> 'a mach_scheme \<Rightarrow> 'a mach_scheme res" where
  "pin_pulse E pin num s =
     (if no_pin E pin then Inr s
      else of_loop (pulse_loop pin num (pin_setup_output E pin s)))"

definition pin_get :: "plat \<Rightarrow> int \<Rightarrow> 'a mach_scheme \<Rightarrow> int \<times> 'a mach_scheme" where
  "pin_get E pin s =
     (if no_pin E pin then (-1, s) else ask E (Gpio (Gpio_get (word_of_int pin))) s)"

definition pin_set_pull :: "plat \<Rightarrow> int \<Rightarrow> int \<Rightarrow> 'a mach_scheme \<Rightarrow> 'a mach_scheme" where
  "pin_set_pull E pin pull s =
     (if no_pin E pin then s else gpio_set_pulls' E (word_of_int pin) (0 < pull) (pull < 0) s)"

definition pin_setup_input :: "plat \<Rightarrow> int \<Rightarrow> int \<Rightarrow> 'a mach_scheme \<Rightarrow> 'a mach_scheme" where
  "pin_setup_input E pin pull s =
     (if no_pin E pin then s
      else let s = pin_set_pull E pin pull s;
               s = emit (Gpio (Gpio_set_dir (word_of_int pin) False)) s
           in gpio_set_function' E (word_of_int pin) GPIO_FUNC_SIO s)"

definition pin_setup_analog_input :: "plat \<Rightarrow> int \<Rightarrow> 'a mach_scheme \<Rightarrow> 'a mach_scheme" where
  "pin_setup_analog_input E pin s =
     (if no_pin E pin then s
      else let s = pin_set_pull E pin (PIN_PULL_NONE E) s;
               s = gpio_set_function' E (word_of_int pin) GPIO_FUNC_NULL s;
               s = emit (Gpio (Gpio_set_dir (word_of_int pin) False)) s
           in gpio_set_input_enabled' E (word_of_int pin) False s)"

definition pin_setup_output_af :: "plat \<Rightarrow> int \<Rightarrow> gpio_function \<Rightarrow> 'a mach_scheme \<Rightarrow> 'a mach_scheme" where
  "pin_setup_output_af E pin af s =
     (if no_pin E pin then s else gpio_set_function' E (word_of_int pin) af s)"

section \<open>Pin-change callbacks\<close>

text \<open>The flags of \<open>jdpico.h\<close>.\<close>

definition EXTI_FALLING :: u32 where
  "EXTI_FALLING = 0x01"

definition EXTI_RISING :: u32 where
  "EXTI_RISING = 0x02"

definition isr_io_gpio ::
  "plat \<Rightarrow> (nat \<Rightarrow> 'a pins_scheme \<Rightarrow> 'a pins_scheme res) \<Rightarrow> nat \<Rightarrow> 'a pins_scheme \<Rightarrow> 'a pins_scheme res" where
  "isr_io_gpio E run gpio s =
     (let (status, s) = rd E (IO_PROC0_INTS (gpio div 8)) s;
          events = drop_bit (4 * (gpio mod 8)) status AND 0xf
      in if events \<noteq> 0
         then (let s = emit (Gpio (Gpio_acknowledge_irq (of_nat gpio) events)) s
               in case exti_cb s ! gpio of None \<Rightarrow> Inr s | Some f \<Rightarrow> run f s)
         else Inr s)"

fun isr_io_loop ::
  "plat \<Rightarrow> (nat \<Rightarrow> 'a pins_scheme \<Rightarrow> 'a pins_scheme res) \<Rightarrow> nat list \<Rightarrow> 'a pins_scheme \<Rightarrow> 'a pins_scheme res" where
  "isr_io_loop E run [] s = Inr s"
| "isr_io_loop E run (gpio # gs) s = bindE (isr_io_gpio E run gpio s) (isr_io_loop E run gs)"

definition isr_io_bank0 ::
  "plat \<Rightarrow> (nat \<Rightarrow> 'a pins_scheme \<Rightarrow> 'a pins_scheme res) \<Rightarrow> 'a pins_scheme \<Rightarrow> 'a pins_scheme res" where
  "isr_io_bank0 E run s = isr_io_loop E run [0..<NUM_BANK0_GPIOS E] s"

text \<open>The power-management hooks of the runtime do nothing on this device.\<close>

definition pwr_enter_no_sleep :: "'a mach_scheme \<Rightarrow> 'a mach_scheme" where
  "pwr_enter_no_sleep s = s"

definition pwr_enter_tim :: "'a mach_scheme \<Rightarrow> 'a mach_scheme" where
  "pwr_enter_tim s = s"

definition pwr_leave_tim :: "'a mach_scheme \<Rightarrow> 'a mach_scheme" where
  "pwr_leave_tim s = s"

definition pwr_enter_pll :: "'a mach_scheme \<Rightarrow> 'a mach_scheme" where
  "pwr_enter_pll s = s"

definition pwr_leave_pll :: "'a mach_scheme \<Rightarrow> 'a mach_scheme" where
  "pwr_leave_pll s = s"

definition power_pin_enable :: "int \<Rightarrow> 'a mach_scheme \<Rightarrow> 'a mach_scheme" where
  "power_pin_enable en s = s"

definition exti_set_callback ::
  "plat \<Rightarrow> u8 \<Rightarrow> nat option \<Rightarrow> u32 \<Rightarrow> 'a pins_scheme \<Rightarrow> 'a pins_scheme res" where
  "exti_set_callback E pin callback flags s =
     (if length (exti_cb s) \<le> unat pin then Inl Out_of_bounds
      else let s = s\<lparr>exti_cb := (exti_cb s)[unat pin := callback]\<rparr>;
               events = 0 :: u8;
               events = (if flags AND EXTI_FALLING \<noteq> 0 then events OR ucast (GPIO_IRQ_EDGE_FALL E) else events);
               events = (if flags AND EXTI_RISING \<noteq> 0 then events OR ucast (GPIO_IRQ_EDGE_RISE E) else events);
               s = s\<lparr>exti_ev := (exti_ev s)[unat pin := events]\<rparr>;
               s = gpio_set_irq_enabled' (ucast pin) (ucast events) True s;
               s = ram_irq_set_enabled (of_nat (IO_IRQ_BANK0 E)) True s
           in Inr (ram_irq_set_priority E (of_nat (IO_IRQ_BANK0 E)) IRQ_PRIORITY_EXTI s))"

definition exti_disable :: "u8 \<Rightarrow> 'a pins_scheme \<Rightarrow> 'a pins_scheme res" where
  "exti_disable pin s =
     (if length (exti_ev s) \<le> unat pin then Inl Out_of_bounds
      else Inr (emit (Gpio (Gpio_set_irq_enabled (ucast pin) (ucast (exti_ev s ! unat pin)) False)) s))"

definition exti_enable :: "u8 \<Rightarrow> 'a pins_scheme \<Rightarrow> 'a pins_scheme res" where
  "exti_enable pin s =
     (if length (exti_ev s) \<le> unat pin then Inl Out_of_bounds
      else Inr (emit (Gpio (Gpio_set_irq_enabled (ucast pin) (ucast (exti_ev s ! unat pin)) True)) s))"

text \<open>The tables have the size the sources declare.\<close>

definition pins_inv :: "plat \<Rightarrow> 'a pins_scheme \<Rightarrow> bool" where
  "pins_inv E s \<longleftrightarrow> length (exti_cb s) = NUM_BANK0_GPIOS E \<and> length (exti_ev s) = NUM_BANK0_GPIOS E"

section \<open>The GPIO block\<close>

text \<open>
  The documented effect of the calls \<open>pins.c\<close> makes, on the registers of the
  GPIO block: \<open>hw_set_bits\<close>, \<open>hw_clear_bits\<close> and \<open>hw_write_masked\<close> change the
  masked bits only, \<open>gpio_set_dir\<close> and \<open>gpio_put\<close> the direction and level of one
  pin, and writing a one to \<open>INTR\<close> clears a latched event.
\<close>

record gpio_dev =
  pad :: "nat \<Rightarrow> u32"
  ctrl :: "nat \<Rightarrow> u32"
  oe :: "nat \<Rightarrow> bool"
  lvl :: "nat \<Rightarrow> bool"
  inte :: "nat \<Rightarrow> u32"

definition gpio_laws :: "(call \<Rightarrow> gpio_dev \<Rightarrow> gpio_dev) \<Rightarrow> bool" where
  "gpio_laws g \<longleftrightarrow>
     (\<forall>d n v m. g (Hw_write_masked (PADS_IO n) v m) d =
        d\<lparr>pad := (pad d)(n := (pad d n AND NOT m) OR (v AND m))\<rparr>) \<and>
     (\<forall>d n m. g (Hw_set_bits (PADS_IO n) m) d = d\<lparr>pad := (pad d)(n := pad d n OR m)\<rparr>) \<and>
     (\<forall>d n m. g (Hw_clear_bits (PADS_IO n) m) d = d\<lparr>pad := (pad d)(n := pad d n AND NOT m)\<rparr>) \<and>
     (\<forall>d n m. g (Hw_set_bits (IO_PROC0_INTE n) m) d = d\<lparr>inte := (inte d)(n := inte d n OR m)\<rparr>) \<and>
     (\<forall>d n m. g (Hw_clear_bits (IO_PROC0_INTE n) m) d = d\<lparr>inte := (inte d)(n := inte d n AND NOT m)\<rparr>) \<and>
     (\<forall>d n v. g (Wr (IO_INTR n) v) d = d) \<and>
     (\<forall>d n v. g (Wr (IO_CTRL n) v) d = d\<lparr>ctrl := (ctrl d)(n := v)\<rparr>) \<and>
     (\<forall>d p b. g (Gpio (Gpio_set_dir p b)) d = d\<lparr>oe := (oe d)(unat p := b)\<rparr>) \<and>
     (\<forall>d p b. g (Gpio (Gpio_put p b)) d = d\<lparr>lvl := (lvl d)(unat p := b)\<rparr>)"

text \<open>The four fields of a pad register the sources set are different bits.\<close>

definition pads_ok :: "plat \<Rightarrow> bool" where
  "pads_ok E \<longleftrightarrow> PADS_PUE_BITS E = bit32 (PADS_PUE_LSB E) \<and> PADS_PDE_BITS E = bit32 (PADS_PDE_LSB E) \<and>
     PADS_PUE_BITS E AND PADS_PDE_BITS E = 0 \<and>
     (PADS_PUE_BITS E OR PADS_PDE_BITS E) AND (PADS_IE_BITS E OR PADS_OD_BITS E) = 0 \<and>
     PADS_IE_BITS E AND PADS_OD_BITS E = 0"

text \<open>Reference: a pin given pulls, an input buffer, a function and a direction, all at once.\<close>

definition pad_cfg :: "plat \<Rightarrow> bool \<Rightarrow> bool \<Rightarrow> bool \<Rightarrow> u32 \<Rightarrow> u32" where
  "pad_cfg E up down ie v =
     (v AND NOT (PADS_PUE_BITS E OR PADS_PDE_BITS E OR PADS_IE_BITS E OR PADS_OD_BITS E))
       OR (if up then PADS_PUE_BITS E else 0) OR (if down then PADS_PDE_BITS E else 0)
       OR (if ie then PADS_IE_BITS E else 0)"

definition pin_cfg :: "plat \<Rightarrow> nat \<Rightarrow> bool \<Rightarrow> bool \<Rightarrow> bool \<Rightarrow> gpio_function \<Rightarrow> bool \<Rightarrow> gpio_dev \<Rightarrow> gpio_dev" where
  "pin_cfg E n up down ie f out d =
     d\<lparr>pad := (pad d)(n := pad_cfg E up down ie (pad d n)),
       ctrl := (ctrl d)(n := push_bit (CTRL_FUNCSEL_LSB E) (func_code E f)),
       oe := (oe d)(n := out)\<rparr>"

text \<open>Reference: a pin given a function, with its pulls kept and its input buffer on.\<close>

definition pad_func :: "plat \<Rightarrow> u32 \<Rightarrow> u32" where
  "pad_func E v = (v AND NOT (PADS_OD_BITS E)) OR PADS_IE_BITS E"

definition func_cfg :: "plat \<Rightarrow> nat \<Rightarrow> gpio_function \<Rightarrow> gpio_dev \<Rightarrow> gpio_dev" where
  "func_cfg E n f d =
     d\<lparr>pad := (pad d)(n := pad_func E (pad d n)),
       ctrl := (ctrl d)(n := push_bit (CTRL_FUNCSEL_LSB E) (func_code E f))\<rparr>"

definition pull_cfg :: "plat \<Rightarrow> nat \<Rightarrow> bool \<Rightarrow> bool \<Rightarrow> gpio_dev \<Rightarrow> gpio_dev" where
  "pull_cfg E n up down d =
     d\<lparr>pad := (pad d)(n := (pad d n AND NOT (PADS_PUE_BITS E OR PADS_PDE_BITS E))
       OR (if up then PADS_PUE_BITS E else 0) OR (if down then PADS_PDE_BITS E else 0))\<rparr>"

lemmas pin_defs = pin_set_def pin_setup_output_def pin_get_def pin_set_pull_def pin_setup_input_def
  pin_setup_analog_input_def pin_setup_output_af_def gpio_set_function'_def gpio_set_pulls'_def
  gpio_set_input_enabled'_def gpio_init'_def

lemma and_eq_0_bitD: "a AND b = 0 \<Longrightarrow> bit a n \<Longrightarrow> \<not> bit b n" for a b :: u32
  by (metis bit_0_eq bit_and_iff bot_apply bot_bool_def)

lemma pads_ok_dests:
  assumes "pads_ok E"
  shows "bit (PADS_PUE_BITS E) n \<Longrightarrow> \<not> bit (PADS_PDE_BITS E) n"
    "bit (PADS_IE_BITS E) n \<Longrightarrow> \<not> bit (PADS_OD_BITS E) n"
    "bit (PADS_PUE_BITS E) n \<Longrightarrow> \<not> bit (PADS_IE_BITS E) n \<and> \<not> bit (PADS_OD_BITS E) n"
    "bit (PADS_PDE_BITS E) n \<Longrightarrow> \<not> bit (PADS_IE_BITS E) n \<and> \<not> bit (PADS_OD_BITS E) n"
proof -
  have dis: "PADS_PUE_BITS E AND PADS_PDE_BITS E = 0" "PADS_IE_BITS E AND PADS_OD_BITS E = 0"
    "(PADS_PUE_BITS E OR PADS_PDE_BITS E) AND (PADS_IE_BITS E OR PADS_OD_BITS E) = 0"
    using assms unfolding pads_ok_def by blast+
  show "bit (PADS_PUE_BITS E) n \<Longrightarrow> \<not> bit (PADS_PDE_BITS E) n"
    "bit (PADS_IE_BITS E) n \<Longrightarrow> \<not> bit (PADS_OD_BITS E) n"
    "bit (PADS_PUE_BITS E) n \<Longrightarrow> \<not> bit (PADS_IE_BITS E) n \<and> \<not> bit (PADS_OD_BITS E) n"
    "bit (PADS_PDE_BITS E) n \<Longrightarrow> \<not> bit (PADS_IE_BITS E) n \<and> \<not> bit (PADS_OD_BITS E) n"
    using dis [THEN and_eq_0_bitD, of n] unfolding bit_or_iff by blast+
qed

lemma pad_pulls:
  assumes "pads_ok E"
  shows "(push_bit (PADS_PUE_LSB E) (of_bool up) OR push_bit (PADS_PDE_LSB E) (of_bool down) :: u32) =
    (if up then PADS_PUE_BITS E else 0) OR (if down then PADS_PDE_BITS E else 0)"
  using assms by (simp add: pads_ok_def)

lemma pad_cfg_two_writes:
  assumes "pads_ok E"
  shows "((v AND NOT (PADS_PUE_BITS E OR PADS_PDE_BITS E)) OR
      (((if up then PADS_PUE_BITS E else 0) OR (if down then PADS_PDE_BITS E else 0))
        AND (PADS_PUE_BITS E OR PADS_PDE_BITS E))) AND NOT (PADS_IE_BITS E OR PADS_OD_BITS E)
      OR (PADS_IE_BITS E AND (PADS_IE_BITS E OR PADS_OD_BITS E)) = pad_cfg E up down True v"
  by (rule bit_word_eqI)
    (use pads_ok_dests [OF assms] in \<open>auto simp: pad_cfg_def bit_simps split: if_splits\<close>)

lemma pad_cfg_input_off:
  assumes "pads_ok E"
  shows "pad_cfg E up down True v AND NOT (PADS_IE_BITS E) = pad_cfg E up down False v"
  by (rule bit_word_eqI)
    (use pads_ok_dests [OF assms] in \<open>auto simp: pad_cfg_def bit_simps split: if_splits\<close>)

lemma gpio_law_simps:
  assumes "gpio_laws g"
  shows "g (Hw_write_masked (PADS_IO n) v m) d = d\<lparr>pad := (pad d)(n := (pad d n AND NOT m) OR (v AND m))\<rparr>"
    "g (Hw_clear_bits (PADS_IO n) m) d = d\<lparr>pad := (pad d)(n := pad d n AND NOT m)\<rparr>"
    "g (Hw_set_bits (IO_PROC0_INTE n) m) d = d\<lparr>inte := (inte d)(n := inte d n OR m)\<rparr>"
    "g (Hw_clear_bits (IO_PROC0_INTE n) m) d = d\<lparr>inte := (inte d)(n := inte d n AND NOT m)\<rparr>"
    "g (Wr (IO_INTR n) v) d = d"
    "g (Wr (IO_CTRL n) v) d = d\<lparr>ctrl := (ctrl d)(n := v)\<rparr>"
    "g (Gpio (Gpio_set_dir p b)) d = d\<lparr>oe := (oe d)(unat p := b)\<rparr>"
    "g (Gpio (Gpio_put p b)) d = d\<lparr>lvl := (lvl d)(unat p := b)\<rparr>"
  using assms by (simp_all add: gpio_laws_def)

text \<open>The calls of the two input modes.\<close>

definition set_pulls_call :: "plat \<Rightarrow> nat \<Rightarrow> bool \<Rightarrow> bool \<Rightarrow> call" where
  "set_pulls_call E n up down = Hw_write_masked (PADS_IO n)
     ((if up then PADS_PUE_BITS E else 0) OR (if down then PADS_PDE_BITS E else 0))
     (PADS_PUE_BITS E OR PADS_PDE_BITS E)"

definition set_function_calls :: "plat \<Rightarrow> nat \<Rightarrow> gpio_function \<Rightarrow> call list" where
  "set_function_calls E n f =
     [Hw_write_masked (PADS_IO n) (PADS_IE_BITS E) (PADS_IE_BITS E OR PADS_OD_BITS E),
      Wr (IO_CTRL n) (push_bit (CTRL_FUNCSEL_LSB E) (func_code E f))]"

lemma pin_setup_input_calls:
  assumes "pads_ok E" "\<not> no_pin E pin"
  shows "since s (pin_setup_input E pin pull s) =
    set_pulls_call E (unat (word_of_int pin :: u32)) (0 < pull) (pull < 0) #
    Gpio (Gpio_set_dir (word_of_int pin) False) #
    set_function_calls E (unat (word_of_int pin :: u32)) GPIO_FUNC_SIO"
  using assms(2)
  by (simp add: pin_defs since_def set_pulls_call_def set_function_calls_def pad_pulls [OF assms(1)])

lemma pin_setup_analog_input_calls:
  assumes "pads_ok E" "\<not> no_pin E pin" "PIN_PULL_NONE E = 0"
  shows "since s (pin_setup_analog_input E pin s) =
    set_pulls_call E (unat (word_of_int pin :: u32)) False False #
    set_function_calls E (unat (word_of_int pin :: u32)) GPIO_FUNC_NULL @
    [Gpio (Gpio_set_dir (word_of_int pin) False),
     Hw_clear_bits (PADS_IO (unat (word_of_int pin :: u32))) (PADS_IE_BITS E)]"
  using assms(2,3)
  by (simp add: pin_defs since_def set_pulls_call_def set_function_calls_def pad_pulls [OF assms(1)])

lemma pulls_then_function:
  assumes "gpio_laws g" "pads_ok E"
  shows "fold g (set_function_calls E n f) (g (set_pulls_call E n up down) d) =
    d\<lparr>pad := (pad d)(n := pad_cfg E up down True (pad d n)),
      ctrl := (ctrl d)(n := push_bit (CTRL_FUNCSEL_LSB E) (func_code E f))\<rparr>"
  unfolding pad_cfg_two_writes [OF assms(2), symmetric]
  by (simp add: set_function_calls_def set_pulls_call_def gpio_law_simps [OF assms(1)])

lemma set_function_cfg:
  assumes "gpio_laws g" "pads_ok E"
  shows "fold g (set_function_calls E n f) d = func_cfg E n f d"
proof -
  have "v AND NOT (PADS_IE_BITS E OR PADS_OD_BITS E) OR (PADS_IE_BITS E AND (PADS_IE_BITS E OR PADS_OD_BITS E)) = pad_func E v" for v
    by (rule bit_word_eqI) (use pads_ok_dests(2) [OF assms(2)] in \<open>auto simp: pad_func_def bit_simps\<close>)
  then show ?thesis by (simp add: set_function_calls_def func_cfg_def gpio_law_simps [OF assms(1)])
qed

lemma set_pulls_cfg:
  assumes "gpio_laws g"
  shows "g (set_pulls_call E n up down) d = pull_cfg E n up down d"
proof -
  let ?b = "(if up then PADS_PUE_BITS E else 0) OR (if down then PADS_PDE_BITS E else 0)"
  have "(v AND NOT m) OR (?b AND (PADS_PUE_BITS E OR PADS_PDE_BITS E)) =
      (v AND NOT m) OR (if up then PADS_PUE_BITS E else 0) OR (if down then PADS_PDE_BITS E else 0)" for v m :: u32
    by (rule bit_word_eqI) (auto simp: bit_simps)
  then show ?thesis by (simp add: set_pulls_call_def pull_cfg_def gpio_law_simps [OF assms])
qed

lemma output_calls:
  assumes "\<not> no_pin E pin"
  shows "since s (pin_setup_output E pin s) =
      Gpio (Gpio_set_dir (word_of_int pin) True) # set_function_calls E (unat (word_of_int pin :: u32)) GPIO_FUNC_SIO"
    "since s (pin_setup_output_af E pin af s) = set_function_calls E (unat (word_of_int pin :: u32)) af"
  using assms by (simp_all add: pin_defs since_def set_function_calls_def)

lemma pull_calls:
  assumes "pads_ok E" "\<not> no_pin E pin"
  shows "since s (pin_set_pull E pin pull s) = [set_pulls_call E (unat (word_of_int pin :: u32)) (0 < pull) (pull < 0)]"
  using assms(2) by (simp add: pin_defs since_def set_pulls_call_def pad_pulls [OF assms(1)])

text \<open>
  C24. The pin-mode functions on the documented GPIO block, whatever the pin's
  previous configuration: \<open>pin_setup_input\<close> leaves the pin an SIO input with its
  input buffer on, its output driver not disabled and exactly the requested pull;
  \<open>pin_setup_analog_input\<close> leaves it with function NULL, no pull, no input buffer
  and no output; \<open>pin_setup_output\<close> makes it an SIO output and \<open>pin_setup_output_af\<close>
  gives it the requested function, both with the input buffer on, the output
  driver not disabled and the pulls kept; \<open>pin_set_pull\<close> changes exactly the pulls.
  Levels, other pins and the other bits of the pad are untouched. On an absent
  pin none of them does anything.
\<close>

theorem pin_setup_modes:
  fixes pin :: int and s :: "'a mach_scheme"
  assumes "gpio_laws g" "pads_ok E" "PIN_PULL_NONE E = 0"
  defines "n \<equiv> unat (word_of_int pin :: u32)"
  shows "if no_pin E pin
     then pin_setup_input E pin pull s = s \<and> pin_setup_analog_input E pin s = s \<and> pin_setup_output E pin s = s \<and>
          pin_setup_output_af E pin af s = s \<and> pin_set_pull E pin pull s = s
     else fold g (since s (pin_setup_input E pin pull s)) d =
            pin_cfg E n (0 < pull) (pull < 0) True GPIO_FUNC_SIO False d \<and>
          fold g (since s (pin_setup_analog_input E pin s)) d =
            pin_cfg E n False False False GPIO_FUNC_NULL False d \<and>
          fold g (since s (pin_setup_output E pin s)) d = func_cfg E n GPIO_FUNC_SIO d\<lparr>oe := (oe d)(n := True)\<rparr> \<and>
          fold g (since s (pin_setup_output_af E pin af s)) d = func_cfg E n af d \<and>
          fold g (since s (pin_set_pull E pin pull s)) d = pull_cfg E n (0 < pull) (pull < 0) d"
proof (cases "no_pin E pin")
  case True
  then show ?thesis by (simp add: pin_defs)
next
  case False
  have swap: "fold g (set_function_calls E n f) (g (Gpio (Gpio_set_dir p b)) e) =
      g (Gpio (Gpio_set_dir p b)) (fold g (set_function_calls E n f) e)" for f p b e
    by (simp add: set_function_calls_def gpio_law_simps [OF assms(1)])
  note calls = pin_setup_input_calls [OF assms(2) False] pin_setup_analog_input_calls [OF assms(2) False assms(3)]
  note laws = gpio_law_simps(2,7) [OF assms(1)] pulls_then_function [OF assms(1,2)] pad_cfg_input_off [OF assms(2)]
  have "fold g (since s (pin_setup_input E pin pull s)) d = pin_cfg E n (0 < pull) (pull < 0) True GPIO_FUNC_SIO False d \<and>
      fold g (since s (pin_setup_analog_input E pin s)) d = pin_cfg E n False False False GPIO_FUNC_NULL False d"
    unfolding calls n_def [symmetric] by (simp add: swap) (simp add: laws pin_cfg_def flip: n_def)
  moreover have "fold g (since s (pin_setup_output E pin s)) d = func_cfg E n GPIO_FUNC_SIO d\<lparr>oe := (oe d)(n := True)\<rparr>"
    unfolding output_calls(1) [OF False] n_def [symmetric] fold_simps(2) swap set_function_cfg [OF assms(1,2)]
    by (simp add: gpio_law_simps(7) [OF assms(1)] func_cfg_def flip: n_def)
  moreover have "fold g (since s (pin_setup_output_af E pin af s)) d = func_cfg E n af d"
    unfolding output_calls(2) [OF False] n_def [symmetric] by (rule set_function_cfg [OF assms(1,2)])
  moreover have "fold g (since s (pin_set_pull E pin pull s)) d = pull_cfg E n (0 < pull) (pull < 0) d"
    unfolding pull_calls [OF assms(2) False] n_def [symmetric] by (simp add: set_pulls_cfg [OF assms(1)])
  ultimately show ?thesis using False by simp
qed

definition gpio_ref :: "call \<Rightarrow> gpio_dev \<Rightarrow> gpio_dev" where
  "gpio_ref c d =
     (case c of
        Hw_write_masked r v m \<Rightarrow>
          (case r of PADS_IO n \<Rightarrow> d\<lparr>pad := (pad d)(n := (pad d n AND NOT m) OR (v AND m))\<rparr> | _ \<Rightarrow> d)
      | Hw_set_bits r m \<Rightarrow>
          (case r of PADS_IO n \<Rightarrow> d\<lparr>pad := (pad d)(n := pad d n OR m)\<rparr>
           | IO_PROC0_INTE n \<Rightarrow> d\<lparr>inte := (inte d)(n := inte d n OR m)\<rparr> | _ \<Rightarrow> d)
      | Hw_clear_bits r m \<Rightarrow>
          (case r of PADS_IO n \<Rightarrow> d\<lparr>pad := (pad d)(n := pad d n AND NOT m)\<rparr>
           | IO_PROC0_INTE n \<Rightarrow> d\<lparr>inte := (inte d)(n := inte d n AND NOT m)\<rparr> | _ \<Rightarrow> d)
      | Wr r v \<Rightarrow> (case r of IO_CTRL n \<Rightarrow> d\<lparr>ctrl := (ctrl d)(n := v)\<rparr> | _ \<Rightarrow> d)
      | Gpio f \<Rightarrow>
          (case f of Gpio_set_dir p b \<Rightarrow> d\<lparr>oe := (oe d)(unat p := b)\<rparr>
           | Gpio_put p b \<Rightarrow> d\<lparr>lvl := (lvl d)(unat p := b)\<rparr> | _ \<Rightarrow> d)
      | _ \<Rightarrow> d)"

lemma gpio_laws_ref: "gpio_laws gpio_ref"
  by (simp add: gpio_laws_def gpio_ref_def)

lemma pads_ok_sample: "pads_ok sample_plat"
  by (simp add: pads_ok_def sample_plat_def)

definition gpio_sample :: gpio_dev where
  "gpio_sample = \<lparr>pad = (\<lambda>_. 0xff), ctrl = (\<lambda>_. 0), oe = (\<lambda>_. True), lvl = (\<lambda>_. False), inte = (\<lambda>_. 0)\<rparr>"

theorem pin_setup_modes_witness:
  "fold gpio_ref (trace (pin_setup_input sample_plat 9 1 \<lparr>trace = []\<rparr>)) gpio_sample =
     pin_cfg sample_plat 9 True False True GPIO_FUNC_SIO False gpio_sample"
  using pin_setup_modes [OF gpio_laws_ref pads_ok_sample, of 9 1 "\<lparr>trace = []\<rparr>" GPIO_FUNC_SIO gpio_sample]
  by (simp add: since_def no_pin_def)

section \<open>Event enables\<close>

text \<open>The four event bits of one GPIO in the packed enable registers.\<close>

definition events_of :: "(nat \<Rightarrow> u32) \<Rightarrow> nat \<Rightarrow> u32" where
  "events_of r p = drop_bit (4 * (p mod 8)) (r (p div 8)) AND 0xf"

lemma bit_0xf: "bit (0xf :: int) n \<longleftrightarrow> n < 4"
proof -
  have "(0xf :: int) = mask 4"
    by (simp add: mask_eq_exp_minus_1)
  then show ?thesis
    by (simp only: bit_mask_iff) auto
qed

lemma nibble_bits:
  fixes ev :: u32
  assumes "ev AND 0xf = ev" "bit ev n"
  shows "n < 4"
proof -
  from assms have "bit (ev AND 0xf) n" by simp
  then show ?thesis by (simp add: bit_simps bit_0xf)
qed

lemma nibble_disjoint:
  fixes p q j k :: nat
  assumes "p div 8 = q div 8" "p \<noteq> q" "j < 4" "k < 4"
  shows "4 * (p mod 8) + j \<noteq> 4 * (q mod 8) + k"
proof -
  have "p mod 8 \<noteq> q mod 8"
    using assms(1,2) by (metis mod_div_decomp)
  with assms(3,4) show ?thesis by linarith
qed

text \<open>Setting or clearing the nibble of one GPIO in its word.\<close>

lemma events_of_set:
  assumes "ev AND 0xf = ev"
  shows "events_of (r(p div 8 := r (p div 8) OR push_bit (4 * (p mod 8)) ev)) q =
    (if q = p then events_of r p OR ev else events_of r q)"
proof (rule bit_word_eqI)
  fix k assume "k < LENGTH(32)"
  have "4 * (p mod 8) \<le> 28" by simp
  then show "bit (events_of (r(p div 8 := r (p div 8) OR push_bit (4 * (p mod 8)) ev)) q) k =
      bit (if q = p then events_of r p OR ev else events_of r q) k"
    using nibble_disjoint [of p q "4 * (q mod 8) + k - 4 * (p mod 8)" k]
    by (auto simp: events_of_def bit_simps bit_0xf dest: nibble_bits [OF assms])
qed

lemma events_of_clear:
  assumes "ev AND 0xf = ev"
  shows "events_of (r(p div 8 := r (p div 8) AND NOT (push_bit (4 * (p mod 8)) ev))) q =
    (if q = p then events_of r p AND NOT ev else events_of r q)"
proof (rule bit_word_eqI)
  fix k assume "k < LENGTH(32)"
  have "4 * (p mod 8) \<le> 28" by simp
  then show "bit (events_of (r(p div 8 := r (p div 8) AND NOT (push_bit (4 * (p mod 8)) ev))) q) k =
      bit (if q = p then events_of r p AND NOT ev else events_of r q) k"
    using nibble_disjoint [of p q "4 * (q mod 8) + k - 4 * (p mod 8)" k]
    by (auto simp: events_of_def bit_simps bit_0xf dest: nibble_bits [OF assms])
qed

text \<open>
  Enabling or disabling pin-change events packs four bits per GPIO into
  shared 32-bit registers; the packing is right: on the documented GPIO block,
  \<open>gpio_set_irq_enabled_\<close> changes the enabled events of its own pin by exactly
  the given events and leaves every other pin's events as they were.
\<close>

lemma gpio_set_irq_enabled_isolated:
  assumes "gpio_laws g" "ev AND 0xf = ev"
  shows "events_of (inte (fold g (since s (gpio_set_irq_enabled' gpio ev enabled s)) d)) q =
    (if q = unat gpio
     then if enabled then events_of (inte d) q OR ev else events_of (inte d) q AND NOT ev
     else events_of (inte d) q)"
  by (simp add: events_of_set [OF assms(2)] events_of_clear [OF assms(2)] gpio_set_irq_enabled'_def gpio_set_irq_enabled_base_def gpio_acknowledge_irq'_def
      since_def gpio_law_simps [OF assms(1)])

section \<open>Service of pin changes\<close>

text \<open>
  The GPIO block latches events. \<open>edges tr p\<close> are the enabled events that arrive at
  GPIO \<open>p\<close> right after the history \<open>tr\<close>; \<open>latch edges tr p\<close> are those latched and not
  cleared. The interrupt status registers show the latched events. An event is
  cleared when it is acknowledged, and \<open>gpio_set_irq_enabled\<close> of the SDK clears the
  stale events of its pin.
\<close>

definition clears :: "call \<Rightarrow> nat \<Rightarrow> u32" where
  "clears c p = (case c of
     Gpio g \<Rightarrow> (case g of
         Gpio_acknowledge_irq q ev \<Rightarrow> if unat q = p then ev else 0
       | Gpio_set_irq_enabled q ev en \<Rightarrow> if unat q = p then ev else 0
       | _ \<Rightarrow> 0)
   | _ \<Rightarrow> 0)"

fun latch_rev :: "(call list \<Rightarrow> nat \<Rightarrow> u32) \<Rightarrow> call list \<Rightarrow> nat \<Rightarrow> u32" where
  "latch_rev edges [] p = edges [] p"
| "latch_rev edges (c # cs) p = (latch_rev edges cs p AND NOT (clears c p)) OR edges (rev (c # cs)) p"

definition latch :: "(call list \<Rightarrow> nat \<Rightarrow> u32) \<Rightarrow> call list \<Rightarrow> nat \<Rightarrow> u32" where
  "latch edges tr = latch_rev edges (rev tr)"

definition irq_latch :: "plat \<Rightarrow> (call list \<Rightarrow> nat \<Rightarrow> u32) \<Rightarrow> bool" where
  "irq_latch E edges \<longleftrightarrow> (\<forall>tr p. p < NUM_BANK0_GPIOS E \<longrightarrow>
     events_of (\<lambda>k. word_of_int (resp E tr (Rd (IO_PROC0_INTS k)))) p = latch edges tr p)"

text \<open>
  A callback may do anything but acknowledge events, change the callback table
  and call other callbacks. Its own call is recorded first.
\<close>

definition plain_call :: "call \<Rightarrow> bool" where
  "plain_call c \<longleftrightarrow> (case c of Gpio g \<Rightarrow> (case g of Gpio_acknowledge_irq q ev \<Rightarrow> False | _ \<Rightarrow> True) | Call_cb f \<Rightarrow> False | _ \<Rightarrow> True)"

definition exti_callbacks :: "(nat \<Rightarrow> 'a pins_scheme \<Rightarrow> 'a pins_scheme res) \<Rightarrow> bool" where
  "exti_callbacks run \<longleftrightarrow> (\<forall>f s t. run f s = Inr t \<longrightarrow> exti_cb t = exti_cb s \<and>
     (\<exists>cs. trace t = trace s @ Call_cb f # cs \<and> list_all plain_call cs))"

text \<open>Some call sets the event enables of the pin (and clears its stale events).\<close>

definition reset_events :: "nat \<Rightarrow> call list \<Rightarrow> bool" where
  "reset_events p cs \<longleftrightarrow> (\<exists>q ev en. Gpio (Gpio_set_irq_enabled q ev en) \<in> set cs \<and> unat q = p)"

lemma latch_snoc [simp]: "latch edges (tr @ [c]) p = (latch edges tr p AND NOT (clears c p)) OR edges (tr @ [c]) p"
  by (simp add: latch_def)

lemma latch_lost:
  "bit (latch edges tr p) b \<Longrightarrow> \<not> bit (latch edges (tr @ cs) p) b \<Longrightarrow> \<exists>us c vs. cs = us @ c # vs \<and> bit (clears c p) b"
proof (induction cs rule: rev_induct)
  case (snoc c cs)
  show ?case
  proof (cases "bit (latch edges (tr @ cs) p) b")
    case True
    with snoc.prems(2) have "bit (clears c p) b"
      using latch_snoc [of edges "tr @ cs" c p] bit_imp_le_length [OF True] by (simp add: bit_simps)
    then show ?thesis by blast
  next
    case False
    from snoc.IH [OF snoc.prems(1) this] obtain us d vs where "cs @ [c] = us @ d # vs @ [c]" "bit (clears d p) b" by auto
    then show ?thesis by blast
  qed
qed simp

lemma clears_cases:
  assumes "bit (clears c p) b"
  obtains q ev where "c = Gpio (Gpio_acknowledge_irq q ev)" "unat q = p"
    | q ev en where "c = Gpio (Gpio_set_irq_enabled q ev en)" "unat q = p"
  using assms by (auto simp: clears_def split: call.splits gpio_call.splits if_splits)

text \<open>What servicing one GPIO does at the boundary.\<close>

definition io_block :: "(call list \<Rightarrow> nat \<Rightarrow> u32) \<Rightarrow> nat option list \<Rightarrow> call list \<Rightarrow> nat \<Rightarrow> call list \<Rightarrow> bool" where
  "io_block edges tbl tr p bl \<longleftrightarrow>
     (let ev = latch edges tr p; rd = Rd (IO_PROC0_INTS (p div 8)); ack = Gpio (Gpio_acknowledge_irq (of_nat p) ev)
      in if ev = 0 then bl = [rd]
         else case tbl ! p of None \<Rightarrow> bl = [rd, ack]
              | Some f \<Rightarrow> \<exists>cs. bl = rd # ack # Call_cb f # cs \<and> list_all plain_call cs)"

lemma isr_io_gpio_block:
  assumes "irq_latch E edges" "exti_callbacks run" "p < NUM_BANK0_GPIOS E" "isr_io_gpio E run p s = Inr t"
  shows "exti_cb t = exti_cb s \<and> (\<exists>bl. trace t = trace s @ bl \<and> io_block edges (exti_cb s) (trace s) p bl)"
proof -
  let ?rd = "Rd (IO_PROC0_INTS (p div 8))" and ?ev = "latch edges (trace s) p"
  have ev: "drop_bit (4 * (p mod 8)) (word_of_int (resp E (trace s) ?rd)) AND 0xf = ?ev"
    using assms(1,3) by (simp add: irq_latch_def events_of_def)
  show ?thesis
  proof (cases "?ev = 0")
    case True
    then show ?thesis using assms(4) by (auto simp: isr_io_gpio_def ev io_block_def)
  next
    case False
    let ?u = "s\<lparr>trace := trace s @ [?rd, Gpio (Gpio_acknowledge_irq (of_nat p) ?ev)]\<rparr>"
    have run: "(case exti_cb s ! p of None \<Rightarrow> Inr ?u | Some f \<Rightarrow> run f ?u) = Inr t"
      using assms(4) False by (cases "exti_cb s ! p") (simp_all add: isr_io_gpio_def ev)
    then show ?thesis
      using False assms(2) unfolding exti_callbacks_def
      by (cases "exti_cb s ! p") (fastforce simp: io_block_def)+
  qed
qed

text \<open>Every acknowledgement of a GPIO with a callback is followed by the callback.\<close>

fun answered :: "nat option list \<Rightarrow> call list \<Rightarrow> bool" where
  "answered tbl [] \<longleftrightarrow> True"
| "answered tbl (c # cs) \<longleftrightarrow>
     (\<forall>q ev f. c = Gpio (Gpio_acknowledge_irq q ev) \<longrightarrow> tbl ! unat q = Some f \<longrightarrow> cs \<noteq> [] \<and> hd cs = Call_cb f) \<and>
     answered tbl cs"

lemma answered_append: "answered tbl xs \<Longrightarrow> answered tbl ys \<Longrightarrow> answered tbl (xs @ ys)"
  by (induction xs) auto

lemma answered_suffix: "answered tbl (xs @ ys) \<Longrightarrow> answered tbl ys"
  by (induction xs) auto

lemma answered_plain: "list_all plain_call cs \<Longrightarrow> answered tbl cs"
  by (induction cs) (auto simp: plain_call_def)

text \<open>Every callback is called right after the latched events of its GPIO were read and acknowledged.\<close>

definition acked_calls :: "(call list \<Rightarrow> nat \<Rightarrow> u32) \<Rightarrow> nat option list \<Rightarrow> nat set \<Rightarrow> call list \<Rightarrow> call list \<Rightarrow> bool" where
  "acked_calls edges tbl G tr cs \<longleftrightarrow> (\<forall>xs f ys. cs = xs @ Call_cb f # ys \<longrightarrow>
     (\<exists>p\<in>G. \<exists>zs. tbl ! p = Some f \<and> latch edges (tr @ zs) p \<noteq> 0 \<and>
       xs = zs @ [Rd (IO_PROC0_INTS (p div 8)), Gpio (Gpio_acknowledge_irq (of_nat p) (latch edges (tr @ zs) p))]))"

lemma acked_calls_append:
  assumes "acked_calls edges tbl G tr as" "acked_calls edges tbl G (tr @ as) bs"
  shows "acked_calls edges tbl G tr (as @ bs)"
  unfolding acked_calls_def
proof (intro allI impI)
  fix xs f ys assume "as @ bs = xs @ Call_cb f # ys"
  then consider us where "as = xs @ Call_cb f # us" | us where "xs = as @ us" "bs = us @ Call_cb f # ys"
    by (auto simp: append_eq_append_conv2 append_eq_Cons_conv)
  then show "\<exists>p\<in>G. \<exists>zs. tbl ! p = Some f \<and> latch edges (tr @ zs) p \<noteq> 0 \<and>
       xs = zs @ [Rd (IO_PROC0_INTS (p div 8)), Gpio (Gpio_acknowledge_irq (of_nat p) (latch edges (tr @ zs) p))]"
  proof cases
    case 1
    with assms(1) show ?thesis unfolding acked_calls_def by blast
  next
    case (2 us)
    with assms(2) obtain p zs where "p \<in> G" "tbl ! p = Some f" "latch edges (tr @ as @ zs) p \<noteq> 0"
      "us = zs @ [Rd (IO_PROC0_INTS (p div 8)), Gpio (Gpio_acknowledge_irq (of_nat p) (latch edges (tr @ as @ zs) p))]"
      unfolding acked_calls_def append_assoc by blast
    with 2(1) show ?thesis by (intro bexI [of _ p] exI [of _ "as @ zs"]) simp_all
  qed
qed

lemma plain_no_cb: "list_all plain_call cs \<Longrightarrow> Call_cb f \<notin> set cs"
  by (induction cs) (auto simp: plain_call_def)

lemma block_acked_calls:
  assumes "io_block edges tbl tr p bl" "p \<in> G"
  shows "acked_calls edges tbl G tr bl"
  unfolding acked_calls_def
proof (intro allI impI)
  fix xs f ys assume bl: "bl = xs @ Call_cb f # ys"
  then have mem: "Call_cb f \<in> set bl" by simp
  have ne: "latch edges tr p \<noteq> 0" using assms(1) mem by (auto simp: io_block_def)
  moreover obtain g where "tbl ! p = Some g" using assms(1) mem ne by (cases "tbl ! p") (auto simp: io_block_def)
  moreover obtain cs where cs: "bl = [Rd (IO_PROC0_INTS (p div 8)), Gpio (Gpio_acknowledge_irq (of_nat p) (latch edges tr p)), Call_cb g] @ cs"
    "list_all plain_call cs" using assms(1) ne \<open>tbl ! p = Some g\<close> by (auto simp: io_block_def)
  moreover have "g = f \<and> xs = [Rd (IO_PROC0_INTS (p div 8)), Gpio (Gpio_acknowledge_irq (of_nat p) (latch edges tr p))]"
    using cs bl plain_no_cb [OF cs(2), of f] by (auto simp: append_eq_Cons_conv)
  ultimately show "\<exists>p\<in>G. \<exists>zs. tbl ! p = Some f \<and> latch edges (tr @ zs) p \<noteq> 0 \<and>
       xs = zs @ [Rd (IO_PROC0_INTS (p div 8)), Gpio (Gpio_acknowledge_irq (of_nat p) (latch edges (tr @ zs) p))]"
    using assms(2) by (intro bexI [of _ p] exI [of _ "[]"]) simp_all
qed

lemma unat_gpio: "p < 32 \<Longrightarrow> unat (of_nat p :: u32) = p"
  by (simp add: unat_of_nat)

lemma block_answered:
  assumes "io_block edges tbl tr p bl" "p < 32"
  shows "answered tbl bl"
  using assms by (cases "tbl ! p") (auto simp: io_block_def answered_plain unat_gpio split: if_splits)

lemma block_keeps:
  assumes "io_block edges tbl tr g bl" "g < 32" "g \<noteq> p" "bit (latch edges tr p) b"
  shows "bit (latch edges (tr @ bl) p) b \<or> reset_events p bl"
proof (rule ccontr)
  assume "\<not> ?thesis"
  then obtain us c vs where bl: "bl = us @ c # vs" and c: "bit (clears c p) b" and nr: "\<not> reset_events p bl"
    using latch_lost [OF assms(4)] by blast
  from c show False
  proof (cases rule: clears_cases)
    case (1 q ev)
    have "list_all plain_call cs \<Longrightarrow> c \<notin> set cs" for cs by (auto simp: list_all_iff plain_call_def 1(1))
    moreover have "q \<noteq> of_nat g" using 1(2) assms(2,3) unat_gpio [of g] by auto
    moreover have "c \<in> set bl" using bl by simp
    ultimately show False
      using assms(1) 1(1) by (cases "tbl ! g") (auto simp: io_block_def split: if_splits)
  next
    case (2 q ev en)
    with bl nr show False by (auto simp: reset_events_def)
  qed
qed

lemma isr_io_loop_serves:
  assumes "irq_latch E edges" "exti_callbacks run" "set gs \<subseteq> {..<NUM_BANK0_GPIOS E}" "NUM_BANK0_GPIOS E \<le> 32"
    and "isr_io_loop E run gs s = Inr t"
  shows "exti_cb t = exti_cb s \<and> (\<exists>cs. trace t = trace s @ cs \<and> answered (exti_cb s) cs \<and>
    acked_calls edges (exti_cb s) {..<NUM_BANK0_GPIOS E} (trace s) cs \<and>
    (\<forall>p f b. p \<in> set gs \<longrightarrow> exti_cb s ! p = Some f \<longrightarrow> bit (latch edges (trace s) p) b \<longrightarrow> Call_cb f \<in> set cs \<or> reset_events p cs))"
  using assms(3,5)
proof (induction gs arbitrary: s)
  case Nil
  then show ?case by (simp add: acked_calls_def)
next
  case (Cons g gs)
  then obtain u where u: "isr_io_gpio E run g s = Inr u" "isr_io_loop E run gs u = Inr t" by (auto simp: bindE_eq_Inr)
  have g: "g < NUM_BANK0_GPIOS E" "g < 32" using Cons.prems(1) assms(4) by auto
  obtain bl where bl: "exti_cb u = exti_cb s" "trace u = trace s @ bl" "io_block edges (exti_cb s) (trace s) g bl"
    using isr_io_gpio_block [OF assms(1,2) g(1) u(1)] by blast
  have "set gs \<subseteq> {..<NUM_BANK0_GPIOS E}" using Cons.prems(1) by simp
  from Cons.IH [OF this u(2)] obtain cs where cs: "exti_cb t = exti_cb s" "trace t = trace s @ bl @ cs" "answered (exti_cb s) cs"
    "acked_calls edges (exti_cb s) {..<NUM_BANK0_GPIOS E} (trace s @ bl) cs"
    and served: "\<And>p f b. p \<in> set gs \<Longrightarrow> exti_cb s ! p = Some f \<Longrightarrow> bit (latch edges (trace s @ bl) p) b \<Longrightarrow>
      Call_cb f \<in> set cs \<or> reset_events p cs"
    unfolding bl(1,2) by auto
  have "answered (exti_cb s) (bl @ cs)" using answered_append [OF block_answered [OF bl(3) g(2)] cs(3)] .
  moreover have "acked_calls edges (exti_cb s) {..<NUM_BANK0_GPIOS E} (trace s) (bl @ cs)"
    using block_acked_calls [OF bl(3)] g(1) cs(4) by (intro acked_calls_append) auto
  moreover have "Call_cb f \<in> set (bl @ cs) \<or> reset_events p (bl @ cs)"
    if "p \<in> set (g # gs)" "exti_cb s ! p = Some f" "bit (latch edges (trace s) p) b" for p f b
  proof (cases "p = g")
    case True
    have "latch edges (trace s) g \<noteq> 0" using that(3) True by auto
    then show ?thesis using bl(3) that(2) True by (auto simp: io_block_def)
  next
    case False
    then show ?thesis
      using block_keeps [OF bl(3) g(2) _ that(3)] served [OF _ that(2), of b] that(1) by (auto simp: reset_events_def)
  qed
  ultimately show ?case using cs(1,2) by auto
qed

text \<open>The handler ends, as long as the callbacks do.\<close>

lemma isr_io_bank0_returns: "(\<And>f s. \<exists>t. run f s = Inr t) \<Longrightarrow> \<exists>t. isr_io_bank0 E run s = Inr t"
proof -
  assume run: "\<And>f s. \<exists>t. run f s = Inr t"
  have "\<exists>t. isr_io_gpio E run g s = Inr t" for g s using run by (auto simp: isr_io_gpio_def split: option.split)
  then have "\<exists>t. isr_io_loop E run gs s = Inr t" for gs s
    by (induction gs arbitrary: s) (simp, metis bindE_Inr isr_io_loop.simps(2))
  then show ?thesis by (simp add: isr_io_bank0_def)
qed


definition pins_demo :: pins where
  "pins_demo = \<lparr>trace = [], irq_disabled = 0, dmaHandler = [], timer_cb = None, int2 = 0,
     last_delay = 0, last_delay_now = 0, exti_cb = (replicate 30 None)[9 := Some 5], exti_ev = replicate 30 0\<rparr>"

text \<open>A block on which a falling edge is latched at pin 9 and nothing else ever happens.\<close>

definition edge9 :: "call list \<Rightarrow> nat \<Rightarrow> u32" where
  "edge9 tr p = (if tr = [] \<and> p = 9 then 4 else 0)"

lemma latch_edge9: "latch edge9 tr p = (if p = 9 then latch edge9 tr 9 else 0)" "latch edge9 tr p AND 0xf = latch edge9 tr p"
proof -
  have "latch edge9 tr p = (if p = 9 then latch edge9 tr 9 else 0) \<and> latch edge9 tr p AND 0xf = latch edge9 tr p"
  proof (induction tr rule: rev_induct)
    case Nil
    show ?case by (simp add: latch_def edge9_def)
  next
    case (snoc c tr)
    moreover have "(x AND NOT y) AND z = (x AND z) AND NOT y" for x y z :: u32 by (simp add: ac_simps)
    ultimately show ?case by (auto simp: edge9_def)
  qed
  then show "latch edge9 tr p = (if p = 9 then latch edge9 tr 9 else 0)" "latch edge9 tr p AND 0xf = latch edge9 tr p" by blast+
qed

definition edge_plat :: plat where
  "edge_plat = answering (\<lambda>tr c. if c = Rd (IO_PROC0_INTS 1) then uint (push_bit 4 (latch edge9 tr 9)) else 0)"

lemma edge_plat_latch: "irq_latch edge_plat edge9"
  unfolding irq_latch_def
proof (intro allI impI)
  fix tr p
  let ?r = "\<lambda>k :: nat. if k = 1 then push_bit 4 (latch edge9 tr 9) else 0 :: u32"
  have r: "(\<lambda>k. word_of_int (resp edge_plat tr (Rd (IO_PROC0_INTS k)))) = ?r" by (auto simp: edge_plat_def fun_eq_iff)
  have "?r = (\<lambda>_. 0)(9 div 8 := (\<lambda>_. 0 :: u32) (9 div 8) OR push_bit (4 * (9 mod 8)) (latch edge9 tr 9 :: u32) :: u32)"
    by (auto simp: fun_eq_iff)
  then have "events_of ?r p = (if p = 9 then events_of (\<lambda>_. 0) 9 OR latch edge9 tr 9 else events_of (\<lambda>_. 0) p)"
    using events_of_set [OF latch_edge9(2) [of tr 9], of "\<lambda>_. 0" 9 p] by simp
  then show "events_of (\<lambda>k. word_of_int (resp edge_plat tr (Rd (IO_PROC0_INTS k)))) p = latch edge9 tr p"
    unfolding r by (subst latch_edge9(1)) (simp add: events_of_def)
qed


end
