(* ===== verification/Uart.thy ===== *)
theory Uart
  imports Pins
begin

text \<open>
  \<open>uart.c\<close>: the single-wire half-duplex link, driven by two PIO state machines
  and two DMA channels. The Jacdac runtime that the link calls back
  (\<open>jd_line_falling\<close>, \<open>jd_rx_completed\<close>, \<open>jd_tx_completed\<close>) is a parameter; it may
  call the functions of this file again. The parameter checks of the SDK
  (\<open>check_pio_param\<close>, \<open>check_sm_param\<close>, \<open>valid_params_if\<close>) expand to nothing in this
  build. The busy-wait loops are partial functions; that they return is proved.
\<close>

section \<open>State\<close>

record uart = pins +
  dmachTx :: int
  dmachRx :: int
  txprog :: u32
  rxprog :: u32
  smtx :: u8
  smrx :: u8
  uart_status :: u16
  jacdac_pin :: u8

record 's jdrt =
  jd_line_falling :: "'s \<Rightarrow> 's res"
  jd_rx_completed :: "int \<Rightarrow> 's \<Rightarrow> 's res"
  jd_tx_completed :: "int \<Rightarrow> 's \<Rightarrow> 's res"

text \<open>The entry of the pin-change table that stands for \<open>jd_line_falling\<close>.\<close>

definition cb_jd_line_falling :: nat where
  "cb_jd_line_falling = 0"

definition STATUS_IDLE :: u16 where
  "STATUS_IDLE = 0"

definition STATUS_TX :: u16 where
  "STATUS_TX = 0x10"

definition STATUS_RX :: u16 where
  "STATUS_RX = 0x20"

definition PIO_BREAK_IRQ :: u32 where
  "PIO_BREAK_IRQ = 0x2"

lemmas status_defs = STATUS_IDLE_def STATUS_TX_def STATUS_RX_def

section \<open>Setting pins through a state machine\<close>

definition pio_gpio_init' :: "plat \<Rightarrow> pio \<Rightarrow> u32 \<Rightarrow> 'a mach_scheme \<Rightarrow> 'a mach_scheme" where
  "pio_gpio_init' E p pin s =
     pin_setup_output_af E (sint pin) (if p = pio0 then GPIO_FUNC_PIO0 else GPIO_FUNC_PIO1) s"

text \<open>The value of \<open>PINCTRL\<close> that selects \<open>count\<close> pins from \<open>base\<close> for \<open>SET\<close>.\<close>

definition set_pinctrl :: "plat \<Rightarrow> u32 \<Rightarrow> u32 \<Rightarrow> u32" where
  "set_pinctrl E count base =
     push_bit (PINCTRL_SET_COUNT_LSB E) count OR push_bit (PINCTRL_SET_BASE_LSB E) base"

partial_function (option) pindirs_loop ::
  "plat \<Rightarrow> pio \<Rightarrow> nat \<Rightarrow> u32 \<Rightarrow> u32 \<Rightarrow> u32 \<Rightarrow> 'a mach_scheme \<Rightarrow> (u32 \<times> u32 \<times> 'a mach_scheme) option" where
  "pindirs_loop E p sm pindir_val pin count s =
     (if 5 < count
      then let s = wr (PIO_PINCTRL p sm) (set_pinctrl E 5 pin) s;
               s = emit (Pio (Pio_sm_exec p sm (Pio_set_pindirs pindir_val))) s
           in pindirs_loop E p sm pindir_val ((pin + 5) AND 0x1f) (count - 5) s
      else Some (pin, count, s))"

definition pio_sm_set_consecutive_pindirs' ::
  "plat \<Rightarrow> pio \<Rightarrow> nat \<Rightarrow> u32 \<Rightarrow> u32 \<Rightarrow> bool \<Rightarrow> 'a mach_scheme \<Rightarrow> 'a mach_scheme option" where
  "pio_sm_set_consecutive_pindirs' E p sm pin count is_out s =
     (let (pinctrl_saved, s) = rd E (PIO_PINCTRL p sm) s;
          pindir_val = (if is_out then 0x1f else 0)
      in case pindirs_loop E p sm pindir_val pin count s of None \<Rightarrow> None
         | Some (pin, count, s) \<Rightarrow>
             let s = wr (PIO_PINCTRL p sm) (set_pinctrl E count pin) s;
                 s = emit (Pio (Pio_sm_exec p sm (Pio_set_pindirs pindir_val))) s
             in Some (wr (PIO_PINCTRL p sm) pinctrl_saved s))"

text \<open>\<open>__builtin_ctz\<close>: the index of the lowest set bit.\<close>

definition ctz :: "u32 \<Rightarrow> nat" where
  "ctz m = length (takeWhile (\<lambda>i. \<not> bit m i) [0..<32])"

text \<open>
  The loop shared by \<open>pio_sm_set_pins_with_mask_\<close> and
  \<open>pio_sm_set_pindirs_with_mask_\<close>, which differ in the destination of \<open>SET\<close>.
\<close>

partial_function (option) mask_loop ::
  "plat \<Rightarrow> (u32 \<Rightarrow> pio_instr) \<Rightarrow> pio \<Rightarrow> nat \<Rightarrow> u32 \<Rightarrow> u32 \<Rightarrow> 'a mach_scheme \<Rightarrow> 'a mach_scheme option" where
  "mask_loop E encode p sm vals pin_mask s =
     (if pin_mask \<noteq> 0
      then let base = ctz pin_mask;
               s = wr (PIO_PINCTRL p sm) (set_pinctrl E 1 (of_nat base)) s;
               s = emit (Pio (Pio_sm_exec p sm (encode (drop_bit base vals AND 1)))) s
           in mask_loop E encode p sm vals (pin_mask AND (pin_mask - 1)) s
      else Some s)"

definition pio_sm_set_pins_with_mask' ::
  "plat \<Rightarrow> pio \<Rightarrow> nat \<Rightarrow> u32 \<Rightarrow> u32 \<Rightarrow> 'a mach_scheme \<Rightarrow> 'a mach_scheme option" where
  "pio_sm_set_pins_with_mask' E p sm pinvals pin_mask s =
     (let (pinctrl_saved, s) = rd E (PIO_PINCTRL p sm) s
      in case mask_loop E Pio_set_pins p sm pinvals pin_mask s of None \<Rightarrow> None
         | Some s \<Rightarrow> Some (wr (PIO_PINCTRL p sm) pinctrl_saved s))"

definition pio_sm_set_pindirs_with_mask' ::
  "plat \<Rightarrow> pio \<Rightarrow> nat \<Rightarrow> u32 \<Rightarrow> u32 \<Rightarrow> 'a mach_scheme \<Rightarrow> 'a mach_scheme option" where
  "pio_sm_set_pindirs_with_mask' E p sm pindirs pin_mask s =
     (let (pinctrl_saved, s) = rd E (PIO_PINCTRL p sm) s
      in case mask_loop E Pio_set_pindirs p sm pindirs pin_mask s of None \<Rightarrow> None
         | Some s \<Rightarrow> Some (wr (PIO_PINCTRL p sm) pinctrl_saved s))"

definition pio_sm_init' ::
  "plat \<Rightarrow> pio \<Rightarrow> nat \<Rightarrow> u32 \<Rightarrow> sm_setting list option \<Rightarrow> 'a mach_scheme \<Rightarrow> 'a mach_scheme" where
  "pio_sm_init' E p sm initial_pc config s =
     (let s = emit (Pio (Pio_sm_set_enabled p sm False)) s;
          s = (case config of
                 Some c \<Rightarrow> emit (Pio (Pio_sm_set_config p sm c)) s
               | None \<Rightarrow> emit (Pio (Pio_sm_set_config p sm [Sm_default])) s);
          s = emit (Pio (Pio_sm_clear_fifos p sm)) s;
          fdebug_sm_mask = bit32 (FDEBUG_TXOVER_LSB E) OR bit32 (FDEBUG_RXUNDER_LSB E) OR
                           bit32 (FDEBUG_TXSTALL_LSB E) OR bit32 (FDEBUG_RXSTALL_LSB E);
          s = wr (PIO_FDEBUG p) (push_bit sm fdebug_sm_mask) s;
          s = emit (Pio (Pio_sm_restart p sm)) s;
          s = emit (Pio (Pio_sm_clkdiv_restart p sm)) s
      in emit (Pio (Pio_sm_exec p sm (Pio_jmp initial_pc))) s)"

section \<open>Arming the pin\<close>

definition jd_tx_arm_pin :: "plat \<Rightarrow> pio \<Rightarrow> nat \<Rightarrow> u32 \<Rightarrow> 'a mach_scheme \<Rightarrow> 'a mach_scheme res" where
  "jd_tx_arm_pin E p sm pin s =
     bindE (of_loop (pio_sm_set_pins_with_mask' E p sm (bit32 (unat pin)) (bit32 (unat pin)) s)) (\<lambda>s.
     bindE (of_loop (pio_sm_set_pindirs_with_mask' E p sm (bit32 (unat pin)) (bit32 (unat pin)) s)) (\<lambda>s.
       Inr (pio_gpio_init' E p pin s)))"

definition jd_tx_program_init ::
  "plat \<Rightarrow> pio \<Rightarrow> nat \<Rightarrow> u32 \<Rightarrow> u32 \<Rightarrow> u32 \<Rightarrow> 'a mach_scheme \<Rightarrow> 'a mach_scheme res" where
  "jd_tx_program_init E p sm offset pin baud s =
     bindE (jd_tx_arm_pin E p sm pin s) (\<lambda>s.
       let c = [Sm_default_of jd_tx_program offset];
           c = c @ [Sm_out_shift True False 32];
           c = c @ [Sm_out_pins pin 1];
           c = c @ [Sm_sideset_pins pin];
           c = c @ [Sm_fifo_join PIO_FIFO_JOIN_NONE];
           (hz, s) = ask E Clock_get_hz_sys s;
           c = c @ [Sm_clkdiv (word_of_int hz) (8 * baud)];
           s = pio_sm_init' E p sm offset (Some c) s
       in Inr (emit (Pio (Pio_sm_set_enabled p sm False)) s))"

definition jd_rx_arm_pin :: "plat \<Rightarrow> pio \<Rightarrow> nat \<Rightarrow> u32 \<Rightarrow> 'a pins_scheme \<Rightarrow> 'a pins_scheme res" where
  "jd_rx_arm_pin E p sm pin s =
     bindE (of_loop (pio_sm_set_consecutive_pindirs' E p sm pin 1 False s)) (\<lambda>s.
     bindE (exti_disable (ucast pin) s) (\<lambda>s.
       let s = pio_gpio_init' E p pin s
       in Inr (pin_set_pull E (sint pin) (PIN_PULL_UP E) s)))"

definition jd_rx_program_init ::
  "plat \<Rightarrow> pio \<Rightarrow> nat \<Rightarrow> u32 \<Rightarrow> u32 \<Rightarrow> u32 \<Rightarrow> 'a pins_scheme \<Rightarrow> 'a pins_scheme res" where
  "jd_rx_program_init E p sm offset pin baud s =
     bindE (jd_rx_arm_pin E p sm pin s) (\<lambda>s.
       let c = [Sm_default_of jd_rx_program offset];
           c = c @ [Sm_in_pins pin];
           c = c @ [Sm_jmp_pin pin];
           c = c @ [Sm_in_shift True True 8];
           c = c @ [Sm_fifo_join PIO_FIFO_JOIN_RX];
           (hz, s) = ask E Clock_get_hz_sys s;
           c = c @ [Sm_clkdiv (word_of_int hz) (8 * baud)];
           s = pio_sm_init' E p sm offset (Some c) s
       in Inr (emit (Pio (Pio_sm_set_enabled p sm False)) s))"

section \<open>Back to idle\<close>

definition uart_disable :: "plat \<Rightarrow> 'a uart_scheme \<Rightarrow> 'a uart_scheme res" where
  "uart_disable E s =
     (let pin = jacdac_pin s in
      if uint pin = NO_PIN E then Inr s
      else
       let s = s\<lparr>uart_status := STATUS_IDLE\<rparr>;
           s = target_disable_irq s;
           s = wr DMA_ABORT (bit32 (nat (dmachRx s)) OR bit32 (nat (dmachTx s))) s;
           s = pin_setup_input E (uint pin) (PIN_PULL_UP E) s;
           s = pin_setup_output_af E (uint pin) GPIO_FUNC_SIO s;
           s = emit (Pio (Pio_sm_set_enabled pio0 (unat (smtx s)) False)) s;
           s = emit (Pio (Pio_sm_set_enabled pio0 (unat (smrx s)) False)) s;
           s = emit (Pio (Pio_set_irq0_source_interrupt1 pio0 False)) s
       in bindE (exti_enable pin s) (\<lambda>s. Inr (target_enable_irq s)))"

section \<open>Completion\<close>

definition rx_done :: "plat \<Rightarrow> 'a uart_scheme jdrt \<Rightarrow> 'a uart_scheme \<Rightarrow> 'a uart_scheme res" where
  "rx_done E R s =
     (if uart_status s AND STATUS_RX \<noteq> 0
      then let s = s\<lparr>uart_status := uart_status s AND NOT STATUS_RX\<rparr>
           in bindE (uart_disable E s) (jd_rx_completed R 0)
      else Inr s)"

definition rx_handler :: "plat \<Rightarrow> 'a uart_scheme jdrt \<Rightarrow> nat option \<Rightarrow> 'a uart_scheme \<Rightarrow> 'a uart_scheme res" where
  "rx_handler E R p s = rx_done E R s"

definition tx_stall_bit :: "plat \<Rightarrow> 'a uart_scheme \<Rightarrow> u32" where
  "tx_stall_bit E s = bit32 (FDEBUG_TXSTALL_LSB E + unat (smtx s))"

partial_function (option) stall_loop :: "plat \<Rightarrow> 'a uart_scheme \<Rightarrow> 'a uart_scheme option" where
  "stall_loop E s =
     (let (v, s) = rd E (PIO_FDEBUG pio0) s
      in if v AND tx_stall_bit E s = 0 then stall_loop E s else Some s)"

definition tx_handler :: "plat \<Rightarrow> 'a uart_scheme jdrt \<Rightarrow> nat option \<Rightarrow> 'a uart_scheme \<Rightarrow> 'a uart_scheme res" where
  "tx_handler E R p s =
     (let s = wr (PIO_FDEBUG pio0) (tx_stall_bit E s) s
      in bindE (of_loop (stall_loop E s)) (\<lambda>s.
         let pin = uint (jacdac_pin s);
             s = pin_set E pin 1 s;
             s = pin_setup_output E pin s;
             s = pin_setup_output_af E pin GPIO_FUNC_SIO s
         in bindE (of_loop (target_wait_us E 1 s)) (\<lambda>s.
            let s = pin_set E pin 0 s
            in bindE (of_loop (target_wait_us E 12 s)) (\<lambda>s.
               let s = pin_set E pin 1 s
               in bindE (uart_disable E s) (jd_tx_completed R 0)))))"

definition isr_pio0_0 :: "plat \<Rightarrow> 'a uart_scheme jdrt \<Rightarrow> 'a uart_scheme \<Rightarrow> 'a uart_scheme res" where
  "isr_pio0_0 E R s =
     (let (n, s) = rd E (PIO_IRQ pio0) s;
          s = wr (PIO_IRQ pio0) n s
      in if n AND PIO_BREAK_IRQ \<noteq> 0 then rx_done E R s else Inr s)"

section \<open>Initialisation\<close>

text \<open>The second half of \<open>uart_init_\<close>: DMA channels and interrupts.\<close>

definition uart_init_dma :: "plat \<Rightarrow> u8 \<Rightarrow> 'a uart_scheme \<Rightarrow> 'a uart_scheme res" where
  "uart_init_dma E pin s =
     (let (v, s) = ask E (Dma (Dma_claim_unused_channel True)) s;
          s = s\<lparr>dmachRx := v\<rparr>;
          (v, s) = ask E (Dma (Dma_claim_unused_channel True)) s;
          s = s\<lparr>dmachTx := v\<rparr>;
          c = [Dma_default (dmachRx s)];
          c = c @ [Dma_bswap True];
          c = c @ [Dma_read_increment False];
          c = c @ [Dma_write_increment True];
          c = c @ [Dma_transfer_data_size 8];
          c = c @ [Dma_dreq (DREQ_PIO0_RX0 E + uint (smrx s))];
          rxPtr = Pio_rxf pio0 (unat (smrx s)) 3;
          s = emit (Dma (Dma_channel_configure (dmachRx s) c Null rxPtr 0 False)) s;
          c = [Dma_default (dmachTx s)];
          c = c @ [Dma_transfer_data_size 8];
          (dreq, s) = ask E (Pio (Pio_get_dreq pio0 (unat (smtx s)) True)) s;
          c = c @ [Dma_dreq dreq];
          s = emit (Dma (Dma_channel_configure (dmachTx s) c (Pio_txf pio0 (unat (smtx s))) Null 0 False)) s
      in bindE (exti_set_callback E pin (Some cb_jd_line_falling) EXTI_FALLING s) (\<lambda>s.
         let s = ram_irq_set_priority E (of_nat (DMA_IRQ_0 E)) IRQ_PRIORITY_UART s;
             s = ram_irq_set_priority E (of_nat (PIO0_IRQ_0 E)) IRQ_PRIORITY_UART s;
             s = ram_irq_set_enabled (of_nat (PIO0_IRQ_0 E)) True s
         in uart_disable E s))"

definition uart_init' :: "plat \<Rightarrow> 'a uart_scheme \<Rightarrow> 'a uart_scheme res" where
  "uart_init' E s =
     (let (v, s) = ask E (Dcfg_get_pin ''jacdac.pin'') s;
          pin = word_of_int v :: u8;
          s = s\<lparr>jacdac_pin := pin\<rparr>
      in if uint pin = NO_PIN E then Inr s
         else
          let s = pin_set E (uint pin) 1 s;
              s = pin_setup_output E (uint pin) s;
              s = pin_setup_input E (uint pin) (PIN_PULL_UP E) s;
              (v, s) = ask E (Pio (Pio_add_program pio0 jd_tx_program)) s;
              s = s\<lparr>txprog := word_of_int v\<rparr>;
              (v, s) = ask E (Pio (Pio_add_program pio0 jd_rx_program)) s;
              s = s\<lparr>rxprog := word_of_int v\<rparr>;
              baudrate = 1000000
          in bindE (jd_tx_program_init E pio0 (unat (smtx s)) (txprog s) (ucast pin) baudrate s) (\<lambda>s.
             bindE (jd_rx_program_init E pio0 (unat (smrx s)) (rxprog s) (ucast pin) baudrate s)
               (uart_init_dma E pin)))"

section \<open>Transfers\<close>

fun wait_high_loop :: "plat \<Rightarrow> int \<Rightarrow> nat \<Rightarrow> 'a mach_scheme \<Rightarrow> int \<times> 'a mach_scheme" where
  "wait_high_loop E pin 0 s = (-1, s)"
| "wait_high_loop E pin (Suc timeout) s =
     (let (v, s) = pin_get E pin s
      in if v = 0 then wait_high_loop E pin timeout s else (int timeout, s))"

definition uart_wait_high :: "plat \<Rightarrow> 'a uart_scheme \<Rightarrow> int \<times> 'a uart_scheme" where
  "uart_wait_high E s =
     (let pin = uint (jacdac_pin s);
          (timeout, s) = wait_high_loop E pin 50000 s
      in (if timeout \<le> 0 then -1 else 0, s))"

definition uart_flush_rx :: "'a uart_scheme \<Rightarrow> 'a uart_scheme" where
  "uart_flush_rx s = s"

definition gpio_probe_and_set :: "plat \<Rightarrow> u32 \<Rightarrow> 'a mach_scheme \<Rightarrow> u32 \<times> 'a mach_scheme" where
  "gpio_probe_and_set E pin s =
     (let (v, s) = rd E SIO_GPIO_IN s;
          r = v AND pin
      in (r, wr SIO_GPIO_OE_SET r s))"

definition uart_start_tx ::
  "plat \<Rightarrow> 'a uart_scheme jdrt \<Rightarrow> nat \<Rightarrow> u32 \<Rightarrow> 'a uart_scheme \<Rightarrow> (int \<times> 'a uart_scheme) res" where
  "uart_start_tx E R data len s =
     (let pin = jacdac_pin s in
      if uint pin = NO_PIN E
      then bindE (jd_tx_completed R 0 s) (\<lambda>s. Inr (0, s))
      else
       bindE (exti_disable pin s) (\<lambda>s.
       if uart_status s AND STATUS_RX \<noteq> 0 then Inr (-1, s)
       else
        bindE (jd_assert (uart_status s = 0) s) (\<lambda>s.
        let s = s\<lparr>uart_status := STATUS_TX\<rparr>;
            s = pin_set E (uint pin) 0 s;
            (r, s) = gpio_probe_and_set E (bit32 (unat pin)) s
        in if r = 0
           then let s = target_disable_irq s
                in bindE (jd_line_falling R s) (\<lambda>s.
                   let s = target_enable_irq s in Inr (-1, s))
           else
            bindE (of_loop (target_wait_us E 12 s)) (\<lambda>s.
            let s = pin_set E (uint pin) 1 s
            in bindE (of_loop (target_wait_us E 49 s)) (\<lambda>s.
               bindE (jd_tx_arm_pin E pio0 (unat (smtx s)) (ucast pin) s) (\<lambda>s.
               let s = emit (Pio (Pio_sm_set_enabled pio0 (unat (smtx s)) True)) s
               in bindE (dma_set_ch_cb E (word_of_int (dmachTx s)) Uart_tx_handler None s) (\<lambda>s.
                  let s = emit (Dma (Dma_channel_transfer_from_buffer_now (dmachTx s) data len)) s;
                      s = wr (PIO_FDEBUG pio0) (tx_stall_bit E s) s
                  in Inr (0, s))))))))"

definition uart_start_rx :: "plat \<Rightarrow> nat \<Rightarrow> u32 \<Rightarrow> 'a uart_scheme \<Rightarrow> 'a uart_scheme res" where
  "uart_start_rx E data len s =
     bindE (jd_assert (uint (jacdac_pin s) \<noteq> NO_PIN E) s) (\<lambda>s.
     let s = s\<lparr>uart_status := STATUS_RX\<rparr>
     in bindE (jd_rx_arm_pin E pio0 (unat (smrx s)) (ucast (jacdac_pin s)) s) (\<lambda>s.
        let s = emit (Pio (Pio_sm_set_enabled pio0 (unat (smrx s)) True)) s;
            s = wr (PIO_IRQ pio0) PIO_BREAK_IRQ s
        in bindE (dma_set_ch_cb E (word_of_int (dmachRx s)) Uart_rx_handler None s) (\<lambda>s.
           let s = emit (Dma (Dma_channel_transfer_to_buffer_now (dmachRx s) data len)) s
           in Inr (emit (Pio (Pio_set_irq0_source_interrupt1 pio0 True)) s))))"

section \<open>Setting pins one at a time\<close>

lemma upt_split_at: "m < n \<Longrightarrow> [0..<n] = [0..<m] @ m # [Suc m..<n]"
  using upt_add_eq_append [of 0 m "n - m"] upt_conv_Cons [of m n] by simp

lemma takeWhile_upt_length:
  assumes "P m" "m < n" "\<And>i. i < m \<Longrightarrow> \<not> P i"
  shows "length (takeWhile (\<lambda>i. \<not> P i) [0..<n]) = m"
  using assms(1,3) by (simp add: upt_split_at [OF assms(2)] takeWhile_append)

lemma ctz_least:
  assumes "m \<noteq> 0"
  shows "bit m (ctz m)" "ctz m < 32" "\<And>i. i < ctz m \<Longrightarrow> \<not> bit m i"
proof -
  obtain n where n: "bit m n" using assms by (auto simp: bit_eq_iff)
  define k where "k = (LEAST n. bit m n)"
  have k: "bit m k" and least: "\<And>i. i < k \<Longrightarrow> \<not> bit m i"
    unfolding k_def using n by (auto intro: LeastI dest: not_less_Least)
  have "k < 32" using k bit_imp_le_length [of m k] by simp
  then have "ctz m = k"
    unfolding ctz_def by (intro takeWhile_upt_length k least)
  with k least \<open>k < 32\<close> show "bit m (ctz m)" "ctz m < 32" "\<And>i. i < ctz m \<Longrightarrow> \<not> bit m i"
    by simp_all
qed

text \<open>\<open>m & (m - 1)\<close> clears the lowest set bit.\<close>

lemma and_minus_1_bit:
  fixes m :: u32
  assumes "m \<noteq> 0"
  shows "bit (m AND (m - 1)) n \<longleftrightarrow> bit m n \<and> n \<noteq> ctz m"
proof -
  let ?k = "ctz m"
  note k = ctz_least [OF assms]
  define h where "h = m AND NOT (mask (Suc ?k))"
  have h: "bit h i \<longleftrightarrow> bit m i \<and> ?k < i" for i
    using k(2) by (auto simp: h_def bit_simps not_le less_Suc_eq_le dest: bit_imp_le_length)
  have "h + 2 ^ ?k = h OR 2 ^ ?k"
    by (rule disjunctive_add_eq_or, rule bit_word_eqI) (auto simp: bit_simps h)
  also have "\<dots> = m"
    using k by (intro bit_word_eqI) (auto simp: bit_simps h, metis linorder_neqE_nat)
  finally have "m - 1 = h + mask ?k"
    by (simp add: mask_eq_exp_minus_1 algebra_simps)
  also have "\<dots> = h OR mask ?k"
    by (rule disjunctive_add_eq_or, rule bit_word_eqI) (auto simp: bit_simps h)
  finally show ?thesis
    using k by (auto simp: bit_simps h dest: bit_imp_le_length)
qed

text \<open>The pins of a mask, lowest first.\<close>

definition mask_pins :: "u32 \<Rightarrow> nat list" where
  "mask_pins m = filter (bit m) [0..<32]"

lemma mask_pins_step:
  assumes "m \<noteq> 0"
  shows "mask_pins m = ctz m # mask_pins (m AND (m - 1))"
proof -
  note k = ctz_least [OF assms]
  have "filter (bit m) [Suc (ctz m)..<32] = filter (bit (m AND (m - 1))) [Suc (ctz m)..<32]"
    by (rule filter_cong [OF refl]) (simp only: and_minus_1_bit [OF assms] set_upt atLeastLessThan_iff, simp)
  moreover have "filter (bit (m AND (m - 1))) [0..<ctz m] = []" "filter (bit m) [0..<ctz m] = []"
    using k(3) by (simp_all add: filter_empty_conv bit_and_iff)
  ultimately show ?thesis
    unfolding mask_pins_def upt_split_at [OF k(2)] using k(1) by (simp add: and_minus_1_bit [OF assms])
qed

text \<open>Reference: what setting the pins of a mask does, lowest pin first.\<close>

definition set_calls :: "plat \<Rightarrow> (u32 \<Rightarrow> pio_instr) \<Rightarrow> pio \<Rightarrow> nat \<Rightarrow> u32 \<Rightarrow> nat \<Rightarrow> call list" where
  "set_calls E encode p sm vals i =
     [Wr (PIO_PINCTRL p sm) (set_pinctrl E 1 (of_nat i)),
      Pio (Pio_sm_exec p sm (encode (of_bool (bit vals i))))]"

lemma mask_loop_run:
  "mask_loop E encode p sm vals m s =
     Some (s\<lparr>trace := trace s @ concat (map (set_calls E encode p sm vals) (mask_pins m))\<rparr>)"
proof (induction "length (mask_pins m)" arbitrary: m s)
  case 0
  then have "\<not> bit m i" for i
    using bit_imp_le_length [of m i] by (auto simp: filter_empty_conv mask_pins_def)
  then have "m = 0" by (simp add: bit_eq_iff)
  then show ?case by (subst mask_loop.simps) (simp add: mask_pins_def)
next
  case (Suc k)
  then have m: "m \<noteq> 0" by (auto simp: mask_pins_def)
  let ?s = "s\<lparr>trace := trace s @ set_calls E encode p sm vals (ctz m)\<rparr>"
  have "drop_bit (ctz m) vals AND 1 = of_bool (bit vals (ctz m))"
    by (simp add: and_one_eq mod2_eq_if bit_iff_odd_drop_bit)
  then have "mask_loop E encode p sm vals m s = mask_loop E encode p sm vals (m AND (m - 1)) ?s"
    using m by (subst mask_loop.simps) (simp add: set_calls_def)
  also have "\<dots> = Some (?s\<lparr>trace := trace ?s @
      concat (map (set_calls E encode p sm vals) (mask_pins (m AND (m - 1))))\<rparr>)"
    by (rule Suc.hyps(1)) (use Suc.hyps(2) mask_pins_step [OF m] in simp)
  finally show ?case by (simp add: mask_pins_step [OF m])
qed

text \<open>
  Setting several pins of a PIO state machine (\<open>pio_sm_set_pins_with_mask_\<close>,
  and likewise the directions) ends for every mask, executes one single-pin
  \<open>SET\<close> per bit of the mask, lowest pin first, with that pin's value, and puts
  the pin configuration it found back; nothing else is touched.
\<close>

lemma pio_sm_set_pins_with_mask_sets:
  "pio_sm_set_pins_with_mask' E p sm vals m s = Some (s\<lparr>trace := trace s @ [Rd (PIO_PINCTRL p sm)] @
     concat (map (set_calls E Pio_set_pins p sm vals) (mask_pins m)) @
     [Wr (PIO_PINCTRL p sm) (word_of_int (resp E (trace s) (Rd (PIO_PINCTRL p sm))))]\<rparr>)"
  by (simp add: pio_sm_set_pins_with_mask'_def mask_loop_run)

section \<open>Consecutive pins\<close>

text \<open>Groups of at most five consecutive pins (modulo 32) that cover \<open>count\<close> pins from \<open>pin\<close>.\<close>

function pin_groups :: "nat \<Rightarrow> nat \<Rightarrow> (nat \<times> nat) list" where
  "pin_groups pin count =
     (if 5 < count then (pin, 5) # pin_groups ((pin + 5) mod 32) (count - 5) else [(pin, count)])"
  by pat_completeness auto
termination by (relation "measure snd") auto

declare pin_groups.simps [simp del]

definition group_calls :: "plat \<Rightarrow> pio \<Rightarrow> nat \<Rightarrow> bool \<Rightarrow> nat \<times> nat \<Rightarrow> call list" where
  "group_calls E p sm is_out g =
     [Wr (PIO_PINCTRL p sm) (set_pinctrl E (of_nat (snd g)) (of_nat (fst g))),
      Pio (Pio_sm_exec p sm (Pio_set_pindirs (if is_out then 0x1f else 0)))]"

definition group_pins :: "nat \<times> nat \<Rightarrow> nat list" where
  "group_pins g = map (\<lambda>i. (fst g + i) mod 32) [0..<snd g]"

lemma u32_and_0x1f: "(of_nat n :: u32) AND 0x1f = of_nat (n mod 32)"
proof -
  have "(of_nat n :: u32) AND 0x1f = of_nat n mod 32"
    using word_mod_2p_is_mask [of 5 "of_nat n :: u32"] by (simp add: mask_eq_exp_minus_1)
  also have "\<dots> = of_nat (n mod 32)"
  proof (rule word_unat_eq_iff [THEN iffD2])
    have "n mod 2 ^ 32 mod 32 = n mod 32" by (rule mod_mod_cancel) simp
    then show "unat (of_nat n mod 32 :: u32) = unat (of_nat (n mod 32) :: u32)"
      by (simp add: unat_mod_distrib unsigned_of_nat take_bit_eq_mod)
  qed
  finally show ?thesis .
qed

lemma pindirs_loop_run:
  assumes "count < 2 ^ 32"
  shows "\<exists>s' b c. pindirs_loop E p sm (if is_out then 0x1f else 0) (of_nat pin) (of_nat count) s = Some (of_nat b, of_nat c, s') \<and>
    emit (Pio (Pio_sm_exec p sm (Pio_set_pindirs (if is_out then 0x1f else 0))))
      (wr (PIO_PINCTRL p sm) (set_pinctrl E (of_nat c) (of_nat b)) s') =
      s\<lparr>trace := trace s @ concat (map (group_calls E p sm is_out) (pin_groups pin count))\<rparr>"
  using assms
proof (induction pin count arbitrary: s rule: pin_groups.induct)
  case (1 pin count)
  have unat: "unat (of_nat count :: u32) = count"
    using 1 by (simp add: unsigned_of_nat take_bit_nat_eq_self)
  have lt: "5 < (of_nat count :: u32) \<longleftrightarrow> 5 < count"
    unfolding word_less_nat_alt unat by simp
  show ?case
  proof (cases "5 < count")
    case True
    let ?s = "s\<lparr>trace := trace s @ group_calls E p sm is_out (pin, 5)\<rparr>"
    have "pindirs_loop E p sm (if is_out then 0x1f else 0) (of_nat pin) (of_nat count) s =
        pindirs_loop E p sm (if is_out then 0x1f else 0) (of_nat ((pin + 5) mod 32)) (of_nat (count - 5)) ?s"
      using True u32_and_0x1f [of "pin + 5"]
      by (subst pindirs_loop.simps) (simp add: lt group_calls_def of_nat_diff)
    with 1(1) [OF True, of ?s] 1(2) True show ?thesis
      by (simp only: pin_groups.simps [of pin count]) simp
  next
    case False
    then show ?thesis
      by (subst pindirs_loop.simps) (auto simp: lt group_calls_def pin_groups.simps [of pin count])
  qed
qed

lemma pin_groups_cover: "concat (map group_pins (pin_groups pin count)) = map (\<lambda>i. (pin + i) mod 32) [0..<count]"
proof (induction pin count rule: pin_groups.induct)
  case (1 pin count)
  show ?case
  proof (cases "5 < count")
    case True
    have "[0..<count] = [0..<5] @ map (\<lambda>i. 5 + i) [0..<count - 5]"
      using True upt_add_eq_append [of 0 5 "count - 5"] map_add_upt [of 5 "count - 5"] by (simp add: add.commute)
    moreover have "(\<lambda>i. ((pin + 5) mod 32 + i) mod 32) = (\<lambda>i. (pin + (5 + i)) mod 32)"
      by (simp add: fun_eq_iff mod_simps add.assoc)
    ultimately show ?thesis
      using 1 [OF True] True
      by (simp only: pin_groups.simps [of pin count] if_True list.map concat.simps)
        (simp only: group_pins_def fst_conv snd_conv map_append map_map comp_def)
  qed (simp add: pin_groups.simps [of pin count] group_pins_def)
qed

lemma pin_groups_small: "g \<in> set (pin_groups pin count) \<Longrightarrow> snd g \<le> 5"
  by (induction pin count rule: pin_groups.induct) (subst (asm) (2) pin_groups.simps, auto split: if_splits)

text \<open>
  \<open>pio_sm_set_consecutive_pindirs_\<close> ends for every number of pins, sets the
  directions in groups of at most five (the width of the \<open>SET\<close> field), the
  groups together are exactly the \<open>count\<close> pins from \<open>pin\<close> on, in order and
  wrapping round after pin 31, and the pin configuration is restored.
\<close>

lemma pio_sm_set_consecutive_pindirs_covers:
  "\<exists>gs. pio_sm_set_consecutive_pindirs' E p sm pin count is_out s =
      Some (s\<lparr>trace := trace s @ [Rd (PIO_PINCTRL p sm)] @ concat (map (group_calls E p sm is_out) gs) @
        [Wr (PIO_PINCTRL p sm) (word_of_int (resp E (trace s) (Rd (PIO_PINCTRL p sm))))]\<rparr>) \<and>
    list_all (\<lambda>g. snd g \<le> 5) gs \<and>
    concat (map group_pins gs) = map (\<lambda>i. (unat pin + i) mod 32) [0..<unat count]"
proof (intro exI conjI)
  let ?s = "emit (Rd (PIO_PINCTRL p sm)) s"
  have "unat count < 2 ^ 32" using unsigned_less [of count] by simp
  from pindirs_loop_run [OF this, of E p sm is_out "unat pin" ?s]
  obtain s' b c where
    run: "pindirs_loop E p sm (if is_out then 0x1f else 0) pin count ?s = Some (of_nat b, of_nat c, s')"
    and eq: "emit (Pio (Pio_sm_exec p sm (Pio_set_pindirs (if is_out then 0x1f else 0))))
      (wr (PIO_PINCTRL p sm) (set_pinctrl E (of_nat c) (of_nat b)) s') =
      ?s\<lparr>trace := trace ?s @ concat (map (group_calls E p sm is_out) (pin_groups (unat pin) (unat count)))\<rparr>"
    by (auto simp del: emit_def)
  show "pio_sm_set_consecutive_pindirs' E p sm pin count is_out s =
      Some (s\<lparr>trace := trace s @ [Rd (PIO_PINCTRL p sm)] @
        concat (map (group_calls E p sm is_out) (pin_groups (unat pin) (unat count))) @
        [Wr (PIO_PINCTRL p sm) (word_of_int (resp E (trace s) (Rd (PIO_PINCTRL p sm))))]\<rparr>)"
    by (simp only: pio_sm_set_consecutive_pindirs'_def Let_def rd_def prod.case run option.case eq) simp
  show "list_all (\<lambda>g. snd g \<le> 5) (pin_groups (unat pin) (unat count))"
    by (auto simp: list_all_iff dest: pin_groups_small)
qed (rule pin_groups_cover)

section \<open>Waiting for the line\<close>

text \<open>Reference: the first of at most \<open>n\<close> reads of the pin that is not zero.\<close>

fun first_high :: "plat \<Rightarrow> call \<Rightarrow> nat \<Rightarrow> call list \<Rightarrow> nat option" where
  "first_high E c 0 tr = None"
| "first_high E c (Suc n) tr =
     (if resp E tr c = 0 then map_option Suc (first_high E c n (tr @ [c])) else Some 0)"

lemma wait_high_loop_run:
  assumes "\<not> no_pin E pin"
  shows "wait_high_loop E pin n s =
    (let c = Gpio (Gpio_get (word_of_int pin)) in
     case first_high E c n (trace s) of
       None \<Rightarrow> (-1, s\<lparr>trace := trace s @ replicate n c\<rparr>)
     | Some k \<Rightarrow> (int n - int k - 1, s\<lparr>trace := trace s @ replicate (Suc k) c\<rparr>))"
  using assms
  by (induction n arbitrary: s) (auto simp: pin_get_def replicate_app_Cons_same split: option.split)

lemma first_high_less: "first_high E c n tr = Some k \<Longrightarrow> k < n"
  by (induction n arbitrary: tr k) (auto split: if_splits)

text \<open>
  \<open>uart_wait_high\<close> polls the line at most 50000 times, stops at the first
  read that is high, and returns 0 when that happens within the first 49999
  reads; otherwise it returns -1 (also when only the very last read is high).
\<close>

lemma uart_wait_high_result:
  assumes "uint (jacdac_pin s) \<noteq> NO_PIN E"
  shows "uart_wait_high E s =
    (let c = Gpio (Gpio_get (ucast (jacdac_pin s))) in
     case first_high E c 50000 (trace s) of
       None \<Rightarrow> (-1, s\<lparr>trace := trace s @ replicate 50000 c\<rparr>)
     | Some k \<Rightarrow> (if k < 49999 then 0 else -1, s\<lparr>trace := trace s @ replicate (Suc k) c\<rparr>))"
proof -
  have "\<not> no_pin E (uint (jacdac_pin s))" using assms by (simp add: no_pin_def)
  moreover have "word_of_int (uint (jacdac_pin s)) = (ucast (jacdac_pin s) :: u32)" by simp
  ultimately show ?thesis
    unfolding uart_wait_high_def by (simp add: wait_high_loop_run split: option.split del: replicate.simps)
qed

definition link_demo :: uart where
  "link_demo = \<lparr>trace = [Gpio (Gpio_set_irq_enabled 9 4 True)], irq_disabled = 0,
     dmaHandler = replicate 12 \<lparr>cb_context = None, cb_handler = None\<rparr>, timer_cb = None, int2 = 0,
     last_delay = 0, last_delay_now = 0, exti_cb = replicate 30 None, exti_ev = replicate 30 0,
     dmachTx = 1, dmachRx = 0, txprog = 0, rxprog = 4, smtx = 0, smrx = 1, uart_status = STATUS_IDLE,
     jacdac_pin = 9\<rparr>"

end
