(* ===== verification/Link.thy ===== *)
theory Link
  imports Uart
begin

text \<open>
  The half-duplex link of \<open>uart.c\<close> as a state machine: what the boundary trace
  says about the two PIO state machines and the interrupts of the line, the
  invariant that ties it to \<open>uart_status\<close> and to the DMA handler table, its
  preservation by every operation, and the reachable states of arbitrary
  interleavings of requests and interrupts.
\<close>

section \<open>The link as a state machine\<close>

text \<open>
  What the trace says about the link: which of the two state machines runs,
  whether the break interrupt of the receiver and the pin-change interrupt of
  the line are enabled. \<open>pin\<close> is the Jacdac pin.
\<close>

record link =
  tx_on :: bool
  rx_on :: bool
  brk_irq :: bool
  exti_on :: bool

definition link_step :: "u8 \<Rightarrow> call \<Rightarrow> link \<Rightarrow> link" where
  "link_step pin c l = (case c of
     Pio pc \<Rightarrow> (case pc of
         Pio_sm_set_enabled p sm b \<Rightarrow>
           (if p = pio0 \<and> sm = 0 then l\<lparr>tx_on := b\<rparr> else if p = pio0 \<and> sm = 1 then l\<lparr>rx_on := b\<rparr> else l)
       | Pio_set_irq0_source_interrupt1 p b \<Rightarrow> (if p = pio0 then l\<lparr>brk_irq := b\<rparr> else l)
       | _ \<Rightarrow> l)
   | Gpio gc \<Rightarrow> (case gc of
         Gpio_set_irq_enabled q ev b \<Rightarrow> (if q = ucast pin then l\<lparr>exti_on := b\<rparr> else l)
       | _ \<Rightarrow> l)
   | _ \<Rightarrow> l)"

declare link_step_def [simp]

definition link_of :: "u8 \<Rightarrow> call list \<Rightarrow> link" where
  "link_of pin tr = fold (link_step pin) tr \<lparr>tx_on = False, rx_on = False, brk_irq = False, exti_on = False\<rparr>"

lemma link_of_append [simp]: "link_of pin (tr @ cs) = fold (link_step pin) cs (link_of pin tr)"
  by (simp add: link_of_def)

text \<open>The part of the state the link depends on.\<close>

definition link_obs :: "'a uart_scheme \<Rightarrow>
    link \<times> u16 \<times> u8 \<times> u8 \<times> u8 \<times> int \<times> int \<times> DMAHandler list \<times> u8 list" where
  "link_obs s = (link_of (jacdac_pin s) (trace s), uart_status s, jacdac_pin s, smtx s, smrx s,
     dmachTx s, dmachRx s, dmaHandler s, exti_ev s)"

text \<open>Calls that do not concern the link.\<close>

definition quiet :: "u8 \<Rightarrow> call list \<Rightarrow> bool" where
  "quiet pin cs \<longleftrightarrow> (\<forall>l. fold (link_step pin) cs l = l)"

lemma quiet_Nil [simp]: "quiet pin []"
  by (simp add: quiet_def)

lemma quiet_append: "quiet pin cs \<Longrightarrow> quiet pin ds \<Longrightarrow> quiet pin (cs @ ds)"
  by (simp add: quiet_def)

lemma quiet_concat: "(\<And>x. x \<in> set xs \<Longrightarrow> quiet pin (f x)) \<Longrightarrow> quiet pin (concat (map f xs))"
  by (induction xs) (auto intro: quiet_append)

lemma link_obs_quiet: "quiet (jacdac_pin s) cs \<Longrightarrow> link_obs (s\<lparr>trace := trace s @ cs\<rparr>) = link_obs s"
  by (simp add: link_obs_def quiet_def)

lemma wait_loop_trace:
  assumes "wait_loop E start n s = Some t"
  shows "\<exists>k. t = s\<lparr>trace := trace s @ replicate k (Rd TIMER_TIMERAWL)\<rparr>"
proof (rule wait_loop.raw_induct [OF _ assms])
  fix f E start n s t
  let ?s = "s\<lparr>trace := trace s @ [Rd TIMER_TIMERAWL]\<rparr>"
  assume IH: "\<And>E start n s t. f E start n s = Some t \<Longrightarrow>
      \<exists>k. t = s\<lparr>trace := trace s @ replicate k (Rd TIMER_TIMERAWL)\<rparr>"
    and eq: "(let (t, s) = rd E TIMER_TIMERAWL s in if t - start < n then f E start n s else Some s) = Some t"
  show "\<exists>k. t = s\<lparr>trace := trace s @ replicate k (Rd TIMER_TIMERAWL)\<rparr>"
  proof (cases "word_of_int (resp E (trace s) (Rd TIMER_TIMERAWL)) - start < n")
    case True
    with eq have "f E start n ?s = Some t" by simp
    from IH [OF this] obtain k where "t = s\<lparr>trace := trace s @ replicate (Suc k) (Rd TIMER_TIMERAWL)\<rparr>"
      by auto
    then show ?thesis by blast
  next
    case False
    with eq have "t = s\<lparr>trace := trace s @ replicate 1 (Rd TIMER_TIMERAWL)\<rparr>" by simp
    then show ?thesis by blast
  qed
qed

lemma quiet_replicate_Rd: "quiet pin (replicate k (Rd r))"
  unfolding quiet_def by (induction k) simp_all

lemma link_obs_wait: "target_wait_us E n s = Some t \<Longrightarrow> link_obs t = link_obs s"
proof -
  assume "target_wait_us E n s = Some t"
  then obtain k where "t = s\<lparr>trace := (trace s @ [Rd TIMER_TIMERAWL]) @ replicate k (Rd TIMER_TIMERAWL)\<rparr>"
    by (auto simp: target_wait_us_def dest!: wait_loop_trace)
  then have "t = s\<lparr>trace := trace s @ replicate (Suc k) (Rd TIMER_TIMERAWL)\<rparr>" by simp
  then show ?thesis by (simp only: link_obs_quiet quiet_replicate_Rd)
qed

lemma stall_loop_trace:
  fixes s t :: "'a uart_scheme"
  assumes "stall_loop E s = Some t"
  shows "\<exists>k. t = s\<lparr>trace := trace s @ replicate k (Rd (PIO_FDEBUG pio0))\<rparr>"
proof (rule stall_loop.raw_induct [OF _ assms])
  fix f E and s t :: "'a uart_scheme"
  let ?s = "s\<lparr>trace := trace s @ [Rd (PIO_FDEBUG pio0)]\<rparr>"
  assume IH: "\<And>E (s :: 'a uart_scheme) t. f E s = Some t \<Longrightarrow>
      \<exists>k. t = s\<lparr>trace := trace s @ replicate k (Rd (PIO_FDEBUG pio0))\<rparr>"
    and eq: "(let (v, s) = rd E (PIO_FDEBUG pio0) s in if v AND tx_stall_bit E s = 0 then f E s else Some s) = Some t"
  show "\<exists>k. t = s\<lparr>trace := trace s @ replicate k (Rd (PIO_FDEBUG pio0))\<rparr>"
  proof (cases "word_of_int (resp E (trace s) (Rd (PIO_FDEBUG pio0))) AND tx_stall_bit E ?s = 0")
    case True
    with eq have "f E ?s = Some t" by simp
    from IH [OF this] obtain k where "t = s\<lparr>trace := trace s @ replicate (Suc k) (Rd (PIO_FDEBUG pio0))\<rparr>"
      by auto
    then show ?thesis by blast
  next
    case False
    with eq have "t = s\<lparr>trace := trace s @ replicate 1 (Rd (PIO_FDEBUG pio0))\<rparr>" by simp
    then show ?thesis by blast
  qed
qed

lemma link_obs_stall: "stall_loop E s = Some t \<Longrightarrow> link_obs t = link_obs s"
  by (auto dest!: stall_loop_trace simp: link_obs_quiet quiet_replicate_Rd)

lemma pin_ops_quiet [simp]:
  "link_obs (pin_set E pin v s) = link_obs s"
  "link_obs (pin_setup_output E pin s) = link_obs s"
  "link_obs (pin_setup_input E pin pull s) = link_obs s"
  "link_obs (pin_setup_output_af E pin af s) = link_obs s"
  "link_obs (pin_set_pull E pin pull s) = link_obs s"
  "link_obs (pio_gpio_init' E p q s) = link_obs s"
  by (simp_all add: link_obs_def pin_set_def pin_setup_output_def pin_setup_input_def pin_set_pull_def
      pin_setup_output_af_def pio_gpio_init'_def gpio_set_function'_def gpio_set_pulls'_def)

lemma irq_ops_quiet [simp]:
  "link_obs (target_disable_irq s) = link_obs s"
  "link_obs (target_enable_irq s) = link_obs s"
  by (simp_all add: link_obs_def irq_defs)

lemma mask_ops_quiet:
  assumes "\<And>v. encode v = Pio_set_pins v \<or> encode v = Pio_set_pindirs v"
  shows "quiet pin (concat (map (set_calls E encode p sm vals) is))"
  by (rule quiet_concat) (simp add: quiet_def set_calls_def)

lemma link_obs_tx_arm: "jd_tx_arm_pin E p sm pin s = Inr t \<Longrightarrow> link_obs t = link_obs s"
proof -
  have q: "fold (link_step j) (concat (map (set_calls E Pio_set_pins p sm v) is)) l = l"
    "fold (link_step j) (concat (map (set_calls E Pio_set_pindirs p sm v) is)) l = l" for j v "is" l
    using mask_ops_quiet [of Pio_set_pins] mask_ops_quiet [of Pio_set_pindirs] by (simp_all add: quiet_def)
  assume "jd_tx_arm_pin E p sm pin s = Inr t"
  then show ?thesis
    by (auto simp: jd_tx_arm_pin_def pio_sm_set_pins_with_mask'_def pio_sm_set_pindirs_with_mask'_def mask_loop_run)
      (simp add: link_obs_def q)
qed

lemma set_one_pindir: "pio_sm_set_consecutive_pindirs' E p sm pin 1 is_out s =
    Some (s\<lparr>trace := trace s @ [Rd (PIO_PINCTRL p sm), Wr (PIO_PINCTRL p sm) (set_pinctrl E 1 pin),
      Pio (Pio_sm_exec p sm (Pio_set_pindirs (if is_out then 0x1f else 0))),
      Wr (PIO_PINCTRL p sm) (word_of_int (resp E (trace s) (Rd (PIO_PINCTRL p sm))))]\<rparr>)"
  unfolding pio_sm_set_consecutive_pindirs'_def by (subst pindirs_loop.simps) simp

section \<open>The invariant\<close>

abbreviation idle_link :: link where
  "idle_link \<equiv> \<lparr>tx_on = False, rx_on = False, brk_irq = False, exti_on = True\<rparr>"

abbreviation tx_link :: link where
  "tx_link \<equiv> \<lparr>tx_on = True, rx_on = False, brk_irq = False, exti_on = False\<rparr>"

abbreviation rx_link :: link where
  "rx_link \<equiv> \<lparr>tx_on = False, rx_on = True, brk_irq = True, exti_on = False\<rparr>"

text \<open>The configuration \<open>uart_init_\<close> leaves behind.\<close>

definition uart_cfg :: "plat \<Rightarrow> 'a uart_scheme \<Rightarrow> bool" where
  "uart_cfg E s \<longleftrightarrow> uint (jacdac_pin s) \<noteq> NO_PIN E \<and> smtx s = 0 \<and> smrx s = 1 \<and>
     unat (jacdac_pin s) < length (exti_ev s) \<and> length (dmaHandler s) = DMA_CHANNELS \<and>
     0 \<le> dmachTx s \<and> dmachTx s < 12 \<and> 0 \<le> dmachRx s \<and> dmachRx s < 12 \<and> dmachTx s \<noteq> dmachRx s"

text \<open>The handlers of the link are registered on its own channels only.\<close>

definition slot_of :: "int \<Rightarrow> 'a dma_scheme \<Rightarrow> dma_cb option" where
  "slot_of ch s = cb_handler (dmaHandler s ! nat ch)"

definition owners :: "'a uart_scheme \<Rightarrow> bool" where
  "owners s \<longleftrightarrow> slot_of (dmachTx s) s \<in> {None, Some Uart_tx_handler} \<and>
     slot_of (dmachRx s) s \<in> {None, Some Uart_rx_handler} \<and>
     (\<forall>ch<DMA_CHANNELS. (cb_handler (dmaHandler s ! ch) = Some Uart_tx_handler \<longrightarrow> ch = nat (dmachTx s)) \<and>
        (cb_handler (dmaHandler s ! ch) = Some Uart_rx_handler \<longrightarrow> ch = nat (dmachRx s)))"

text \<open>
  The three states of the link. A receive handler may outlive its reception
  (see the last property of this theory), so it is only known to be there
  while receiving.
\<close>

definition uart_inv :: "plat \<Rightarrow> 'a uart_scheme \<Rightarrow> bool" where
  "uart_inv E s \<longleftrightarrow> uart_cfg E s \<and> owners s \<and>
     (slot_of (dmachTx s) s \<noteq> None \<longleftrightarrow> uart_status s = STATUS_TX) \<and>
     (uart_status s = STATUS_RX \<longrightarrow> slot_of (dmachRx s) s \<noteq> None) \<and>
     (uart_status s, link_of (jacdac_pin s) (trace s)) \<in>
        {(STATUS_IDLE, idle_link), (STATUS_TX, tx_link), (STATUS_RX, rx_link)}"

lemma link_obs_eqD:
  assumes "link_obs t = link_obs s"
  shows "link_of (jacdac_pin t) (trace t) = link_of (jacdac_pin s) (trace s)"
    "uart_status t = uart_status s" "jacdac_pin t = jacdac_pin s" "smtx t = smtx s" "smrx t = smrx s"
    "dmachTx t = dmachTx s" "dmachRx t = dmachRx s" "dmaHandler t = dmaHandler s" "exti_ev t = exti_ev s"
  using assms by (simp_all add: link_obs_def) metis

lemma link_obs_keeps:
  assumes "link_obs t = link_obs s"
  shows "uart_cfg E t = uart_cfg E s" "owners t = owners s" "uart_inv E t = uart_inv E s"
  using link_obs_eqD [OF assms] by (simp_all add: uart_cfg_def owners_def uart_inv_def slot_of_def)

lemmas pin_mode_defs = pin_set_def pin_setup_output_def pin_setup_input_def pin_set_pull_def
  pin_setup_output_af_def gpio_set_function'_def gpio_set_pulls'_def pio_gpio_init'_def

lemma uart_disable_obs:
  assumes "uart_cfg E s"
  shows "\<exists>t. uart_disable E s = Inr t \<and> link_obs t = (idle_link, STATUS_IDLE, jacdac_pin s, smtx s, smrx s,
    dmachTx s, dmachRx s, dmaHandler s, exti_ev s)"
proof -
  have "\<not> no_pin E (uint (jacdac_pin s))" using assms by (simp add: uart_cfg_def no_pin_def)
  then show ?thesis
    using assms by (simp add: uart_disable_def uart_cfg_def exti_enable_def irq_defs link_obs_def pin_mode_defs)
qed

lemma disable_inv:
  assumes "uart_cfg E s" "owners s" "slot_of (dmachTx s) s = None" "uart_disable E s = Inr t"
  shows "uart_inv E t" "uart_status t = STATUS_IDLE" "dmaHandler t = dmaHandler s" "dmachRx t = dmachRx s"
proof -
  obtain t' where "uart_disable E s = Inr t'" "link_obs t' = (idle_link, STATUS_IDLE, jacdac_pin s, smtx s, smrx s,
    dmachTx s, dmachRx s, dmaHandler s, exti_ev s)"
    using uart_disable_obs [OF assms(1)] by blast
  with assms(4) have "link_obs t = (idle_link, STATUS_IDLE, jacdac_pin s, smtx s, smrx s,
    dmachTx s, dmachRx s, dmaHandler s, exti_ev s)" by simp
  with assms show "uart_inv E t" "uart_status t = STATUS_IDLE" "dmaHandler t = dmaHandler s" "dmachRx t = dmachRx s"
    by (auto simp: link_obs_def uart_inv_def uart_cfg_def owners_def slot_of_def status_defs)
qed

section \<open>Every operation keeps the invariant\<close>

lemma rx_done_inv:
  assumes "uart_cfg E s" "owners s" "uart_status s = STATUS_RX" "slot_of (dmachTx s) s = None"
    and "\<And>x s s'. jd_rx_completed R x s = Inr s' \<Longrightarrow> link_obs s' = link_obs s"
    and "rx_done E R s = Inr t"
  shows "uart_inv E t"
proof -
  let ?s = "s\<lparr>uart_status := uart_status s AND NOT STATUS_RX\<rparr>"
  have "uart_cfg E ?s" "owners ?s" "slot_of (dmachTx ?s) ?s = None"
    using assms by (simp_all add: uart_cfg_def owners_def slot_of_def)
  moreover obtain u where u: "uart_disable E ?s = Inr u" "jd_rx_completed R 0 u = Inr t"
    using assms(3,6) by (auto simp: rx_done_def bindE_eq_Inr status_defs)
  ultimately have "uart_inv E u" using disable_inv(1) by blast
  with link_obs_keeps(3) [OF assms(5) [OF u(2)]] show ?thesis by simp
qed

lemma isr_pio0_0_inv:
  assumes "uart_inv E s" "\<And>x s s'. jd_rx_completed R x s = Inr s' \<Longrightarrow> link_obs s' = link_obs s"
    "isr_pio0_0 E R s = Inr t"
  shows "uart_inv E t"
proof -
  let ?n = "word_of_int (resp E (trace s) (Rd (PIO_IRQ pio0))) :: u32"
  let ?s = "wr (PIO_IRQ pio0) ?n (emit (Rd (PIO_IRQ pio0)) s)"
  have "link_obs ?s = link_obs s" by (simp add: link_obs_def)
  note k = link_obs_keeps [OF this] link_obs_eqD [OF this]
  show ?thesis
  proof (cases "?n AND PIO_BREAK_IRQ \<noteq> 0 \<and> uart_status s = STATUS_RX")
    case True
    then have "rx_done E R ?s = Inr t" using assms(3) by (simp add: isr_pio0_0_def)
    moreover have "slot_of (dmachTx ?s) ?s = None"
      using assms(1) True by (auto simp: uart_inv_def slot_of_def status_defs)
    ultimately show ?thesis
      using True assms(1,2) k by (intro rx_done_inv [of E ?s R t]) (simp_all add: uart_inv_def)
  next
    case False
    moreover have "uart_status s AND STATUS_RX = 0" if "uart_status s \<noteq> STATUS_RX"
      using assms(1) that by (auto simp: uart_inv_def status_defs)
    ultimately have "t = ?s"
      using assms(3) by (auto simp: isr_pio0_0_def rx_done_def split: if_splits)
    then show ?thesis using k(3) assms(1) by simp
  qed
qed

lemma chan_u8:
  assumes "0 \<le> c" "c < 12"
  shows "unat (word_of_int c :: u8) = nat c" "\<not> (12 :: u8) \<le> word_of_int c"
proof -
  show *: "unat (word_of_int c :: u8) = nat c"
    using assms by (simp add: unsigned_of_int take_bit_int_eq_self nat_take_bit_eq take_bit_nat_eq_self)
  show "\<not> (12 :: u8) \<le> word_of_int c"
    unfolding word_le_nat_alt * using assms by simp
qed

lemma DMAHandler_set: "(h :: DMAHandler)\<lparr>cb_handler := a, cb_context := b\<rparr> = \<lparr>cb_context = b, cb_handler = a\<rparr>"
  by (cases h) simp

lemma ucast_back: "(ucast (ucast p :: u32) :: u8) = p"
  by (rule bit_word_eqI) (auto simp: bit_simps)

lemma dma_set_ch_cb_run:
  assumes "0 \<le> c" "c < 12" "length (dmaHandler s) = DMA_CHANNELS"
  shows "dma_set_ch_cb E (word_of_int c) f x s =
    (if slot_of c s = None
     then Inr (s\<lparr>dmaHandler := (dmaHandler s)[nat c := \<lparr>cb_context = x, cb_handler = Some f\<rparr>],
       trace := trace s @ [Wr DMA_INTS0 (bit32 (nat c)), Dma (Dma_channel_set_irq0_enabled (nat c) True),
         Wr NVIC_ICPR (push_bit (unat (of_nat (DMA_IRQ_0 E) :: u32)) 1),
         Wr NVIC_ISER (push_bit (unat (of_nat (DMA_IRQ_0 E) :: u32)) 1)]\<rparr>)
     else Inl Assert_failed)"
  using assms
  by (simp add: dma_set_ch_cb_def chan_u8 slot_of_def jd_assert_def nvic_defs DMAHandler_set)

lemma jd_rx_arm_pin_run:
  assumes "uart_cfg E s"
  shows "\<exists>t. jd_rx_arm_pin E p sm (ucast (jacdac_pin s)) s = Inr t \<and>
    link_obs t = (case link_obs s of (l, r) \<Rightarrow> (l\<lparr>exti_on := False\<rparr>, r))"
proof -
  have "unat (ucast (ucast (jacdac_pin s) :: u32) :: u8) < length (exti_ev s)"
    using assms by (simp add: uart_cfg_def ucast_back)
  then show ?thesis
    by (simp add: jd_rx_arm_pin_def set_one_pindir exti_disable_def link_obs_def pin_mode_defs ucast_back)
qed

lemma uart_start_rx_run:
  assumes "uart_cfg E s"
  shows "if slot_of (dmachRx s) s = None
    then \<exists>t. uart_start_rx E data len s = Inr t \<and>
      link_obs t = ((link_of (jacdac_pin s) (trace s))\<lparr>exti_on := False, rx_on := True, brk_irq := True\<rparr>,
        STATUS_RX, jacdac_pin s, smtx s, smrx s, dmachTx s, dmachRx s,
        (dmaHandler s)[nat (dmachRx s) := \<lparr>cb_context = None, cb_handler = Some Uart_rx_handler\<rparr>], exti_ev s)
    else uart_start_rx E data len s = Inl Assert_failed"
proof -
  let ?s = "s\<lparr>uart_status := STATUS_RX\<rparr>"
  have "uart_cfg E ?s" using assms by (simp add: uart_cfg_def)
  from jd_rx_arm_pin_run [OF this, of pio0 "unat (smrx s)"] obtain t where
    t: "jd_rx_arm_pin E pio0 (unat (smrx s)) (ucast (jacdac_pin s)) ?s = Inr t"
    and obs: "link_obs t = (case link_obs ?s of (l, r) \<Rightarrow> (l\<lparr>exti_on := False\<rparr>, r))" by auto
  have o: "link_of (jacdac_pin s) (trace t) = (link_of (jacdac_pin s) (trace s))\<lparr>exti_on := False\<rparr>"
    "uart_status t = STATUS_RX" "jacdac_pin t = jacdac_pin s" "smtx t = smtx s" "smrx t = 1"
    "dmachTx t = dmachTx s" "dmachRx t = dmachRx s" "dmaHandler t = dmaHandler s" "exti_ev t = exti_ev s"
    using obs assms by (auto simp: link_obs_def uart_cfg_def)
  have cfg: "smrx s = 1" "0 \<le> dmachRx s" "dmachRx s < 12" "length (dmaHandler s) = DMA_CHANNELS"
    "uint (jacdac_pin s) \<noteq> NO_PIN E" using assms by (auto simp: uart_cfg_def)
  show ?thesis
    using t cfg o by (simp add: uart_start_rx_def dma_set_ch_cb_run slot_of_def link_obs_def)
qed

lemma owners_update:
  assumes "owners s" "uart_cfg E s" "dmachTx t = dmachTx s" "dmachRx t = dmachRx s"
    and "dmaHandler t = (dmaHandler s)[k := h]"
    and "k = nat (dmachTx s) \<and> cb_handler h \<in> {None, Some Uart_tx_handler} \<or>
      k = nat (dmachRx s) \<and> cb_handler h \<in> {None, Some Uart_rx_handler}"
  shows "owners t"
proof -
  have k: "k < length (dmaHandler s)" and ne: "nat (dmachTx s) \<noteq> nat (dmachRx s)"
    using assms(2,6) by (auto simp: uart_cfg_def)
  then have nth: "dmaHandler t ! ch = (if ch = k then h else dmaHandler s ! ch)" for ch
    using assms(5) by (simp add: nth_list_update)
  have old: "cb_handler (dmaHandler s ! nat (dmachTx s)) \<in> {None, Some Uart_tx_handler}"
    "cb_handler (dmaHandler s ! nat (dmachRx s)) \<in> {None, Some Uart_rx_handler}"
    "\<And>ch. ch < DMA_CHANNELS \<Longrightarrow> cb_handler (dmaHandler s ! ch) = Some Uart_tx_handler \<Longrightarrow> ch = nat (dmachTx s)"
    "\<And>ch. ch < DMA_CHANNELS \<Longrightarrow> cb_handler (dmaHandler s ! ch) = Some Uart_rx_handler \<Longrightarrow> ch = nat (dmachRx s)"
    using assms(1) by (auto simp: owners_def slot_of_def)
  show ?thesis
    unfolding owners_def slot_of_def nth assms(3,4)
    using old assms(6) ne by (intro conjI allI impI) (auto split: if_splits)
qed

lemma start_rx_inv:
  assumes "uart_cfg E s" "owners s" "slot_of (dmachTx s) s = None" "uart_start_rx E data len s = Inr t"
    and "\<not> tx_on (link_of (jacdac_pin s) (trace s))"
  shows "uart_inv E t"
proof -
  have obs: "link_obs t = ((link_of (jacdac_pin s) (trace s))\<lparr>exti_on := False, rx_on := True, brk_irq := True\<rparr>,
        STATUS_RX, jacdac_pin s, smtx s, smrx s, dmachTx s, dmachRx s,
        (dmaHandler s)[nat (dmachRx s) := \<lparr>cb_context = None, cb_handler = Some Uart_rx_handler\<rparr>], exti_ev s)"
    using uart_start_rx_run [OF assms(1), of data len] assms(4) by (auto split: if_splits)
  have ne: "nat (dmachTx s) \<noteq> nat (dmachRx s)" using assms(1) by (auto simp: uart_cfg_def)
  have l: "(link_of (jacdac_pin s) (trace s))\<lparr>exti_on := False, rx_on := True, brk_irq := True\<rparr> = rx_link"
    using assms(5) by (cases "link_of (jacdac_pin s) (trace s)") simp
  have "owners t"
    by (rule owners_update [OF assms(2,1), where k = "nat (dmachRx s)"]) (use obs in \<open>auto simp: link_obs_def\<close>)
  moreover have "uart_cfg E t" using obs assms(1) by (simp add: link_obs_def uart_cfg_def)
  ultimately show ?thesis
    using obs l ne assms(1,3)
    by (auto simp: link_obs_def uart_inv_def uart_cfg_def slot_of_def status_defs)
qed

lemma tx_handler_inv:
  assumes "uart_cfg E s" "owners s" "slot_of (dmachTx s) s = None"
    and "\<And>x s s'. jd_tx_completed R x s = Inr s' \<Longrightarrow> link_obs s' = link_obs s"
    and "tx_handler E R c s = Inr t"
  shows "uart_inv E t"
proof -
  let ?pin = "uint (jacdac_pin s)"
  let ?s1 = "wr (PIO_FDEBUG pio0) (tx_stall_bit E s) s"
  from assms(5) obtain s2 where s2: "stall_loop E ?s1 = Some s2"
    by (cases "stall_loop E ?s1") (auto simp: tx_handler_def)
  have "link_obs ?s1 = link_obs s" by (simp add: link_obs_def)
  then have o2: "link_obs s2 = link_obs s" using link_obs_stall [OF s2] by simp
  let ?s3 = "pin_setup_output_af E (uint (jacdac_pin s2)) GPIO_FUNC_SIO (pin_setup_output E (uint (jacdac_pin s2))
    (pin_set E (uint (jacdac_pin s2)) 1 s2))"
  from assms(5) s2 obtain s4 where s4: "target_wait_us E 1 ?s3 = Some s4"
    by (cases "target_wait_us E 1 ?s3") (auto simp: tx_handler_def)
  let ?s5 = "pin_set E (uint (jacdac_pin s2)) 0 s4"
  from assms(5) s2 s4 obtain s6 where s6: "target_wait_us E 12 ?s5 = Some s6"
    by (cases "target_wait_us E 12 ?s5") (auto simp: tx_handler_def)
  let ?s7 = "pin_set E (uint (jacdac_pin s2)) 1 s6"
  have "link_obs ?s7 = link_obs s"
    using link_obs_wait [OF s4] link_obs_wait [OF s6] o2 by simp
  note k = link_obs_keeps [OF this] link_obs_eqD [OF this]
  from assms(5) s2 s4 s6 obtain u where u: "uart_disable E ?s7 = Inr u" "jd_tx_completed R 0 u = Inr t"
    by (auto simp: tx_handler_def bindE_eq_Inr)
  have "uart_inv E u"
    using assms(1,2,3) k by (intro disable_inv(1) [OF _ _ _ u(1)]) (simp_all add: slot_of_def)
  with link_obs_keeps(3) [OF assms(4) [OF u(2)]] show ?thesis by simp
qed

text \<open>
  What the link relies on in the Jacdac runtime: the completion callbacks leave
  the link alone, and \<open>jd_line_falling\<close> either starts a reception or gives up
  and disables the link.
\<close>

definition runtime_ok :: "plat \<Rightarrow> 'a uart_scheme jdrt \<Rightarrow> bool" where
  "runtime_ok E R \<longleftrightarrow>
     (\<forall>x s s'. jd_rx_completed R x s = Inr s' \<longrightarrow> link_obs s' = link_obs s) \<and>
     (\<forall>x s s'. jd_tx_completed R x s = Inr s' \<longrightarrow> link_obs s' = link_obs s) \<and>
     (\<forall>s. (\<exists>data len. jd_line_falling R s = uart_start_rx E data len s) \<or> jd_line_falling R s = uart_disable E s)"

lemma start_tx_claimed_inv:
  assumes "uart_cfg E s" "owners s" "slot_of (dmachTx s) s = None"
    and "\<not> tx_on (link_of (jacdac_pin s) (trace s))" "runtime_ok E R" "jd_line_falling R s = Inr t"
  shows "uart_inv E t"
  using assms start_rx_inv disable_inv(1) unfolding runtime_ok_def by metis

lemma start_tx_send_inv:
  assumes "uart_cfg E s" "owners s" "slot_of (dmachTx s) s = None" "uart_status s = STATUS_TX"
    and "link_of (jacdac_pin s) (trace s) = tx_link"
    and "dma_set_ch_cb E (word_of_int (dmachTx s)) Uart_tx_handler None s = Inr u"
    and "t = wr (PIO_FDEBUG pio0) v (emit (Dma (Dma_channel_transfer_from_buffer_now c data len)) u)"
  shows "uart_inv E t"
proof -
  have c: "0 \<le> dmachTx s" "dmachTx s < 12" "length (dmaHandler s) = DMA_CHANNELS"
    using assms(1) by (auto simp: uart_cfg_def)
  let ?h = "\<lparr>cb_context = None, cb_handler = Some Uart_tx_handler\<rparr>"
  have obs: "link_obs t = (tx_link, STATUS_TX, jacdac_pin s, smtx s, smrx s, dmachTx s, dmachRx s,
      (dmaHandler s)[nat (dmachTx s) := ?h], exti_ev s)"
    using assms(3-7) by (auto simp: dma_set_ch_cb_run [OF c] link_obs_def)
  have "owners t"
    by (rule owners_update [OF assms(2,1), where k = "nat (dmachTx s)" and h = ?h])
      (use obs in \<open>auto simp: link_obs_def\<close>)
  moreover have "uart_cfg E t" using obs assms(1) by (simp add: link_obs_def uart_cfg_def)
  ultimately show ?thesis
    using obs c by (auto simp: uart_inv_def link_obs_def slot_of_def status_defs)
qed

text \<open>The three ways through \<open>uart_start_tx\<close> with a Jacdac pin.\<close>

lemma uart_start_tx_cases:
  assumes "uart_start_tx E R data len s = Inr (r, t)" "uint (jacdac_pin s) \<noteq> NO_PIN E"
  obtains (receiving) "exti_disable (jacdac_pin s) s = Inr t" "uart_status t AND STATUS_RX \<noteq> 0"
  | (taken) s1 s3 u where "exti_disable (jacdac_pin s) s = Inr s1" "uart_status s1 = 0"
      "gpio_probe_and_set E (bit32 (unat (jacdac_pin s))) (pin_set E (uint (jacdac_pin s)) 0 (s1\<lparr>uart_status := STATUS_TX\<rparr>)) = (0, s3)"
      "jd_line_falling R (target_disable_irq s3) = Inr u" "t = target_enable_irq u"
  | (sent) s1 q s3 s4 s6 s7 u where "exti_disable (jacdac_pin s) s = Inr s1" "uart_status s1 = 0"
      "gpio_probe_and_set E (bit32 (unat (jacdac_pin s))) (pin_set E (uint (jacdac_pin s)) 0 (s1\<lparr>uart_status := STATUS_TX\<rparr>)) = (q, s3)"
      "target_wait_us E 12 s3 = Some s4" "target_wait_us E 49 (pin_set E (uint (jacdac_pin s)) 1 s4) = Some s6"
      "jd_tx_arm_pin E pio0 (unat (smtx s6)) (ucast (jacdac_pin s)) s6 = Inr s7"
      "dma_set_ch_cb E (word_of_int (dmachTx s7)) Uart_tx_handler None
        (emit (Pio (Pio_sm_set_enabled pio0 (unat (smtx s7)) True)) s7) = Inr u"
      "t = wr (PIO_FDEBUG pio0) (tx_stall_bit E (emit (Dma (Dma_channel_transfer_from_buffer_now (dmachTx u) data len)) u))
        (emit (Dma (Dma_channel_transfer_from_buffer_now (dmachTx u) data len)) u)"
proof -
  from assms obtain s1 where s1: "exti_disable (jacdac_pin s) s = Inr s1" by (auto simp: uart_start_tx_def bindE_eq_Inr)
  obtain q s3 where probe: "gpio_probe_and_set E (bit32 (unat (jacdac_pin s)))
      (pin_set E (uint (jacdac_pin s)) 0 (s1\<lparr>uart_status := STATUS_TX\<rparr>)) = (q, s3)" by force
  show thesis
  proof (cases "uart_status s1 AND STATUS_RX \<noteq> 0")
    case True
    then show thesis using assms s1 receiving by (auto simp: uart_start_tx_def)
  next
    case False
    then show thesis
      using assms s1 probe taken [of s1 s3] sent [of s1 q s3]
      by (cases "q = 0") (auto simp: uart_start_tx_def bindE_eq_Inr of_loop_def split: option.splits)
  qed
qed

lemma uart_start_tx_inv:
  assumes inv: "uart_inv E s" and R: "runtime_ok E R" and run: "uart_start_tx E R data len s = Inr (r, t)"
  shows "uart_inv E t"
proof -
  let ?pin = "jacdac_pin s"
  define s1 where "s1 = emit (Gpio (Gpio_set_irq_enabled (ucast ?pin) (ucast (exti_ev s ! unat ?pin)) False)) s"
  have cfg: "uart_cfg E s" and own: "owners s" using inv by (simp_all add: uart_inv_def)
  then have pin: "uint ?pin \<noteq> NO_PIN E" and ex: "exti_disable ?pin s = Inr s1"
    by (simp_all add: uart_cfg_def exti_disable_def s1_def)
  have obs1: "link_of ?pin (trace s1) = (link_of ?pin (trace s))\<lparr>exti_on := False\<rparr>" "uart_status s1 = uart_status s"
    "jacdac_pin s1 = ?pin" "smtx s1 = smtx s" "smrx s1 = smrx s" "dmachTx s1 = dmachTx s" "dmachRx s1 = dmachRx s"
    "dmaHandler s1 = dmaHandler s" "exti_ev s1 = exti_ev s"
    by (simp_all add: s1_def)
  have k1: "uart_cfg E s1" "owners s1" "slot_of (dmachTx s1) s1 = slot_of (dmachTx s) s"
    using cfg own by (simp_all add: uart_cfg_def owners_def slot_of_def s1_def)
  have probed: "uart_cfg E s3 \<and> owners s3 \<and> slot_of (dmachTx s3) s3 = None \<and> uart_status s3 = STATUS_TX \<and>
      jacdac_pin s3 = ?pin \<and> smtx s3 = 0 \<and>
      link_of ?pin (trace s3) = \<lparr>tx_on = False, rx_on = False, brk_irq = False, exti_on = False\<rparr>"
    if "uart_status s1 = 0" "gpio_probe_and_set E (bit32 (unat ?pin)) (pin_set E (uint ?pin) 0 (s1\<lparr>uart_status := STATUS_TX\<rparr>)) = (q, s3)"
    for q s3
  proof -
    have l: "link_of ?pin (trace s) = idle_link" and free: "slot_of (dmachTx s) s = None"
      using inv that(1) obs1(2) by (auto simp: uart_inv_def status_defs)
    have "link_obs s3 = link_obs (s1\<lparr>uart_status := STATUS_TX\<rparr>)"
      using that(2) pin_ops_quiet(1) [of E "uint ?pin" 0 "s1\<lparr>uart_status := STATUS_TX\<rparr>"]
      by (auto simp: gpio_probe_and_set_def link_obs_def)
    from link_obs_eqD [OF this] link_obs_keeps [OF this] show ?thesis
      using k1 obs1 l free cfg by (simp add: uart_cfg_def owners_def slot_of_def)
  qed
  from run pin show ?thesis
  proof (cases rule: uart_start_tx_cases)
    case receiving
    then have "t = s1" "uart_status s = STATUS_RX" "link_of ?pin (trace s) = rx_link"
      using inv ex obs1 by (auto simp: uart_inv_def status_defs)
    then show ?thesis using inv k1 obs1 by (simp add: uart_inv_def slot_of_def status_defs)
  next
    case (taken s1' s3 u)
    note k3 = probed [of 0 s3]
    let ?s4 = "target_disable_irq s3"
    have "link_obs ?s4 = link_obs s3" by simp
    note o4 = link_obs_eqD [OF this] link_obs_keeps [OF this]
    have "uart_inv E u"
      using k3 o4 taken ex by (intro start_tx_claimed_inv [OF _ _ _ _ R taken(4)]) (simp_all add: slot_of_def)
    with taken(5) show ?thesis using link_obs_keeps(3) [of t u] by simp
  next
    case (sent s1' q s3 s4 s6 s7 u)
    have k3: "uart_cfg E s3" "owners s3" "slot_of (dmachTx s3) s3 = None" "uart_status s3 = STATUS_TX"
      "jacdac_pin s3 = ?pin" "smtx s3 = 0"
      "link_of ?pin (trace s3) = \<lparr>tx_on = False, rx_on = False, brk_irq = False, exti_on = False\<rparr>"
      using probed [of q s3] sent(1-3) ex by auto
    have "link_obs s7 = link_obs s3"
      using link_obs_wait [OF sent(4)] link_obs_wait [OF sent(5)] link_obs_tx_arm [OF sent(6)] by simp
    note o7 = link_obs_eqD [OF this] link_obs_keeps [OF this]
    let ?s8 = "emit (Pio (Pio_sm_set_enabled pio0 (unat (smtx s7)) True)) s7"
    have "uart_cfg E ?s8" "owners ?s8" "slot_of (dmachTx ?s8) ?s8 = None" "uart_status ?s8 = STATUS_TX"
      "link_of (jacdac_pin ?s8) (trace ?s8) = tx_link"
      using k3 o7 by (simp_all add: uart_cfg_def owners_def slot_of_def)
    moreover have "dma_set_ch_cb E (word_of_int (dmachTx ?s8)) Uart_tx_handler None ?s8 = Inr u" using sent(7) by simp
    ultimately show ?thesis using sent(8) by (rule start_tx_send_inv)
  qed
qed

text \<open>Calling a DMA handler of the table; the handlers of other components are \<open>other\<close>.\<close>

definition uart_dma_run ::
  "plat \<Rightarrow> 'a uart_scheme jdrt \<Rightarrow> (dma_cb \<Rightarrow> nat option \<Rightarrow> 'a uart_scheme \<Rightarrow> 'a uart_scheme res)
    \<Rightarrow> dma_cb \<Rightarrow> nat option \<Rightarrow> 'a uart_scheme \<Rightarrow> 'a uart_scheme res" where
  "uart_dma_run E R other f c s =
     (case f of Uart_rx_handler \<Rightarrow> rx_handler E R c s
      | Uart_tx_handler \<Rightarrow> tx_handler E R c s
      | _ \<Rightarrow> other f c s)"

text \<open>
  A step of another component: it uses channels of its own, registers no handler
  of the link and leaves everything else of the link alone.
\<close>

definition foreign :: "'a uart_scheme \<Rightarrow> 'a uart_scheme \<Rightarrow> bool" where
  "foreign s t \<longleftrightarrow> length (dmaHandler t) = length (dmaHandler s) \<and>
     (\<forall>ch<length (dmaHandler s). dmaHandler t ! ch = dmaHandler s ! ch \<or>
        (int ch \<noteq> dmachTx s \<and> int ch \<noteq> dmachRx s \<and>
         cb_handler (dmaHandler t ! ch) \<notin> {Some Uart_tx_handler, Some Uart_rx_handler})) \<and>
     link_obs (t\<lparr>dmaHandler := dmaHandler s\<rparr>) = link_obs s"

definition others_ok :: "(dma_cb \<Rightarrow> nat option \<Rightarrow> 'a uart_scheme \<Rightarrow> 'a uart_scheme res) \<Rightarrow> bool" where
  "others_ok other \<longleftrightarrow> (\<forall>f c s t. other f c s = Inr t \<longrightarrow> foreign s t)"

lemma foreign_inv:
  assumes "uart_inv E s" "foreign s t"
  shows "uart_inv E t"
proof -
  let ?t = "t\<lparr>dmaHandler := dmaHandler s\<rparr>"
  have len: "length (dmaHandler t) = length (dmaHandler s)"
    and nth: "\<And>ch. ch < length (dmaHandler s) \<Longrightarrow> dmaHandler t ! ch = dmaHandler s ! ch \<or>
        (int ch \<noteq> dmachTx s \<and> int ch \<noteq> dmachRx s \<and>
         cb_handler (dmaHandler t ! ch) \<notin> {Some Uart_tx_handler, Some Uart_rx_handler})"
    and "link_obs ?t = link_obs s"
    using assms(2) unfolding foreign_def by blast+
  note o = link_obs_eqD [OF this(3), simplified]
  have cfg: "uart_cfg E s" using assms(1) by (simp add: uart_inv_def)
  then have "dmaHandler t ! nat (dmachTx s) = dmaHandler s ! nat (dmachTx s)"
    "dmaHandler t ! nat (dmachRx s) = dmaHandler s ! nat (dmachRx s)"
    using nth [of "nat (dmachTx s)"] nth [of "nat (dmachRx s)"] by (auto simp: uart_cfg_def)
  then have sl: "slot_of (dmachTx s) t = slot_of (dmachTx s) s" "slot_of (dmachRx s) t = slot_of (dmachRx s) s"
    by (simp_all add: slot_of_def)
  have ct: "uart_cfg E t" using cfg len o by (simp add: uart_cfg_def)
  have "owners t"
    unfolding owners_def o sl
  proof (intro conjI allI impI)
    fix ch :: nat
    assume "ch < DMA_CHANNELS"
    then have ch: "ch < length (dmaHandler s)" using cfg by (simp add: uart_cfg_def)
    show "ch = nat (dmachTx s)" if "cb_handler (dmaHandler t ! ch) = Some Uart_tx_handler"
      using nth [OF ch] that assms(1) \<open>ch < DMA_CHANNELS\<close> by (auto simp: uart_inv_def owners_def)
    show "ch = nat (dmachRx s)" if "cb_handler (dmaHandler t ! ch) = Some Uart_rx_handler"
      using nth [OF ch] that assms(1) \<open>ch < DMA_CHANNELS\<close> by (auto simp: uart_inv_def owners_def)
  qed (use assms(1) in \<open>auto simp: uart_inv_def owners_def\<close>)
  with ct assms(1) sl o show ?thesis by (simp add: uart_inv_def)
qed

lemma nth_list_update_cases: "j < length xs \<Longrightarrow> xs[i := x] ! j = (if i = j then x else xs ! j)"
  by (cases "i = j") auto

lemma foreign_take_inv:
  assumes "uart_inv E s" "cb_handler (dmaHandler s ! ch) = Some f" "ch < DMA_CHANNELS"
    and "f \<noteq> Uart_tx_handler" "f \<noteq> Uart_rx_handler"
  shows "uart_inv E (dma_take ch s)"
proof -
  have "slot_of (int ch) s = Some f" using assms(2) by (simp add: slot_of_def)
  then have "int ch \<noteq> dmachTx s" "int ch \<noteq> dmachRx s"
    using assms(1,4,5) unfolding uart_inv_def owners_def by auto
  then have "foreign s (dma_take ch s)"
    by (auto simp: foreign_def dma_take_def nth_list_update_cases link_obs_def)
  then show ?thesis by (rule foreign_inv [OF assms(1)])
qed

lemma isr_dma_channel_inv:
  assumes inv: "uart_inv E s" and R: "runtime_ok E R" "others_ok other" and ch: "ch < DMA_CHANNELS"
    and run: "isr_dma_channel (uart_dma_run E R other) msk ch s = Inr t"
  shows "uart_inv E t"
proof (cases "bit32 ch AND msk = 0 \<or> cb_handler (dmaHandler s ! ch) = None")
  case True
  then have "t = s" using run by (auto simp: isr_dma_channel_def split: if_splits)
  then show ?thesis using inv by simp
next
  case False
  then obtain f where f: "cb_handler (dmaHandler s ! ch) = Some f" by auto
  let ?u = "dma_take ch s"
  have cfg: "uart_cfg E s" "owners s" using inv by (simp_all add: uart_inv_def)
  have u: "jacdac_pin ?u = jacdac_pin s" "uart_status ?u = uart_status s" "smtx ?u = smtx s" "smrx ?u = smrx s"
    "dmachTx ?u = dmachTx s" "dmachRx ?u = dmachRx s" "exti_ev ?u = exti_ev s"
    "link_of (jacdac_pin s) (trace ?u) = link_of (jacdac_pin s) (trace s)"
    "dmaHandler ?u = (dmaHandler s)[ch := (dmaHandler s ! ch)\<lparr>cb_handler := None\<rparr>]"
    by (simp_all add: dma_take_def)
  have cu: "uart_cfg E ?u" using cfg(1) u by (simp add: uart_cfg_def)
  have len: "ch < length (dmaHandler s)" using cfg(1) ch by (simp add: uart_cfg_def)
  have r: "uart_dma_run E R other f (cb_context (dmaHandler ?u ! ch)) ?u = Inr t"
    using run f False by (simp add: isr_dma_channel_def)
  have chan: "f = Uart_tx_handler \<Longrightarrow> ch = nat (dmachTx s)" "f = Uart_rx_handler \<Longrightarrow> ch = nat (dmachRx s)"
    using cfg(2) f ch by (auto simp: owners_def)
  show ?thesis
  proof (cases f)
    case Uart_rx_handler
    then have k: "ch = nat (dmachRx s)" by (rule chan(2))
    have ou: "owners ?u" by (rule owners_update [OF cfg(2,1) u(5,6,9)]) (simp add: k)
    have other_slot: "slot_of (dmachTx ?u) ?u = slot_of (dmachTx s) s"
      using u(5,9) k cfg(1) by (auto simp: slot_of_def uart_cfg_def)
    show ?thesis
    proof (cases "uart_status s = STATUS_RX")
      case True
      then have "slot_of (dmachTx s) s = None" using inv by (auto simp: uart_inv_def status_defs)
      then show ?thesis
        using r Uart_rx_handler R(1) True u other_slot
        by (intro rx_done_inv [OF cu ou]) (auto simp: uart_dma_run_def rx_handler_def runtime_ok_def)
    next
      case False
      then have "t = ?u"
        using r Uart_rx_handler inv u by (auto simp: uart_dma_run_def rx_handler_def rx_done_def uart_inv_def status_defs)
      with False ou cu inv u other_slot show ?thesis by (simp add: uart_inv_def)
    qed
  next
    case Uart_tx_handler
    then have k: "ch = nat (dmachTx s)" by (rule chan(1))
    have ou: "owners ?u" by (rule owners_update [OF cfg(2,1) u(5,6,9)]) (simp add: k)
    have "slot_of (dmachTx ?u) ?u = None"
      using u(5,9) k len by (simp add: slot_of_def)
    then show ?thesis
      using r Uart_tx_handler R(1)
      by (intro tx_handler_inv [OF cu ou, of R]) (auto simp: uart_dma_run_def runtime_ok_def)
  next
    case Spi_dma_cb
    have "uart_inv E ?u" by (rule foreign_take_inv [OF inv f ch]) (simp_all add: Spi_dma_cb)
    moreover have "foreign ?u t" using r R(2) unfolding others_ok_def Spi_dma_cb uart_dma_run_def by simp
    ultimately show ?thesis by (rule foreign_inv)
  next
    case Log_tx_handler
    have "uart_inv E ?u" by (rule foreign_take_inv [OF inv f ch]) (simp_all add: Log_tx_handler)
    moreover have "foreign ?u t" using r R(2) unfolding others_ok_def Log_tx_handler uart_dma_run_def by simp
    ultimately show ?thesis by (rule foreign_inv)
  qed
qed

lemma isr_dma_loop_inv:
  assumes "uart_inv E s" "runtime_ok E R" "others_ok other" "set chs \<subseteq> {..<DMA_CHANNELS}"
    and "isr_dma_loop (uart_dma_run E R other) msk chs s = Inr t"
  shows "uart_inv E t"
  using assms
proof (induction chs arbitrary: s)
  case (Cons ch chs)
  then obtain u where u: "isr_dma_channel (uart_dma_run E R other) msk ch s = Inr u"
    "isr_dma_loop (uart_dma_run E R other) msk chs u = Inr t"
    by (auto simp: bindE_eq_Inr)
  have "uart_inv E u"
    using isr_dma_channel_inv [OF Cons.prems(1-3) _ u(1)] Cons.prems(4) by simp
  with Cons u(2) show ?case by simp
qed simp

lemma isr_dma_0_inv:
  assumes "uart_inv E s" "runtime_ok E R" "others_ok other"
    and "isr_dma_0 E (uart_dma_run E R other) s = Inr t"
  shows "uart_inv E t"
proof -
  let ?m = "word_of_int (resp E (trace s) (Rd DMA_INTS0)) :: u32"
  let ?s = "wr DMA_INTS0 ?m (emit (Rd DMA_INTS0) s)"
  have "link_obs ?s = link_obs s" by (simp add: link_obs_def)
  then have "uart_inv E ?s" using link_obs_keeps(3) assms(1) by blast
  moreover have "isr_dma_loop (uart_dma_run E R other) ?m [0..<DMA_CHANNELS] ?s = Inr t"
    using assms(4) by (simp only: isr_dma_0_def Let_def rd_def prod.case)
  moreover have "set [0..<DMA_CHANNELS] \<subseteq> {..<DMA_CHANNELS}" by auto
  ultimately show ?thesis
    using isr_dma_loop_inv [OF _ assms(2,3)] by blast
qed

section \<open>Runs of the link\<close>

text \<open>
  One step of the link: the runtime asks to send a frame, the pin-change
  interrupt (when enabled) starts a reception, the PIO raises a break, or DMA
  channels complete. The steps interleave in any order.
\<close>

inductive link_trans ::
  "plat \<Rightarrow> 'a uart_scheme jdrt \<Rightarrow> (dma_cb \<Rightarrow> nat option \<Rightarrow> 'a uart_scheme \<Rightarrow> 'a uart_scheme res)
    \<Rightarrow> 'a uart_scheme \<Rightarrow> 'a uart_scheme \<Rightarrow> bool"
  for E R other where
  send: "uart_start_tx E R data len s = Inr (r, t) \<Longrightarrow> link_trans E R other s t"
| edge: "exti_on (link_of (jacdac_pin s) (trace s)) \<Longrightarrow> jd_line_falling R s = Inr t \<Longrightarrow> link_trans E R other s t"
| pio_irq: "isr_pio0_0 E R s = Inr t \<Longrightarrow> link_trans E R other s t"
| dma_irq: "isr_dma_0 E (uart_dma_run E R other) s = Inr t \<Longrightarrow> link_trans E R other s t"

inductive_cases link_transE: "link_trans E R other s t"

inductive link_reach ::
  "plat \<Rightarrow> 'a uart_scheme jdrt \<Rightarrow> (dma_cb \<Rightarrow> nat option \<Rightarrow> 'a uart_scheme \<Rightarrow> 'a uart_scheme res)
    \<Rightarrow> 'a uart_scheme \<Rightarrow> 'a uart_scheme \<Rightarrow> bool"
  for E R other where
  start: "link_reach E R other s s"
| step: "link_reach E R other s t \<Longrightarrow> link_trans E R other t u \<Longrightarrow> link_reach E R other s u"

lemma link_trans_inv:
  assumes "link_trans E R other s t" "uart_inv E s" "runtime_ok E R" "others_ok other"
  shows "uart_inv E t"
  using assms(1)
proof (cases rule: link_trans.cases)
  case edge
  then have idle: "uart_status s = STATUS_IDLE" "link_of (jacdac_pin s) (trace s) = idle_link"
    using assms(2) by (auto simp: uart_inv_def)
  then have "slot_of (dmachTx s) s = None" using assms(2) by (auto simp: uart_inv_def status_defs)
  with edge idle assms(2,3) show ?thesis
    by (intro start_tx_claimed_inv [of E s R t]) (simp_all add: uart_inv_def)
next
  case (send data len r)
  then show ?thesis by (rule uart_start_tx_inv [OF assms(2,3)])
next
  case pio_irq
  then show ?thesis using assms(3) by (intro isr_pio0_0_inv [OF assms(2)]) (auto simp: runtime_ok_def)
next
  case dma_irq
  then show ?thesis by (rule isr_dma_0_inv [OF assms(2-4)])
qed

lemma link_reach_inv:
  assumes "link_reach E R other s t" "uart_inv E s" "runtime_ok E R" "others_ok other"
  shows "uart_inv E t"
  using assms by (induction rule: link_reach.induct) (auto intro: link_trans_inv)

section \<open>Properties of the link\<close>

text \<open>
  C4. In every state the link can reach from a consistent one, by any
  interleaving of send requests, pin changes, breaks and DMA completions, the
  status variable, the two state machines and the interrupt enables agree:
  transmitter and receiver are never both running, a frame is being sent
  exactly when a completion handler for it is registered, and the line is
  watched for a falling edge exactly when the link is idle.
\<close>

theorem link_half_duplex:
  assumes "link_reach E R other s t" "uart_inv E s" "runtime_ok E R" "others_ok other"
  shows "uart_inv E t \<and>
    (let l = link_of (jacdac_pin t) (trace t) in
     \<not> (tx_on l \<and> rx_on l) \<and> (exti_on l \<longleftrightarrow> uart_status t = STATUS_IDLE) \<and>
     (tx_on l \<longleftrightarrow> slot_of (dmachTx t) t = Some Uart_tx_handler))"
  using link_reach_inv [OF assms] by (auto simp: uart_inv_def owners_def status_defs)

text \<open>
  C34. A break on the line ends a reception and leaves the link idle, but the
  completion handler of the aborted DMA transfer stays registered: unless the
  DMA controller raises that channel's interrupt as well, the next reception
  fails the assertion of \<open>dma_set_ch_cb\<close>. Once the interrupt has been served the
  next reception starts.
\<close>

theorem link_break_keeps_handler:
  assumes "uart_inv E s" "uart_status s = STATUS_RX" "runtime_ok E R"
    and "word_of_int (resp E (trace s) (Rd (PIO_IRQ pio0))) AND PIO_BREAK_IRQ \<noteq> 0"
    and "isr_pio0_0 E R s = Inr t"
  shows "uart_status t = STATUS_IDLE \<and> uart_start_rx E data len t = Inl Assert_failed \<and>
    (\<forall>u. resp E (trace t) (Rd DMA_INTS0) = uint (bit32 (nat (dmachRx t))) \<longrightarrow>
       isr_dma_0 E (uart_dma_run E R other) t = Inr u \<longrightarrow> (\<exists>v. uart_start_rx E data len u = Inr v))"
proof -
  let ?n = "word_of_int (resp E (trace s) (Rd (PIO_IRQ pio0))) :: u32"
  let ?s = "wr (PIO_IRQ pio0) ?n (emit (Rd (PIO_IRQ pio0)) s)"
  let ?d = "?s\<lparr>uart_status := uart_status ?s AND NOT STATUS_RX\<rparr>"
  obtain w where w: "uart_disable E ?d = Inr w" "jd_rx_completed R 0 w = Inr t"
    using assms(2,4,5) by (auto simp: isr_pio0_0_def rx_done_def bindE_eq_Inr status_defs)
  have d: "uart_cfg E ?d" "owners ?d" "slot_of (dmachTx ?d) ?d = None"
    using assms(1,2) by (auto simp: uart_inv_def uart_cfg_def owners_def slot_of_def status_defs)
  note w' = disable_inv [OF d w(1)]
  have "link_obs t = link_obs w" using assms(3) w(2) by (auto simp: runtime_ok_def)
  note t = link_obs_eqD [OF this] link_obs_keeps [OF this]
  have inv: "uart_inv E t" using w'(1) t(12) by simp
  then have cfg: "uart_cfg E t" by (simp add: uart_inv_def)
  have idle: "uart_status t = STATUS_IDLE" using w'(2) t by simp
  have slot: "slot_of (dmachRx t) t = Some Uart_rx_handler"
    using assms(1,2) w'(3,4) t by (auto simp: uart_inv_def owners_def slot_of_def)
  have fail: "uart_start_rx E data len t = Inl Assert_failed"
    using uart_start_rx_run [OF cfg, of data len] slot by simp
  have "\<exists>v. uart_start_rx E data len u = Inr v"
    if m: "resp E (trace t) (Rd DMA_INTS0) = uint (bit32 (nat (dmachRx t)))"
      and r: "isr_dma_0 E (uart_dma_run E R other) t = Inr u" for u
  proof -
    let ?c = "nat (dmachRx t)"
    let ?t = "wr DMA_INTS0 (bit32 ?c) (emit (Rd DMA_INTS0) t)"
    have c: "?c < DMA_CHANNELS" and di: "dma_inv ?t"
      using cfg by (auto simp: uart_cfg_def dma_inv_def)
    have "isr_dma_0 E (uart_dma_run E R other) t = isr_dma_loop (uart_dma_run E R other) (bit32 ?c) [0..<DMA_CHANNELS] ?t"
      unfolding isr_dma_0_def using m by simp
    also have "\<dots> = uart_dma_run E R other Uart_rx_handler (cb_context (dmaHandler ?t ! ?c)) (dma_take ?c ?t)"
      using slot by (intro isr_dma_loop_single [OF c _ di]) (simp add: slot_of_def)
    finally have "u = dma_take ?c ?t"
      using r idle by (simp add: uart_dma_run_def rx_handler_def rx_done_def dma_take_def status_defs)
    then have "uart_cfg E u" "slot_of (dmachRx u) u = None"
      using cfg c by (simp_all add: uart_cfg_def slot_of_def dma_take_def)
    then show ?thesis using uart_start_rx_run [of E u data len] by auto
  qed
  with idle fail show ?thesis by blast
qed

definition break_plat :: plat where
  "break_plat = answering (\<lambda>_ c. if c = Rd (PIO_IRQ pio0) then 2 else 0)"

definition runtime_demo :: "uart jdrt" where
  "runtime_demo = \<lparr>jd_line_falling = uart_start_rx break_plat 0 16, jd_rx_completed = (\<lambda>_. Inr), jd_tx_completed = (\<lambda>_. Inr)\<rparr>"

lemma slot_free: "n < 12 \<Longrightarrow> cb_handler (replicate 12 \<lparr>cb_context = None, cb_handler = None\<rparr> ! n) = None"
  by (simp add: nth_replicate)

lemma link_demo_ok: "uart_inv break_plat link_demo" "runtime_ok break_plat runtime_demo"
  "others_ok (\<lambda>_ _ _. Inl Panic)"
proof -
  have "slot_of 1 link_demo = None" "slot_of 0 link_demo = None"
    "\<And>n. n < 12 \<Longrightarrow> cb_handler (dmaHandler link_demo ! n) = None"
    using slot_free by (simp_all add: slot_of_def link_demo_def)
  then show "uart_inv break_plat link_demo"
    by (simp add: uart_inv_def uart_cfg_def owners_def break_plat_def)
      (simp add: link_demo_def link_of_def status_defs)
  show "runtime_ok break_plat runtime_demo" "others_ok (\<lambda>_ _ _. Inl Panic)"
    by (auto simp: runtime_ok_def runtime_demo_def others_ok_def)
qed

lemma link_demo_receives: "\<exists>t. jd_line_falling runtime_demo link_demo = Inr t \<and>
    link_reach break_plat runtime_demo (\<lambda>_ _ _. Inl Panic) link_demo t \<and> uart_status t = STATUS_RX"
proof -
  have cfg: "uart_cfg break_plat link_demo" and free: "slot_of (dmachRx link_demo) link_demo = None"
    using link_demo_ok(1) by (simp_all add: uart_inv_def) (simp add: link_demo_def slot_of_def)
  from uart_start_rx_run [OF cfg, of 0 16] free obtain t where
    t: "uart_start_rx break_plat 0 16 link_demo = Inr t" "uart_status t = STATUS_RX"
    by (auto simp: link_obs_def)
  have "exti_on (link_of (jacdac_pin link_demo) (trace link_demo))"
    by (simp add: link_demo_def link_of_def)
  moreover have "jd_line_falling runtime_demo link_demo = Inr t" using t by (simp add: runtime_demo_def)
  ultimately show ?thesis using t link_reach.intros link_trans.edge by metis
qed

theorem link_half_duplex_witness:
  "\<exists>t. uart_status t = STATUS_RX \<and>
     (let l = link_of (jacdac_pin t) (trace t) in \<not> (tx_on l \<and> rx_on l) \<and> \<not> exti_on l) \<and> uart_inv break_plat (t :: uart)"
proof -
  obtain t where t: "link_reach break_plat runtime_demo (\<lambda>_ _ _. Inl Panic) link_demo t" "uart_status t = STATUS_RX"
    using link_demo_receives by blast
  from link_half_duplex [OF t(1) link_demo_ok] t(2) show ?thesis
    by (intro exI [of _ t]) (auto simp: status_defs)
qed

theorem link_break_keeps_handler_witness:
  "\<exists>s t. uart_status (s :: uart) = STATUS_RX \<and> isr_pio0_0 break_plat runtime_demo s = Inr t \<and>
     uart_start_rx break_plat 0 16 t = Inl Assert_failed"
proof -
  obtain s where s: "link_reach break_plat runtime_demo (\<lambda>_ _ _. Inl Panic) link_demo s" "uart_status s = STATUS_RX"
    using link_demo_receives by blast
  note inv = link_reach_inv [OF s(1) link_demo_ok]
  let ?s = "wr (PIO_IRQ pio0) 2 (emit (Rd (PIO_IRQ pio0)) s)"
  let ?d = "?s\<lparr>uart_status := uart_status ?s AND NOT STATUS_RX\<rparr>"
  have "uart_cfg break_plat ?d" using inv by (simp add: uart_inv_def uart_cfg_def)
  then obtain t where "uart_disable break_plat ?d = Inr t" using uart_disable_obs by blast
  then have t: "isr_pio0_0 break_plat runtime_demo s = Inr t"
    using s(2) by (simp add: isr_pio0_0_def rx_done_def break_plat_def PIO_BREAK_IRQ_def status_defs runtime_demo_def)
  have "word_of_int (resp break_plat (trace s) (Rd (PIO_IRQ pio0))) AND PIO_BREAK_IRQ \<noteq> 0"
    by (simp add: break_plat_def PIO_BREAK_IRQ_def)
  from link_break_keeps_handler [OF inv s(2) link_demo_ok(2) this t] s(2) t show ?thesis by blast
qed

section \<open>Initialisation\<close>

text \<open>
  \<open>t\<close> comes after \<open>s\<close>, and no DMA channel was claimed in between. The library hands
  out channels with \<open>dma_claim_unused_channel\<close>.
\<close>

abbreviation claim :: call where
  "claim \<equiv> Dma (Dma_claim_unused_channel True)"

definition later :: "'a mach_scheme \<Rightarrow> 'b mach_scheme \<Rightarrow> bool" where
  "later s t \<longleftrightarrow> (\<exists>cs. trace t = trace s @ cs \<and> claim \<notin> set cs)"

lemma later_refl [simp]: "later s s"
  by (simp add: later_def)

lemma later_trans [trans]: "later s t \<Longrightarrow> later t u \<Longrightarrow> later s u"
  by (auto simp: later_def)

lemma later_calls: "later s t \<Longrightarrow> trace u = trace t @ cs \<Longrightarrow> claim \<notin> set cs \<Longrightarrow> later s u"
  by (auto simp: later_def)

lemma later_pins:
  "later s (pin_set E p x s)" "later s (pin_setup_output E p s)"
  "later s (pin_setup_input E p pull s)" "later s (pin_setup_analog_input E p s)"
  by (simp_all add: later_def pin_mode_defs pin_setup_analog_input_def gpio_set_input_enabled'_def)

lemma later_disable: "uart_disable E s = Inr t \<Longrightarrow> later s t"
  by (auto simp: uart_disable_def bindE_eq_Inr exti_enable_def irq_defs pin_mode_defs later_def split: if_splits)

lemma later_exti: "exti_set_callback E pin cb fl s = Inr t \<Longrightarrow> later s t"
  by (auto simp: exti_set_callback_def nvic_defs gpio_set_irq_enabled'_def
      gpio_set_irq_enabled_base_def gpio_acknowledge_irq'_def later_def split: if_splits)

lemma ex_trace: "claim \<notin> set xs \<Longrightarrow> \<exists>cs. s\<lparr>trace := trace s @ xs\<rparr> = s\<lparr>trace := trace s @ cs\<rparr> \<and> claim \<notin> set cs"
  by blast

lemma jd_tx_program_init_run:
  "\<exists>cs. jd_tx_program_init E p sm offset pin baud s = Inr (s\<lparr>trace := trace s @ cs\<rparr>) \<and> claim \<notin> set cs"
  by (auto simp: jd_tx_program_init_def jd_tx_arm_pin_def pio_sm_set_pins_with_mask'_def
      pio_sm_set_pindirs_with_mask'_def mask_loop_run pio_sm_init'_def pin_mode_defs set_calls_def)

lemma jd_rx_program_init_run:
  "unat (ucast pin :: u8) < length (exti_ev s) \<Longrightarrow>
    \<exists>cs. jd_rx_program_init E p sm offset pin baud s = Inr (s\<lparr>trace := trace s @ cs\<rparr>) \<and> claim \<notin> set cs"
  by (simp add: jd_rx_program_init_def jd_rx_arm_pin_def set_one_pindir exti_disable_def
      pio_sm_init'_def pin_mode_defs ex_trace)

text \<open>
  The answers \<open>dma_claim_unused_channel\<close> gave in a history, and what the
  drivers rely on: the first five claims (one of the log, two of the link and two
  of SPI) return channels of the chip that were not claimed before.
\<close>

fun claims_from :: "plat \<Rightarrow> call list \<Rightarrow> call list \<Rightarrow> int list" where
  "claims_from E tr [] = []"
| "claims_from E tr (c # cs) = (if c = claim then [resp E tr c] else []) @ claims_from E (tr @ [c]) cs"

definition claimed :: "plat \<Rightarrow> call list \<Rightarrow> int list" where
  "claimed E tr = claims_from E [] tr"

definition dma_claims :: "plat \<Rightarrow> bool" where
  "dma_claims E \<longleftrightarrow> (\<forall>tr. length (claimed E tr) < 5 \<longrightarrow>
     0 \<le> resp E tr claim \<and> resp E tr claim < 12 \<and> resp E tr claim \<notin> set (claimed E tr))"

lemma claims_from_append: "claims_from E tr (xs @ ys) = claims_from E tr xs @ claims_from E (tr @ xs) ys"
  by (induction xs arbitrary: tr) simp_all

lemma claims_from_none: "claim \<notin> set cs \<Longrightarrow> claims_from E tr cs = []"
  by (induction cs arbitrary: tr) auto

lemma claimed_append: "claimed E (tr @ cs) = claimed E tr @ claims_from E tr cs"
  by (simp add: claimed_def claims_from_append)

lemma claimed_claim: "claimed E (tr @ claim # cs) = claimed E tr @ resp E tr claim # claims_from E (tr @ [claim]) cs"
  by (simp add: claimed_append)

lemma claimed_none: "claim \<notin> set cs \<Longrightarrow> claimed E (tr @ cs) = claimed E tr"
  by (simp add: claimed_append claims_from_none)

lemma claimed_later: "later s t \<Longrightarrow> claimed E (trace t) = claimed E (trace s)"
  by (auto simp: later_def claimed_none)

lemma claimed_Nil [simp]: "claimed E [] = []"
  by (simp add: claimed_def)

lemma claimed_snoc:
  "claimed E (tr @ [c]) = claimed E tr @ (if c = claim then [resp E tr c] else [])"
  by (simp add: claimed_append)

lemma claimed_distinct:
  "dma_claims E \<Longrightarrow> length (claimed E tr) \<le> 5 \<Longrightarrow> distinct (claimed E tr) \<and> set (claimed E tr) \<subseteq> {0..<12}"
proof (induction tr rule: rev_induct)
  case (snoc c tr)
  then show ?case by (auto simp: claimed_snoc dma_claims_def split: if_splits)
qed simp

text \<open>What both halves of the initialisation leave as it was.\<close>

definition uart_base :: "u8 \<Rightarrow> 'a uart_scheme \<Rightarrow> 'a uart_scheme \<Rightarrow> bool" where
  "uart_base pin s t \<longleftrightarrow> jacdac_pin t = pin \<and> smtx t = smtx s \<and> smrx t = smrx s \<and>
     length (exti_ev t) = length (exti_ev s) \<and> length (exti_cb t) = length (exti_cb s) \<and>
     dmaHandler t = dmaHandler s \<and> uart.more t = uart.more s"

lemma uart_base_trace: "uart_base pin s (t\<lparr>trace := tr\<rparr>) = uart_base pin s t"
  by (simp add: uart_base_def)

lemma pins_base:
  "uart_base pin s (pin_set E p x t) = uart_base pin s t"
  "uart_base pin s (pin_setup_output E p t) = uart_base pin s t"
  "uart_base pin s (pin_setup_input E p pull t) = uart_base pin s t"
  by (simp_all add: uart_base_def pin_mode_defs)

lemma uart_init_front:
  fixes pin :: u8 and s :: "'a uart_scheme"
  assumes "pin = word_of_int (resp E (trace s) (Dcfg_get_pin ''jacdac.pin''))" "uint pin \<noteq> NO_PIN E"
    and "unat pin < length (exti_ev s)"
  shows "\<exists>v. uart_base pin s v \<and> uart_init' E s = uart_init_dma E pin v \<and> later s v"
proof -
  define s1 where "s1 = pin_setup_input E (uint pin) (PIN_PULL_UP E) (pin_setup_output E (uint pin)
    (pin_set E (uint pin) 1 (emit (Dcfg_get_pin ''jacdac.pin'') s\<lparr>jacdac_pin := pin\<rparr>)))"
  have "uart_base pin s s1" unfolding s1_def by (simp add: pins_base) (simp add: uart_base_def)
  define s2 where "s2 = emit (Pio (Pio_add_program pio0 jd_tx_program)) s1
    \<lparr>txprog := word_of_int (resp E (trace s1) (Pio (Pio_add_program pio0 jd_tx_program)))\<rparr>"
  define s3 where "s3 = emit (Pio (Pio_add_program pio0 jd_rx_program)) s2
    \<lparr>rxprog := word_of_int (resp E (trace s2) (Pio (Pio_add_program pio0 jd_rx_program)))\<rparr>"
  have "later s s1" unfolding s1_def
    by (rule later_trans [OF later_trans [OF later_trans [OF _ later_pins(1)] later_pins(2)] later_pins(3)]) (simp add: later_def)
  then have l3: "later s s3" by (auto simp: s3_def s2_def later_def)
  have s3: "uart_base pin s s3" using \<open>uart_base pin s s1\<close> by (simp add: uart_base_def s2_def s3_def)
  have *: "uart_init' E s = bindE (jd_tx_program_init E pio0 (unat (smtx s3)) (txprog s3) (ucast pin) 1000000 s3) (\<lambda>s.
      bindE (jd_rx_program_init E pio0 (unat (smrx s)) (rxprog s) (ucast pin) 1000000 s) (uart_init_dma E pin))"
    using assms(2) unfolding uart_init'_def ask_def Let_def prod.case assms(1) [symmetric] s1_def [symmetric]
    by (simp add: s3_def s2_def) 
  obtain cs where cs: "jd_tx_program_init E pio0 (unat (smtx s3)) (txprog s3) (ucast pin) 1000000 s3 = Inr (s3\<lparr>trace := trace s3 @ cs\<rparr>)" "claim \<notin> set cs"
    using jd_tx_program_init_run by blast
  let ?s4 = "s3\<lparr>trace := trace s3 @ cs\<rparr>"
  have "unat (ucast (ucast pin :: u32) :: u8) < length (exti_ev ?s4)"
    using assms(3) s3 by (simp add: ucast_back uart_base_def)
  then obtain ds where "jd_rx_program_init E pio0 (unat (smrx ?s4)) (rxprog ?s4) (ucast pin) 1000000 ?s4 = Inr (?s4\<lparr>trace := trace ?s4 @ ds\<rparr>)" "claim \<notin> set ds"
    using jd_rx_program_init_run by blast
  with * cs s3 l3 show ?thesis
    by (intro exI [of _ "?s4\<lparr>trace := trace ?s4 @ ds\<rparr>"]) (auto simp: uart_base_trace later_def)
qed

lemma exti_set_callback_base:
  assumes "uart_base pin s v" "unat pin < length (exti_cb s)"
  shows "\<exists>t. exti_set_callback E pin cb fl v = Inr t \<and> uart_base pin s t \<and> dmachRx t = dmachRx v \<and> dmachTx t = dmachTx v"
  using assms by (simp add: exti_set_callback_def uart_base_def nvic_defs gpio_set_irq_enabled'_def
      gpio_set_irq_enabled_base_def gpio_acknowledge_irq'_def)

lemma uart_init_dma_calls:
  "\<exists>w. uart_init_dma E pin v = bindE (exti_set_callback E pin (Some cb_jd_line_falling) EXTI_FALLING w) (\<lambda>s.
         let s = ram_irq_set_priority E (of_nat (DMA_IRQ_0 E)) IRQ_PRIORITY_UART s;
             s = ram_irq_set_priority E (of_nat (PIO0_IRQ_0 E)) IRQ_PRIORITY_UART s;
             s = ram_irq_set_enabled (of_nat (PIO0_IRQ_0 E)) True s
         in uart_disable E s) \<and>
     w = v\<lparr>dmachRx := resp E (trace v) claim, dmachTx := resp E (trace v @ [claim]) claim, trace := trace w\<rparr> \<and>
     later (emit claim (emit claim v)) w"
  unfolding uart_init_dma_def ask_def Let_def prod.case
  by (rule exI, rule conjI, rule refl) (simp add: later_def)

lemma uart_init_dma_run:
  assumes "uart_base pin s v" "unat pin < length (exti_ev s)" "length (exti_cb s) = length (exti_ev s)"
    and "dma_claims E" "length (claimed E (trace v)) \<le> 3"
  shows "\<exists>t. uart_init_dma E pin v = uart_disable E t \<and> uart_base pin s t \<and>
    0 \<le> dmachRx t \<and> dmachRx t < 12 \<and> 0 \<le> dmachTx t \<and> dmachTx t < 12 \<and> dmachTx t \<noteq> dmachRx t \<and>
    claimed E (trace t) = claimed E (trace v) @ [dmachRx t, dmachTx t]"
proof -
  define a where "a = resp E (trace v) claim"
  define b where "b = resp E (trace v @ [claim]) claim"
  have cl: "claimed E (trace v @ [claim, claim]) = claimed E (trace v) @ [a, b]"
    by (simp add: claimed_claim a_def b_def)
  then have ab: "0 \<le> a" "a < 12" "0 \<le> b" "b < 12" "b \<noteq> a"
    using claimed_distinct [OF assms(4), of "trace v @ [claim, claim]"] assms(5) by auto
  obtain w where run: "uart_init_dma E pin v = bindE (exti_set_callback E pin (Some cb_jd_line_falling) EXTI_FALLING w) (\<lambda>s.
         let s = ram_irq_set_priority E (of_nat (DMA_IRQ_0 E)) IRQ_PRIORITY_UART s;
             s = ram_irq_set_priority E (of_nat (PIO0_IRQ_0 E)) IRQ_PRIORITY_UART s;
             s = ram_irq_set_enabled (of_nat (PIO0_IRQ_0 E)) True s
         in uart_disable E s)"
    and w: "w = v\<lparr>dmachRx := a, dmachTx := b, trace := trace w\<rparr>" and l: "later (emit claim (emit claim v)) w"
    using uart_init_dma_calls unfolding a_def b_def by blast
  have "uart_base pin s w \<and> dmachRx w = a \<and> dmachTx w = b"
    using assms(1) by (subst (1 2 3) w) (simp add: uart_base_def)
  then obtain t where t: "exti_set_callback E pin (Some cb_jd_line_falling) EXTI_FALLING w = Inr t"
    "uart_base pin s t \<and> dmachRx t = a \<and> dmachTx t = b"
    using exti_set_callback_base [of pin s w E] assms(2,3) by auto
  let ?u = "ram_irq_set_enabled (of_nat (PIO0_IRQ_0 E)) True (ram_irq_set_priority E (of_nat (PIO0_IRQ_0 E)) IRQ_PRIORITY_UART
    (ram_irq_set_priority E (of_nat (DMA_IRQ_0 E)) IRQ_PRIORITY_UART t))"
  have "later t ?u" by (simp add: later_def nvic_defs)
  with later_trans [OF l later_exti [OF t(1)]] have "later (emit claim (emit claim v)) ?u" by (rule later_trans)
  from claimed_later [OF this, of E] cl have "claimed E (trace ?u) = claimed E (trace v) @ [a, b]" by simp
  with ab run t show ?thesis
    by (intro exI [of _ ?u]) (simp add: uart_base_def nvic_defs)
qed

lemma uart_disable_frame:
  "uart_disable E s = Inr t \<Longrightarrow> uart.more t = uart.more s \<and> dmaHandler t = dmaHandler s \<and>
    dmachTx t = dmachTx s \<and> dmachRx t = dmachRx s"
  by (auto simp: uart_disable_def bindE_eq_Inr exti_enable_def irq_defs pin_mode_defs gpio_set_irq_enabled'_def
      gpio_set_irq_enabled_base_def gpio_acknowledge_irq'_def split: if_splits)

lemma uart_init_idle:
  fixes pin :: u8 and s :: "'a uart_scheme"
  assumes "pin = word_of_int (resp E (trace s) (Dcfg_get_pin ''jacdac.pin''))" "uint pin \<noteq> NO_PIN E"
    and "unat pin < length (exti_ev s)" "length (exti_cb s) = length (exti_ev s)"
    and "smtx s = 0" "smrx s = 1" "length (dmaHandler s) = DMA_CHANNELS"
    and "\<And>ch. ch < DMA_CHANNELS \<Longrightarrow> cb_handler (dmaHandler s ! ch) = None"
    and "dma_claims E" "length (claimed E (trace s)) \<le> 3"
  shows "\<exists>t. uart_init' E s = Inr t \<and> uart_inv E t \<and> uart_status t = STATUS_IDLE \<and>
    dmaHandler t = dmaHandler s \<and> uart.more t = uart.more s \<and>
    claimed E (trace t) = claimed E (trace s) @ [dmachRx t, dmachTx t]"
proof -
  have np: "\<not> no_pin E (uint pin)" using assms(2) by (simp add: no_pin_def)
  obtain v where v: "uart_base pin s v" and run: "uart_init' E s = uart_init_dma E pin v" and sv: "later s v"
    using uart_init_front [OF assms(1-3)] by blast
  obtain t where "uart_init_dma E pin v = uart_disable E t" and t: "uart_base pin s t"
    "0 \<le> dmachRx t" "dmachRx t < 12" "0 \<le> dmachTx t" "dmachTx t < 12" "dmachTx t \<noteq> dmachRx t"
    and cl: "claimed E (trace t) = claimed E (trace v) @ [dmachRx t, dmachTx t]"
    using uart_init_dma_run [OF v assms(3,4,9)] assms(10) claimed_later [OF sv, of E] by auto
  have cfg: "uart_cfg E t"
    using assms(2,3,5,6,7) t by (simp add: uart_cfg_def uart_base_def)
  have "slot_of c t = None" if "0 \<le> c" "c < 12" for c
    using assms(8) [of "nat c"] that t(1) by (simp add: slot_of_def uart_base_def)
  then have own: "owners t" "slot_of (dmachTx t) t = None"
    using cfg assms(8) t(1) by (auto simp: owners_def uart_cfg_def uart_base_def)
  obtain u where u: "uart_disable E t = Inr u" using uart_disable_obs [OF cfg] by blast
  moreover have "uart.more u = uart.more t" "dmaHandler u = dmaHandler t" "dmachTx u = dmachTx t" "dmachRx u = dmachRx t"
    using uart_disable_frame [OF u] by simp_all
  moreover have "claimed E (trace u) = claimed E (trace s) @ [dmachRx t, dmachTx t]"
    using cl claimed_later [OF later_disable [OF u], of E] claimed_later [OF sv, of E] by simp
  ultimately show ?thesis
    using disable_inv(1,2) [OF cfg own u] run \<open>uart_init_dma E pin v = uart_disable E t\<close> t(1)
    by (simp add: uart_base_def)
qed

definition init_plat :: plat where
  "init_plat = answering (\<lambda>tr c. if c = claim then int (length (filter (\<lambda>d. d = claim) tr))
     else if c = Dcfg_get_pin ''jacdac.pin'' then 9 else 0)"

lemma init_plat_resp: "resp init_plat tr claim = int (length (filter (\<lambda>d. d = claim) tr))"
  by (simp add: init_plat_def)

lemma init_plat_claimed: "claimed init_plat tr = map int [0..<length (filter (\<lambda>d. d = claim) tr)]"
  by (induction tr rule: rev_induct) (simp_all add: claimed_snoc init_plat_resp)

lemma init_plat_claims: "dma_claims init_plat"
  unfolding dma_claims_def init_plat_claimed by (auto simp: init_plat_resp)

end
