(* ===== verification/Spi.thy ===== *)
theory Spi
  imports Link
begin

text \<open>
  \<open>spi.c\<close>: block transfers over SPI with DMA. A transfer is claimed by
  \<open>jd_spi_xfer\<close>, its completion is recorded by the DMA handler \<open>spi_dma_cb\<close> and
  delivered by \<open>jd_spi_process\<close> from the main loop. The completion callback is an
  opaque function pointer; calling it is the parameter \<open>run\<close>. Data pointers are
  addresses (\<open>None\<close> is the null pointer).
\<close>

section \<open>State and operations\<close>

definition BLOCK_SIZE :: u32 where
  "BLOCK_SIZE = 4096"

record spi_state = uart +
  spi_in_use :: bool
  dma_claimed :: u8
  dma_tx :: u8
  dma_rx :: u8
  spi :: "spi_inst option"
  spi_done_cb :: "nat option"

record jd_spi_cfg_t =
  cfg_miso :: u8
  cfg_mosi :: u8
  cfg_sck :: u8
  cfg_mode :: u8
  cfg_hz :: u32

definition jd_spi_process ::
  "(nat \<Rightarrow> 'a spi_state_scheme \<Rightarrow> 'a spi_state_scheme res) \<Rightarrow> 'a spi_state_scheme \<Rightarrow> 'a spi_state_scheme res" where
  "jd_spi_process run s =
     (case spi_done_cb s of
        None \<Rightarrow> Inr s
      | Some f \<Rightarrow> run f (s\<lparr>spi_done_cb := None, spi_in_use := False\<rparr>))"

definition spi_dma_cb :: "nat option \<Rightarrow> 'a spi_state_scheme \<Rightarrow> 'a spi_state_scheme res" where
  "spi_dma_cb cb s = bindE (jd_assert (spi_done_cb s = None) s) (\<lambda>s. Inr (s\<lparr>spi_done_cb := cb\<rparr>))"

text \<open>The first pin that is present, or \<open>NO_PIN\<close>.\<close>

fun first_pin :: "plat \<Rightarrow> u8 list \<Rightarrow> int" where
  "first_pin E [] = NO_PIN E"
| "first_pin E (p # ps) = (if uint p \<noteq> NO_PIN E then uint p else first_pin E ps)"

fun set_spi_pins :: "plat \<Rightarrow> u8 list \<Rightarrow> 'a mach_scheme \<Rightarrow> 'a mach_scheme" where
  "set_spi_pins E [] s = s"
| "set_spi_pins E (p # ps) s =
     set_spi_pins E ps (if uint p \<noteq> NO_PIN E then emit (Gpio (Gpio_set_function (ucast p) GPIO_FUNC_SPI)) s else s)"

text \<open>The second half of \<open>jd_spi_init\<close>: claiming and configuring the DMA channels.\<close>

definition jd_spi_init_dma :: "plat \<Rightarrow> spi_inst \<Rightarrow> 'a spi_state_scheme \<Rightarrow> 'a spi_state_scheme" where
  "jd_spi_init_dma E inst s =
     (let s = (if dma_claimed s = 0
               then let s = s\<lparr>dma_claimed := 1\<rparr>;
                        (v, s) = ask E (Dma (Dma_claim_unused_channel True)) s;
                        s = s\<lparr>dma_tx := word_of_int v\<rparr>;
                        (v, s) = ask E (Dma (Dma_claim_unused_channel True)) s
                    in s\<lparr>dma_rx := word_of_int v\<rparr>
               else s);
          c = [Dma_default (uint (dma_tx s))];
          c = c @ [Dma_transfer_data_size 8];
          (dreq, s) = ask E (Spi (Spi_get_dreq inst True)) s;
          c = c @ [Dma_dreq dreq];
          s = emit (Dma (Dma_channel_configure (uint (dma_tx s)) c (Spi_dr inst) Null 0 False)) s;
          c = [Dma_default (uint (dma_rx s))];
          c = c @ [Dma_transfer_data_size 8];
          (dreq, s) = ask E (Spi (Spi_get_dreq inst False)) s;
          c = c @ [Dma_dreq dreq];
          c = c @ [Dma_read_increment False];
          c = c @ [Dma_write_increment True]
      in emit (Dma (Dma_channel_configure (uint (dma_rx s)) c Null (Spi_dr (spi_default E)) 0 False)) s)"

definition jd_spi_init :: "plat \<Rightarrow> jd_spi_cfg_t \<Rightarrow> 'a spi_state_scheme \<Rightarrow> int \<times> 'a spi_state_scheme" where
  "jd_spi_init E cfg s =
     (if spi_in_use s then (-100, s)
      else
       let pins = [cfg_sck cfg, cfg_miso cfg, cfg_mosi cfg];
           pin = first_pin E pins
       in if pin = NO_PIN E then (-1, s)
          else
           let inst = (if (pin div 8) AND 1 \<noteq> 0 then spi1 else spi0);
               s = s\<lparr>spi := Some inst\<rparr>;
               (hz, s) = ask E (Spi (Spi_init inst (cfg_hz cfg))) s;
               s = emit (Spi (Spi_set_format inst 8 (drop_bit 1 (ucast (cfg_mode cfg)) AND 1) (ucast (cfg_mode cfg) AND 1))) s;
               s = set_spi_pins E pins s;
               s = emit (Dmesg ''SPI: sck=%d miso=%d mosi=%d hz=%u->%u''
                     [uint (cfg_sck cfg), uint (cfg_miso cfg), uint (cfg_mosi cfg), uint (cfg_hz cfg), hz]) s
           in (0, jd_spi_init_dma E inst s))"

definition jd_spi_is_ready :: "'a spi_state_scheme \<Rightarrow> bool" where
  "jd_spi_is_ready s \<longleftrightarrow> spi s \<noteq> None \<and> \<not> spi_in_use s"

definition jd_spi_max_block_size :: u32 where
  "jd_spi_max_block_size = BLOCK_SIZE"

definition jd_spi_xfer ::
  "plat \<Rightarrow> nat option \<Rightarrow> nat option \<Rightarrow> u32 \<Rightarrow> nat option \<Rightarrow> 'a spi_state_scheme \<Rightarrow> (int \<times> 'a spi_state_scheme) res" where
  "jd_spi_xfer E txdata rxdata numbytes done_fn s =
     bindE (jd_assert (done_fn \<noteq> None) s) (\<lambda>s.
     if \<not> jd_spi_is_ready s then Inr (-1, s)
     else if BLOCK_SIZE < numbytes then Inr (-2, s)
     else if numbytes = 0 then Inr (-3, s)
     else
      bindE (jd_assert (txdata \<noteq> None \<or> rxdata \<noteq> None) s) (\<lambda>s.
      let start_ch = 0;
          (start_ch, s) =
            (case txdata of None \<Rightarrow> (start_ch, s)
             | Some p \<Rightarrow>
                let s = emit (Dma (Dma_channel_set_read_addr (unat (dma_tx s)) p False)) s;
                    s = emit (Dma (Dma_channel_set_trans_count (unat (dma_tx s)) numbytes False)) s
                in (start_ch OR bit32 (unat (dma_tx s)), s));
          (start_ch, s) =
            (case rxdata of None \<Rightarrow> (start_ch, s)
             | Some p \<Rightarrow>
                let s = emit (Dma (Dma_channel_set_write_addr (unat (dma_rx s)) p False)) s;
                    s = emit (Dma (Dma_channel_set_trans_count (unat (dma_rx s)) numbytes False)) s
                in (start_ch OR bit32 (unat (dma_rx s)), s));
          s = s\<lparr>spi_in_use := True\<rparr>
      in bindE (dma_set_ch_cb E (if rxdata \<noteq> None then dma_rx s else dma_tx s) Spi_dma_cb done_fn s) (\<lambda>s.
           Inr (0, emit (Dma (Dma_start_channel_mask start_ch)) s))))"

section \<open>The transfer protocol\<close>

text \<open>
  The contract of the SPI interface: at most one transfer is under way; every
  accepted transfer completes once and its callback is delivered once, in
  order. \<open>Busy b f\<close> is a transfer with callback \<open>f\<close> in progress whose completion
  is signalled by the receive channel (\<open>b\<close>) or the transmit channel.
\<close>

datatype spi_phase = Ready | Busy bool nat | Done nat

datatype spi_ev = Xfer "nat option" "nat option" u32 nat | Complete bool | Process

fun spi_ev_ok :: "spi_ev \<Rightarrow> bool" where
  "spi_ev_ok (Xfer tx rx n f) \<longleftrightarrow> tx \<noteq> None \<or> rx \<noteq> None"
| "spi_ev_ok _ \<longleftrightarrow> True"

fun spi_spec :: "spi_ev \<Rightarrow> spi_phase \<times> nat list \<Rightarrow> spi_phase \<times> nat list" where
  "spi_spec (Xfer tx rx n f) (Ready, d) = (if 0 < n \<and> n \<le> 4096 then Busy (rx \<noteq> None) f else Ready, d)"
| "spi_spec (Complete b) (Busy b' f, d) = (if b = b' then Done f else Busy b' f, d)"
| "spi_spec Process (Done f, d) = (Ready, d @ [f])"
| "spi_spec _ sp = sp"

text \<open>The same events on the model: a completed channel is served by the DMA interrupt handler.\<close>

definition spi_dma_run ::
  "(dma_cb \<Rightarrow> nat option \<Rightarrow> 'a spi_state_scheme \<Rightarrow> 'a spi_state_scheme res)
    \<Rightarrow> dma_cb \<Rightarrow> nat option \<Rightarrow> 'a spi_state_scheme \<Rightarrow> 'a spi_state_scheme res" where
  "spi_dma_run other f c s = (if f = Spi_dma_cb then spi_dma_cb c s else other f c s)"

definition spi_ch :: "bool \<Rightarrow> 'a spi_state_scheme \<Rightarrow> u8" where
  "spi_ch b s = (if b then dma_rx s else dma_tx s)"

fun spi_do :: "plat \<Rightarrow> (dma_cb \<Rightarrow> nat option \<Rightarrow> 'a spi_state_scheme \<Rightarrow> 'a spi_state_scheme res)
    \<Rightarrow> spi_ev \<Rightarrow> 'a spi_state_scheme \<Rightarrow> 'a spi_state_scheme res" where
  "spi_do E other (Xfer tx rx n f) s = bindE (jd_spi_xfer E tx rx n (Some f) s) (\<lambda>(r, s). Inr s)"
| "spi_do E other (Complete b) s =
     isr_dma_channel (spi_dma_run other) (bit32 (unat (spi_ch b s))) (unat (spi_ch b s)) s"
| "spi_do E other Process s = jd_spi_process (\<lambda>f s. Inr (emit (Call_cb f) s)) s"

text \<open>The callbacks delivered so far.\<close>

definition delivered :: "call list \<Rightarrow> nat list" where
  "delivered tr = concat (map (\<lambda>c. case c of Call_cb f \<Rightarrow> [f] | _ \<Rightarrow> []) tr)"

lemma delivered_append [simp]: "delivered (tr @ cs) = delivered tr @ delivered cs"
  by (simp add: delivered_def)

lemma delivered_simps [simp]: "delivered [] = []"
  "delivered (c # cs) = (case c of Call_cb f \<Rightarrow> [f] | _ \<Rightarrow> []) @ delivered cs"
  by (simp_all add: delivered_def)

definition spi_rel :: "spi_phase \<times> nat list \<Rightarrow> 'a spi_state_scheme \<Rightarrow> bool" where
  "spi_rel sp s \<longleftrightarrow> dma_inv s \<and> dma_tx s < 12 \<and> dma_rx s < 12 \<and> dma_tx s \<noteq> dma_rx s \<and> spi s \<noteq> None \<and>
     delivered (trace s) = snd sp \<and>
     (case fst sp of
        Ready \<Rightarrow> \<not> spi_in_use s \<and> spi_done_cb s = None \<and> dma_armed (dma_tx s) s = None \<and> dma_armed (dma_rx s) s = None
      | Busy b f \<Rightarrow> spi_in_use s \<and> spi_done_cb s = None \<and>
          dma_armed (spi_ch b s) s = Some (Spi_dma_cb, Some f) \<and> dma_armed (spi_ch (\<not> b) s) s = None
      | Done f \<Rightarrow> spi_in_use s \<and> spi_done_cb s = Some f \<and>
          dma_armed (dma_tx s) s = None \<and> dma_armed (dma_rx s) s = None)"

lemma spi_rel_cfg: "spi_rel sp s \<Longrightarrow> dma_inv s \<and> spi_ch b s < 12 \<and> spi_ch b s \<noteq> spi_ch (\<not> b) s \<and> spi s \<noteq> None"
  by (auto simp: spi_rel_def spi_ch_def)

lemma spi_trace [simp]:
  "dma_armed e (s\<lparr>trace := tr\<rparr>) = dma_armed e s" "dma_inv (s\<lparr>trace := tr\<rparr>) = dma_inv s"
  "spi_ch b (s\<lparr>trace := tr\<rparr>) = spi_ch b s"
  by (simp_all add: dma_armed_def dma_inv_def spi_ch_def)

text \<open>Calls that program a channel for a transfer.\<close>

definition setup_call :: "call \<Rightarrow> bool" where
  "setup_call c \<longleftrightarrow> (case c of
     Dma d \<Rightarrow> (case d of
         Dma_channel_set_read_addr ch p tr \<Rightarrow> True
       | Dma_channel_set_write_addr ch p tr \<Rightarrow> True
       | Dma_channel_set_trans_count ch n tr \<Rightarrow> True
       | _ \<Rightarrow> False)
   | _ \<Rightarrow> False)"

lemma setup_delivered: "list_all setup_call cs \<Longrightarrow> delivered cs = []"
  by (induction cs) (auto simp: setup_call_def split: call.splits)

lemma jd_spi_xfer_ready:
  assumes "jd_spi_is_ready s" "0 < n" "n \<le> 4096" "tx \<noteq> None \<or> rx \<noteq> None"
  shows "\<exists>cs m. list_all setup_call cs \<and> jd_spi_xfer E tx rx n (Some f) s =
      bindE (dma_set_ch_cb E (spi_ch (rx \<noteq> None) s) Spi_dma_cb (Some f) (s\<lparr>trace := trace s @ cs, spi_in_use := True\<rparr>))
        (\<lambda>u. Inr (0, emit (Dma (Dma_start_channel_mask m)) u))"
proof -
  define cs where "cs = (case tx of None \<Rightarrow> [] | Some p \<Rightarrow>
      [Dma (Dma_channel_set_read_addr (unat (dma_tx s)) p False), Dma (Dma_channel_set_trans_count (unat (dma_tx s)) n False)]) @
    (case rx of None \<Rightarrow> [] | Some p \<Rightarrow>
      [Dma (Dma_channel_set_write_addr (unat (dma_rx s)) p False), Dma (Dma_channel_set_trans_count (unat (dma_rx s)) n False)])"
  define m where "m = (case tx of None \<Rightarrow> 0 | Some _ \<Rightarrow> bit32 (unat (dma_tx s))) OR
    (case rx of None \<Rightarrow> 0 | Some _ \<Rightarrow> bit32 (unat (dma_rx s)))"
  have "list_all setup_call cs" by (simp add: cs_def setup_call_def split: option.split)
  moreover have "\<not> BLOCK_SIZE < n" "n \<noteq> 0" using assms by (auto simp: BLOCK_SIZE_def)
  then have "jd_spi_xfer E tx rx n (Some f) s =
      bindE (dma_set_ch_cb E (spi_ch (rx \<noteq> None) s) Spi_dma_cb (Some f) (s\<lparr>trace := trace s @ cs, spi_in_use := True\<rparr>))
        (\<lambda>u. Inr (0, emit (Dma (Dma_start_channel_mask m)) u))"
    using assms by (cases tx; cases rx) (auto simp: jd_spi_xfer_def spi_ch_def cs_def m_def)
  ultimately show ?thesis by blast
qed

lemma xfer_accepted:
  assumes "spi_rel (Ready, d) s" "0 < n" "n \<le> 4096" "tx \<noteq> None \<or> rx \<noteq> None"
  shows "\<exists>t. spi_do E other (Xfer tx rx n f) s = Inr t \<and> spi_rel (Busy (rx \<noteq> None) f, d) t"
proof -
  let ?b = "rx \<noteq> None"
  have cfg: "dma_inv s" "spi_ch ?b s < 12" "spi_ch (\<not> ?b) s < 12" "spi_ch ?b s \<noteq> spi_ch (\<not> ?b) s"
    using spi_rel_cfg [OF assms(1), of ?b] spi_rel_cfg [OF assms(1), of "\<not> ?b"] by blast+
  have free: "dma_armed (spi_ch c s) s = None" for c
    using assms(1) by (simp add: spi_rel_def spi_ch_def)
  have "jd_spi_is_ready s" using assms(1) by (simp add: spi_rel_def jd_spi_is_ready_def)
  then obtain cs m where sc: "list_all setup_call cs" and cs: "jd_spi_xfer E tx rx n (Some f) s =
      bindE (dma_set_ch_cb E (spi_ch ?b s) Spi_dma_cb (Some f) (s\<lparr>trace := trace s @ cs, spi_in_use := True\<rparr>))
        (\<lambda>u. Inr (0, emit (Dma (Dma_start_channel_mask m)) u))"
    using jd_spi_xfer_ready assms(2-4) by blast
  note del = setup_delivered [OF sc]
  let ?s = "s\<lparr>trace := trace s @ cs, spi_in_use := True\<rparr>"
  have "dma_inv ?s" "dma_armed (spi_ch ?b s) ?s = None"
    using cfg(1) free by (simp_all add: dma_inv_def dma_armed_def)
  from dma_slots.arm_free [OF this(1) cfg(2) this(2), of E "(Spi_dma_cb, Some f)"] obtain u where
    u: "dma_set_ch_cb E (spi_ch ?b s) Spi_dma_cb (Some f) ?s = Inr u" "dma_inv u"
      "dma_armed (spi_ch ?b s) u = Some (Spi_dma_cb, Some f)"
      "\<And>e. e < 12 \<Longrightarrow> e \<noteq> spi_ch ?b s \<Longrightarrow> dma_armed e u = dma_armed e ?s" by auto
  have keep: "spi_in_use u" "spi_done_cb u = None" "dma_tx u = dma_tx s" "dma_rx u = dma_rx s" "spi u = spi s"
    "delivered (trace u) = d"
    using u(1) assms(1) cfg(2) del
    by (auto simp: dma_set_ch_cb_def nvic_defs spi_rel_def bindE_eq_Inr split: if_splits)
  have "dma_armed (spi_ch (\<not> ?b) s) ?s = None" using free by (simp add: dma_armed_def)
  then have "dma_armed (spi_ch (\<not> ?b) s) u = None" using u(4) [OF cfg(3) cfg(4) [symmetric]] by simp
  moreover have "spi_ch c u = spi_ch c s" for c using keep by (simp add: spi_ch_def)
  ultimately show ?thesis
    using u(1-3) keep assms(1) by (simp add: cs) (simp add: spi_rel_def)
qed

lemma xfer_refused:
  assumes "spi_rel sp s" "spi_ev_ok (Xfer tx rx n f)" "fst sp \<noteq> Ready \<or> n = 0 \<or> 4096 < n"
  shows "spi_do E other (Xfer tx rx n f) s = Inr s"
  using assms by (auto simp: spi_rel_def jd_spi_xfer_def jd_spi_is_ready_def BLOCK_SIZE_def split: spi_phase.splits)

lemma complete_step:
  assumes "spi_rel sp s"
  shows "\<exists>t. spi_do E other (Complete b) s = Inr t \<and> spi_rel (spi_spec (Complete b) sp) t"
proof -
  obtain ph d where sp: "sp = (ph, d)" by (cases sp)
  have cfg: "dma_inv s" "spi_ch b s < 12" "spi_ch (\<not> b) s < 12" "spi_ch b s \<noteq> spi_ch (\<not> b) s"
    using spi_rel_cfg [OF assms, of b] spi_rel_cfg [OF assms, of "\<not> b"] by blast+
  have len: "unat (spi_ch b s) < 12" using cfg(2) by (simp add: unat_less_12)
  show ?thesis
  proof (cases "dma_armed (spi_ch b s) s")
    case None
    then have "cb_handler (dmaHandler s ! unat (spi_ch b s)) = None" by (simp add: dma_armed_def)
    then have run: "spi_do E other (Complete b) s = Inr s" by (simp add: isr_dma_channel_def)
    have "spi_spec (Complete b) sp = sp"
    proof (cases ph)
      case (Busy b' f)
      then have "dma_armed (spi_ch b' s) s \<noteq> None" using assms by (simp add: spi_rel_def sp)
      with None have "b' \<noteq> b" by (intro notI) (simp only:, simp)
      with Busy show ?thesis by (simp add: sp)
    qed (simp_all add: sp)
    with run assms show ?thesis by simp
  next
    case (Some h)
    then obtain f where ph: "ph = Busy b f" and h: "h = (Spi_dma_cb, Some f)"
      using assms unfolding sp by (cases ph; cases b) (auto simp: spi_rel_def spi_ch_def split: if_splits)
    let ?u = "dma_take (unat (spi_ch b s)) s"
    have "cb_handler (dmaHandler s ! unat (spi_ch b s)) = Some Spi_dma_cb"
      "cb_context (dmaHandler s ! unat (spi_ch b s)) = Some f"
      using Some h by (auto simp: dma_armed_def)
    then have run: "spi_do E other (Complete b) s = Inr (?u\<lparr>spi_done_cb := Some f\<rparr>)"
      using len cfg(1) assms ph sp
      by (simp add: isr_dma_channel_def and_bit32_eq_0_iff bit_simps context_take dma_inv_def spi_dma_run_def
          spi_dma_cb_def spi_rel_def) (simp add: dma_take_def)
    have u: "dma_inv ?u" "dma_armed (spi_ch b s) ?u = None" "dma_armed (spi_ch (\<not> b) s) ?u = None"
      using dma_slots.disarm [OF cfg(1,2)] cfg(3,4) assms ph sp by (auto simp: spi_rel_def)
    have "dma_armed (dma_tx s) ?u = None \<and> dma_armed (dma_rx s) ?u = None"
      using u(2,3) by (cases b) (simp_all add: spi_ch_def)
    with u(1) run assms show ?thesis
      unfolding sp ph by (simp add: spi_rel_def) (simp add: dma_take_def dma_inv_def dma_armed_def)
  qed
qed

lemma process_step:
  assumes "spi_rel sp s"
  shows "\<exists>t. spi_do E other Process s = Inr t \<and> spi_rel (spi_spec Process sp) t"
proof -
  obtain ph d where sp: "sp = (ph, d)" by (cases sp)
  show ?thesis
    using assms unfolding sp
    by (cases ph) (auto simp: spi_rel_def jd_spi_process_def dma_inv_def dma_armed_def spi_ch_def)
qed

lemma spi_step:
  assumes "spi_rel sp s" "spi_ev_ok e"
  shows "\<exists>t. spi_do E other e s = Inr t \<and> spi_rel (spi_spec e sp) t"
proof (cases e)
  case (Xfer tx rx n f)
  obtain ph d where sp: "sp = (ph, d)" by (cases sp)
  show ?thesis
  proof (cases "ph = Ready \<and> 0 < n \<and> n \<le> 4096")
    case True
    then show ?thesis
      using xfer_accepted [of d s n tx rx E other f] assms Xfer by (simp add: sp)
  next
    case False
    then have "fst sp \<noteq> Ready \<or> n = 0 \<or> 4096 < n" by (auto simp: sp word_gt_0)
    then have "spi_do E other e s = Inr s"
      using xfer_refused [OF assms(1), of tx rx n f E other] assms(2) Xfer by blast
    moreover have "spi_spec e sp = sp" using False by (cases ph) (auto simp: sp Xfer)
    ultimately show ?thesis using assms(1) by simp
  qed
next
  case (Complete b)
  then show ?thesis using complete_step [OF assms(1)] by simp
next
  case Process
  then show ?thesis using process_step [OF assms(1)] by simp
qed

interpretation spi_sim: simulation spi_spec "spi_do E other" "\<lambda>e _. spi_ev_ok e" spi_rel for E other
  by unfold_locales (rule spi_step)

text \<open>
  C7. The SPI driver implements its contract: for every sequence of transfer
  requests, DMA completions and main-loop polls, no assertion fails (neither
  the one of the driver nor the one of the DMA handler table), a request is
  accepted exactly when no transfer is under way and its size is between 1 and
  4096, and the callbacks delivered are exactly those of the completed
  transfers, each once and in order.
\<close>

theorem spi_protocol_refines:
  assumes "spi_rel sp s" "list_all spi_ev_ok es"
  shows "\<exists>t. run_res (spi_do E other) es s = Inr t \<and> spi_rel (fold spi_spec es sp) t"
  using spi_sim.run_refines [OF assms(1)] assms(2) by (simp add: oks_list_all)

definition spi_demo :: spi_state where
  "spi_demo = \<lparr>trace = [], irq_disabled = 0,
     dmaHandler = replicate 12 \<lparr>cb_context = None, cb_handler = None\<rparr>, timer_cb = None, int2 = 0,
     last_delay = 0, last_delay_now = 0, exti_cb = replicate 30 None, exti_ev = replicate 30 0,
     dmachTx = -1, dmachRx = -1, txprog = 0, rxprog = 0, smtx = 0, smrx = 1, uart_status = 0,
     jacdac_pin = 0, spi_in_use = False, dma_claimed = 1, dma_tx = 2, dma_rx = 3, spi = Some spi0, spi_done_cb = None\<rparr>"

theorem spi_protocol_refines_witness:
  "\<exists>t. run_res (spi_do sample_plat (\<lambda>_ _ _. Inl Panic))
       [Xfer (Some 0) (Some 64) 16 7, Xfer (Some 0) None 1 8, Process, Complete True, Process, Complete True] spi_demo = Inr t \<and>
     spi_rel (Ready, [7]) t"
  using spi_protocol_refines [of "(Ready, [])" spi_demo
      "[Xfer (Some 0) (Some 64) 16 7, Xfer (Some 0) None 1 8, Process, Complete True, Process, Complete True]"
      sample_plat "\<lambda>_ _ _. Inl Panic"]
  by (simp add: spi_rel_def spi_demo_def dma_inv_def dma_armed_def)

section \<open>Configuration\<close>

text \<open>The calls SPI configures itself with, besides claiming its channels.\<close>

definition spi_setup_call :: "call \<Rightarrow> bool" where
  "spi_setup_call c \<longleftrightarrow> (case c of Spi x \<Rightarrow> True | Dmesg f xs \<Rightarrow> True
     | Gpio g \<Rightarrow> (case g of Gpio_set_function p f \<Rightarrow> True | _ \<Rightarrow> False)
     | Dma d \<Rightarrow> (case d of Dma_channel_configure ch cf w r n tr \<Rightarrow> True | _ \<Rightarrow> False)
     | _ \<Rightarrow> False)"

declare spi_setup_call_def [simp]

lemma spi_setup_calls: "list_all spi_setup_call cs \<Longrightarrow> claim \<notin> set cs \<and> quiet pin cs"
  by (induction cs) (auto simp: quiet_def split: call.splits gpio_call.splits dma_call.splits)

lemma set_spi_pins_run: "\<exists>cs. set_spi_pins E ps s = s\<lparr>trace := trace s @ cs\<rparr> \<and> list_all spi_setup_call cs"
proof (induction ps arbitrary: s)
  case (Cons p ps)
  show ?case
    using Cons.IH [of s] Cons.IH [of "s\<lparr>trace := trace s @ [Gpio (Gpio_set_function (ucast p) GPIO_FUNC_SPI)]\<rparr>"]
    by (cases "uint p = NO_PIN E") (simp, fastforce)
qed (auto intro: exI [of _ "[]"])

definition spi_inst_of :: "plat \<Rightarrow> jd_spi_cfg_t \<Rightarrow> spi_inst" where
  "spi_inst_of E cfg = (if (first_pin E [cfg_sck cfg, cfg_miso cfg, cfg_mosi cfg] div 8) AND 1 \<noteq> 0 then spi1 else spi0)"

lemma jd_spi_init_run:
  fixes s :: "'a spi_state_scheme"
  assumes "\<not> spi_in_use s" "first_pin E [cfg_sck cfg, cfg_miso cfg, cfg_mosi cfg] \<noteq> NO_PIN E"
  shows "\<exists>cs. list_all spi_setup_call cs \<and> jd_spi_init E cfg s =
    (0, jd_spi_init_dma E (spi_inst_of E cfg) (s\<lparr>spi := Some (spi_inst_of E cfg), trace := trace s @ cs\<rparr>))"
proof -
  define inst where "inst = spi_inst_of E cfg"
  define s0 where "s0 = emit (Spi (Spi_set_format inst 8 (drop_bit 1 (ucast (cfg_mode cfg)) AND 1) (ucast (cfg_mode cfg) AND 1)))
    (emit (Spi (Spi_init inst (cfg_hz cfg))) (s\<lparr>spi := Some inst\<rparr>))"
  obtain cs where cs: "set_spi_pins E [cfg_sck cfg, cfg_miso cfg, cfg_mosi cfg] s0 = s0\<lparr>trace := trace s0 @ cs\<rparr>" "list_all spi_setup_call cs"
    using set_spi_pins_run by blast
  have "\<exists>f xs. jd_spi_init E cfg s = (0, jd_spi_init_dma E inst (emit (Dmesg f xs) (s0\<lparr>trace := trace s0 @ cs\<rparr>)))"
    unfolding cs(1) [symmetric] using assms
    by (simp add: jd_spi_init_def s0_def inst_def spi_inst_of_def del: first_pin.simps set_spi_pins.simps) blast
  then obtain f xs where "jd_spi_init E cfg s = (0, jd_spi_init_dma E inst (emit (Dmesg f xs) (s0\<lparr>trace := trace s0 @ cs\<rparr>)))" by blast
  with cs(2) show ?thesis
    by (intro exI [of _ "since s s0 @ cs @ [Dmesg f xs]"]) (simp add: s0_def since_def inst_def)
qed

text \<open>The write and read address a channel was last configured with.\<close>

definition dma_ends_step :: "int \<Rightarrow> call \<Rightarrow> (dma_addr \<times> dma_addr) option \<Rightarrow> (dma_addr \<times> dma_addr) option" where
  "dma_ends_step ch c r = (case c of
     Dma d \<Rightarrow> (case d of Dma_channel_configure ch' cf w r' n tr \<Rightarrow> if ch' = ch then Some (w, r') else r | _ \<Rightarrow> r)
   | _ \<Rightarrow> r)"

definition dma_ends :: "int \<Rightarrow> call list \<Rightarrow> (dma_addr \<times> dma_addr) option" where
  "dma_ends ch tr = fold (dma_ends_step ch) tr None"

lemma dma_ends_snoc [simp]: "dma_ends ch (tr @ cs) = fold (dma_ends_step ch) cs (dma_ends ch tr)"
  by (simp add: dma_ends_def)

lemma chan_u8_uint: "0 \<le> a \<Longrightarrow> a < 12 \<Longrightarrow> uint (word_of_int a :: u8) = a"
  by (simp add: uint_word_of_int)

lemma claim_u8_distinct: "0 \<le> a \<Longrightarrow> a < 12 \<Longrightarrow> 0 \<le> b \<Longrightarrow> b < 12 \<Longrightarrow> (word_of_int a :: u8) = word_of_int b \<longleftrightarrow> a = b"
  using chan_u8(1) [of a] chan_u8(1) [of b] by auto

text \<open>The two channels SPI claims, the first time it is configured.\<close>

definition spi_claim :: "plat \<Rightarrow> 'a spi_state_scheme \<Rightarrow> 'a spi_state_scheme" where
  "spi_claim E s = (if dma_claimed s = 0
     then s\<lparr>dma_claimed := 1, dma_tx := word_of_int (resp E (trace s) claim),
            dma_rx := word_of_int (resp E (trace s @ [claim]) claim), trace := trace s @ [claim, claim]\<rparr>
     else s)"

lemma spi_claim_channels:
  assumes "dma_claims E" "dma_claimed s = 0" "length (claimed E (trace s)) \<le> 3"
  shows "claimed E (trace (spi_claim E s)) = claimed E (trace s) @ [uint (dma_tx (spi_claim E s)), uint (dma_rx (spi_claim E s))]"
    "dma_tx (spi_claim E s) \<noteq> dma_rx (spi_claim E s)"
proof -
  let ?tr = "trace s @ [claim, claim]"
  have cl: "claimed E ?tr = claimed E (trace s) @ [resp E (trace s) claim, resp E (trace s @ [claim]) claim]"
    by (simp add: claimed_claim)
  with claimed_distinct [OF assms(1), of ?tr] assms(3)
  have "resp E (trace s) claim \<in> {0..<12}" "resp E (trace s @ [claim]) claim \<in> {0..<12}"
    "resp E (trace s) claim \<noteq> resp E (trace s @ [claim]) claim" by auto
  with cl assms(2) show "claimed E (trace (spi_claim E s)) = claimed E (trace s) @ [uint (dma_tx (spi_claim E s)), uint (dma_rx (spi_claim E s))]"
    "dma_tx (spi_claim E s) \<noteq> dma_rx (spi_claim E s)"
    by (simp_all add: spi_claim_def chan_u8_uint claim_u8_distinct)
qed

lemma jd_spi_init_dma_claim:
  "\<exists>cs. list_all spi_setup_call cs \<and> jd_spi_init_dma E inst s = (spi_claim E s)\<lparr>trace := trace (spi_claim E s) @ cs\<rparr> \<and>
    (dma_tx (spi_claim E s) \<noteq> dma_rx (spi_claim E s) \<longrightarrow>
      dma_ends (uint (dma_tx (spi_claim E s))) (trace (spi_claim E s) @ cs) = Some (Spi_dr inst, Null) \<and>
      dma_ends (uint (dma_rx (spi_claim E s))) (trace (spi_claim E s) @ cs) = Some (Null, Spi_dr (spi_default E)))"
proof -
  have "(if dma_claimed s = 0
     then let s = s\<lparr>dma_claimed := 1\<rparr>; (v, s) = ask E (Dma (Dma_claim_unused_channel True)) s;
              s = s\<lparr>dma_tx := word_of_int v\<rparr>; (v, s) = ask E (Dma (Dma_claim_unused_channel True)) s
          in s\<lparr>dma_rx := word_of_int v\<rparr>
     else s) = spi_claim E s" by (simp add: spi_claim_def)
  then have "\<exists>d d'. jd_spi_init_dma E inst s = (let u = spi_claim E s in u\<lparr>trace := trace u @
      [Spi (Spi_get_dreq inst True),
       Dma (Dma_channel_configure (uint (dma_tx u)) [Dma_default (uint (dma_tx u)), Dma_transfer_data_size 8, Dma_dreq d] (Spi_dr inst) Null 0 False),
       Spi (Spi_get_dreq inst False),
       Dma (Dma_channel_configure (uint (dma_rx u)) [Dma_default (uint (dma_rx u)), Dma_transfer_data_size 8, Dma_dreq d',
         Dma_read_increment False, Dma_write_increment True] Null (Spi_dr (spi_default E)) 0 False)]\<rparr>)"
    unfolding jd_spi_init_dma_def by (simp del: split_paired_Ex) blast
  then show ?thesis unfolding Let_def by (elim exE) (rule exI, rule conjI [rotated], rule conjI, assumption,
      simp_all add: dma_ends_step_def word_uint_eq_iff)
qed

text \<open>
  C37. After a successful \<open>jd_spi_init\<close> the transmit channel writes to the
  data register of the SPI block the pins belong to, but the receive channel
  reads the data register of the board's default block: on pins of the other
  block a reception takes its bytes from the wrong peripheral.
\<close>

theorem jd_spi_init_rx_source:
  assumes "\<not> spi_in_use s" "first_pin E [cfg_sck cfg, cfg_miso cfg, cfg_mosi cfg] = p" "p \<noteq> NO_PIN E"
    and "dma_claims E" "if dma_claimed s = 0 then length (claimed E (trace s)) \<le> 3 else dma_tx s \<noteq> dma_rx s"
  shows "\<exists>t. jd_spi_init E cfg s = (0, t) \<and>
    (let inst = if (p div 8) AND 1 \<noteq> 0 then spi1 else spi0 in
     spi t = Some inst \<and> dma_ends (uint (dma_tx t)) (trace t) = Some (Spi_dr inst, Null) \<and>
     dma_ends (uint (dma_rx t)) (trace t) = Some (Null, Spi_dr (spi_default E)))"
proof -
  define inst where "inst = spi_inst_of E cfg"
  obtain cs where cs: "list_all spi_setup_call cs"
    "jd_spi_init E cfg s = (0, jd_spi_init_dma E inst (s\<lparr>spi := Some inst, trace := trace s @ cs\<rparr>))"
    using jd_spi_init_run assms(1-3) unfolding inst_def by blast
  let ?u = "s\<lparr>spi := Some inst, trace := trace s @ cs\<rparr>"
  have "dma_tx (spi_claim E ?u) \<noteq> dma_rx (spi_claim E ?u)"
    using assms(5) spi_claim_channels(2) [OF assms(4), of ?u] spi_setup_calls [OF cs(1)]
    by (cases "dma_claimed s = 0") (simp_all add: claimed_none, simp add: spi_claim_def)
  moreover have "spi (spi_claim E ?u) = Some inst" by (simp add: spi_claim_def)
  ultimately show ?thesis
    using jd_spi_init_dma_claim [of E inst ?u] cs(2) assms(2) by (auto simp: inst_def spi_inst_of_def)
qed

theorem jd_spi_init_rx_source_witness:
  "\<exists>t. jd_spi_init init_plat \<lparr>cfg_miso = 8, cfg_mosi = 11, cfg_sck = 10, cfg_mode = 0, cfg_hz = 1000000\<rparr> spi_demo = (0, t) \<and>
     spi t = Some spi1 \<and> dma_ends (uint (dma_tx t)) (trace t) = Some (Spi_dr spi1, Null) \<and>
     dma_ends (uint (dma_rx t)) (trace t) = Some (Null, Spi_dr spi0)"
  using jd_spi_init_rx_source [of spi_demo init_plat
      "\<lparr>cfg_miso = 8, cfg_mosi = 11, cfg_sck = 10, cfg_mode = 0, cfg_hz = 1000000\<rparr>" 10]
  by (simp add: spi_demo_def init_plat_claims) (simp add: init_plat_def)

end
