(* ===== verification/Uart_Log.thy ===== *)
theory Uart_Log
  imports Spi
begin

text \<open>
  \<open>uart_log.c\<close>: the log output over a hardware UART with DMA. The channel number
  is \<open>-1\<close> before initialisation and \<open>-2\<close> when no pin is configured.
\<close>

section \<open>State and operations\<close>

record ulog = spi_state +
  log_dmachTx :: int
  in_tx :: bool
  prev_tx_pin :: u8

definition stdio_uart_out_chars :: "nat \<Rightarrow> int \<Rightarrow> 'a mach_scheme \<Rightarrow> 'a mach_scheme" where
  "stdio_uart_out_chars buf len s = emit (Uart (Jd_dmesg_write buf len)) s"

definition stdio_uart_in_chars :: "plat \<Rightarrow> nat \<Rightarrow> int \<Rightarrow> int" where
  "stdio_uart_in_chars E buf len = PICO_ERROR_NO_DATA E"

definition uart_log_init :: "plat \<Rightarrow> 'a ulog_scheme \<Rightarrow> 'a ulog_scheme" where
  "uart_log_init E s =
     (let (v, s) = ask E (Dcfg_get_pin ''log.pinTX'') s;
          tx_pin = word_of_int v :: u8;
          (tx_pin, s) =
            (if uint tx_pin \<noteq> NO_PIN E \<and> tx_pin AND 3 \<noteq> 0
             then (word_of_int (NO_PIN E), emit (Dmesg ''! invalid log.pinTX'' []) s)
             else (tx_pin, s));
          s = (if uint tx_pin = NO_PIN E then s\<lparr>log_dmachTx := -2\<rparr>
               else
                let (v, s) = ask E (Dma (Dma_claim_unused_channel True)) s;
                    s = s\<lparr>log_dmachTx := v\<rparr>;
                    c = [Dma_default (log_dmachTx s)];
                    c = c @ [Dma_transfer_data_size 8];
                    inst = (if drop_bit 2 tx_pin AND 1 \<noteq> 0 then uart1 else uart0);
                    (dreq, s) = ask E (Uart (Uart_get_dreq inst True)) s;
                    c = c @ [Dma_dreq dreq];
                    s = emit (Dma (Dma_channel_configure (log_dmachTx s) c (Uart_dr inst) Null 0 False)) s;
                    (baud, s) = ask E (Dcfg_get_u32 ''log.baud'' 115200) s;
                    s = emit (Uart (Uart_init inst (word_of_int baud))) s
                in emit (Gpio (Gpio_set_function (ucast tx_pin) GPIO_FUNC_UART)) s);
          s = s\<lparr>prev_tx_pin := tx_pin\<rparr>
      in emit (Uart (Stdio_set_driver_enabled True)) s)"

definition uart_log_sync_pin :: "plat \<Rightarrow> 'a ulog_scheme \<Rightarrow> 'a ulog_scheme" where
  "uart_log_sync_pin E s =
     (let (v, s) = ask E (Dcfg_get_pin ''log.pinTX'') s;
          tx_pin = word_of_int v :: u8
      in if tx_pin = prev_tx_pin s then s
         else if uint tx_pin \<noteq> NO_PIN E \<and> tx_pin AND 3 \<noteq> 0
         then emit (Dmesg ''! invalid log.pinTX'' []) s
         else
          let s = pin_setup_analog_input E (uint (prev_tx_pin s)) s;
              s = s\<lparr>prev_tx_pin := tx_pin\<rparr>
          in if log_dmachTx s = -2 then uart_log_init E s
             else emit (Gpio (Gpio_set_function (ucast tx_pin) GPIO_FUNC_UART)) s)"

definition uart_log_can_write :: "'a ulog_scheme \<Rightarrow> bool" where
  "uart_log_can_write s \<longleftrightarrow> \<not> in_tx s"

definition log_tx_handler :: "nat option \<Rightarrow> 'a ulog_scheme \<Rightarrow> 'a ulog_scheme res" where
  "log_tx_handler p s = Inr (s\<lparr>in_tx := False\<rparr>)"

definition uart_log_write :: "plat \<Rightarrow> nat \<Rightarrow> u32 \<Rightarrow> 'a ulog_scheme \<Rightarrow> 'a ulog_scheme res" where
  "uart_log_write E buf sz s =
     (if log_dmachTx s = -2 then Inr s
      else
       let s = (if log_dmachTx s = -1 then uart_log_init E s else s)
       in bindE (jd_assert (\<not> in_tx s) s) (\<lambda>s.
          let s = s\<lparr>in_tx := True\<rparr>
          in bindE (dma_set_ch_cb E (word_of_int (log_dmachTx s)) Log_tx_handler None s) (\<lambda>s.
               Inr (emit (Dma (Dma_channel_transfer_from_buffer_now (log_dmachTx s) buf sz)) s))))"

section \<open>The write protocol\<close>

text \<open>
  The contract: whether a log pin is configured, whether a block is being sent,
  and the blocks handed to the UART so far. The main loop writes only when
  \<open>uart_log_can_write\<close> says so.
\<close>

record log_abs =
  enabled :: bool
  busy :: bool
  sent :: "(nat \<times> u32) list"

datatype log_ev = Log_write nat u32 | Log_complete

fun log_spec :: "log_ev \<Rightarrow> log_abs \<Rightarrow> log_abs" where
  "log_spec (Log_write b n) a = (if enabled a then a\<lparr>busy := True, sent := sent a @ [(b, n)]\<rparr> else a)"
| "log_spec Log_complete a = a\<lparr>busy := False\<rparr>"

fun log_ok :: "log_ev \<Rightarrow> log_abs \<Rightarrow> bool" where
  "log_ok (Log_write b n) a \<longleftrightarrow> \<not> busy a"
| "log_ok Log_complete a \<longleftrightarrow> True"

definition log_dma_run ::
  "(dma_cb \<Rightarrow> nat option \<Rightarrow> 'a ulog_scheme \<Rightarrow> 'a ulog_scheme res)
    \<Rightarrow> dma_cb \<Rightarrow> nat option \<Rightarrow> 'a ulog_scheme \<Rightarrow> 'a ulog_scheme res" where
  "log_dma_run other f c s = (if f = Log_tx_handler then log_tx_handler c s else other f c s)"

fun log_do :: "plat \<Rightarrow> (dma_cb \<Rightarrow> nat option \<Rightarrow> 'a ulog_scheme \<Rightarrow> 'a ulog_scheme res)
    \<Rightarrow> log_ev \<Rightarrow> 'a ulog_scheme \<Rightarrow> 'a ulog_scheme res" where
  "log_do E other (Log_write b n) s = uart_log_write E b n s"
| "log_do E other Log_complete s =
     (if log_dmachTx s < 0 then Inr s
      else isr_dma_channel (log_dma_run other) (bit32 (nat (log_dmachTx s))) (nat (log_dmachTx s)) s)"

definition log_sent :: "int \<Rightarrow> call list \<Rightarrow> (nat \<times> u32) list" where
  "log_sent ch tr = concat (map (\<lambda>c. case c of
     Dma d \<Rightarrow> (case d of Dma_channel_transfer_from_buffer_now ch' b n \<Rightarrow> if ch' = ch then [(b, n)] else [] | _ \<Rightarrow> [])
   | _ \<Rightarrow> []) tr)"

lemma log_sent_append [simp]: "log_sent ch (tr @ cs) = log_sent ch tr @ log_sent ch cs"
  by (simp add: log_sent_def)

definition ulog_rel :: "log_abs \<Rightarrow> 'a ulog_scheme \<Rightarrow> bool" where
  "ulog_rel a s \<longleftrightarrow> in_tx s = busy a \<and> length (dmaHandler s) = DMA_CHANNELS \<and>
     (if enabled a
      then 0 \<le> log_dmachTx s \<and> log_dmachTx s < 12 \<and> log_sent (log_dmachTx s) (trace s) = sent a \<and>
        slot_of (log_dmachTx s) s = (if busy a then Some Log_tx_handler else None)
      else log_dmachTx s = -2 \<and> \<not> busy a)"

lemma log_write_step:
  assumes "ulog_rel a s" "\<not> busy a"
  shows "\<exists>t. uart_log_write E b n s = Inr t \<and> ulog_rel (log_spec (Log_write b n) a) t"
proof (cases "enabled a")
  case False
  with assms show ?thesis by (simp add: ulog_rel_def uart_log_write_def)
next
  case True
  then have c: "0 \<le> log_dmachTx s" "log_dmachTx s < 12" "length (dmaHandler s) = DMA_CHANNELS"
    "slot_of (log_dmachTx s) s = None" "\<not> in_tx s"
    using assms by (simp_all add: ulog_rel_def)
  let ?s = "s\<lparr>in_tx := True\<rparr>"
  have "slot_of (log_dmachTx s) ?s = None" "length (dmaHandler ?s) = DMA_CHANNELS"
    using c by (simp_all add: slot_of_def)
  with c True assms show ?thesis
    by (simp add: uart_log_write_def dma_set_ch_cb_run ulog_rel_def log_sent_def)
      (simp add: slot_of_def)
qed

lemma log_complete_step:
  assumes "ulog_rel a s"
  shows "\<exists>t. log_do E other Log_complete s = Inr t \<and> ulog_rel (log_spec Log_complete a) t"
proof (cases "enabled a \<and> busy a")
  case True
  then have c: "0 \<le> log_dmachTx s" "nat (log_dmachTx s) < 12" "length (dmaHandler s) = DMA_CHANNELS"
    "cb_handler (dmaHandler s ! nat (log_dmachTx s)) = Some Log_tx_handler"
    using assms by (auto simp: ulog_rel_def slot_of_def)
  with True assms show ?thesis
    by (simp add: isr_dma_channel_def and_bit32_eq_0_iff bit_simps log_dma_run_def log_tx_handler_def
        dma_take_def ulog_rel_def log_sent_def) (simp add: slot_of_def)
next
  case False
  with assms have "log_spec Log_complete a = a" by (auto simp: ulog_rel_def)
  moreover have "log_do E other Log_complete s = Inr s"
    using assms False by (cases "enabled a") (auto simp: ulog_rel_def isr_dma_channel_def slot_of_def)
  ultimately show ?thesis using assms by simp
qed

lemma log_step:
  assumes "ulog_rel a s" "log_ok e a"
  shows "\<exists>t. log_do E other e s = Inr t \<and> ulog_rel (log_spec e a) t"
proof (cases e)
  case (Log_write b n)
  then show ?thesis using log_write_step [OF assms(1)] assms(2) by simp
next
  case Log_complete
  then show ?thesis using log_complete_step [OF assms(1)] by simp
qed

interpretation log_sim: simulation log_spec "log_do E other" log_ok ulog_rel for E other
  by unfold_locales (rule log_step)

text \<open>
  C17. The log output keeps its contract: for every sequence of block writes
  and DMA completions in which a block is written only when
  \<open>uart_log_can_write\<close> allows it, no assertion fails, every block is handed to
  the DMA channel of the log exactly once and in order (none when no pin is
  configured), and \<open>uart_log_can_write\<close> is false exactly while a block is on its
  way.
\<close>

theorem uart_log_protocol:
  assumes "ulog_rel a s" "oks log_ok log_spec es a"
  shows "\<exists>t. run_res (log_do E other) es s = Inr t \<and> ulog_rel (fold log_spec es a) t \<and>
    uart_log_can_write t = (\<not> busy (fold log_spec es a))"
proof -
  from log_sim.run_refines [OF assms] obtain t where
    "run_res (log_do E other) es s = Inr t" "ulog_rel (fold log_spec es a) t" by blast
  then show ?thesis by (auto simp: uart_log_can_write_def ulog_rel_def)
qed

definition ulog_demo :: ulog where
  "ulog_demo = spi_state.extend spi_demo \<lparr>log_dmachTx = 5, in_tx = False, prev_tx_pin = 0\<rparr>"

theorem uart_log_protocol_witness:
  "\<exists>t. run_res (log_do sample_plat (\<lambda>_ _ _. Inl Panic)) [Log_write 100 12, Log_complete, Log_write 200 3] ulog_demo = Inr t \<and>
     ulog_rel \<lparr>enabled = True, busy = True, sent = [(100, 12), (200, 3)]\<rparr> t \<and> uart_log_can_write t = False"
proof -
  have "ulog_rel \<lparr>enabled = True, busy = False, sent = []\<rparr> ulog_demo"
    by (simp add: ulog_rel_def ulog_demo_def spi_state.defs spi_demo_def slot_of_def log_sent_def)
  from uart_log_protocol [OF this, of "[Log_write 100 12, Log_complete, Log_write 200 3]"
      sample_plat "\<lambda>_ _ _. Inl Panic"] show ?thesis by simp
qed

section \<open>Configuration\<close>

text \<open>
  \<open>uart_log_init\<close> with a usable pin (present and a multiple of four) routes
  the log to the UART that owns the pin: the claimed channel is configured for
  that UART's data register, the UART is initialised with the configured baud
  rate and the pin is handed to it, in this order; without a usable pin the log
  is disabled and no channel is claimed.
\<close>

lemma uart_log_init_routes:
  fixes s :: "'a ulog_scheme" and pin :: u8
  assumes "pin = word_of_int (resp E (trace s) (Dcfg_get_pin ''log.pinTX''))" "NO_PIN E = 255"
  shows "if uint pin \<noteq> NO_PIN E \<and> pin AND 3 = 0
    then \<exists>c dreq baud. let inst = if drop_bit 2 pin AND 1 \<noteq> 0 then uart1 else uart0;
        t = uart_log_init E s in
      log_dmachTx t = c \<and> prev_tx_pin t = pin \<and>
      since s t = [Dcfg_get_pin ''log.pinTX'', Dma (Dma_claim_unused_channel True), Uart (Uart_get_dreq inst True),
        Dma (Dma_channel_configure c [Dma_default c, Dma_transfer_data_size 8, Dma_dreq dreq] (Uart_dr inst) Null 0 False),
        Dcfg_get_u32 ''log.baud'' 115200, Uart (Uart_init inst baud), Gpio (Gpio_set_function (ucast pin) GPIO_FUNC_UART),
        Uart (Stdio_set_driver_enabled True)]
    else let t = uart_log_init E s in
      log_dmachTx t = -2 \<and> uint (prev_tx_pin t) = NO_PIN E \<and> Dma (Dma_claim_unused_channel True) \<notin> set (since s t)"
  using assms by (auto simp: uart_log_init_def since_def)

text \<open>The pins whose multiplexer was last set to a UART.\<close>

definition uart_sel :: "plat \<Rightarrow> gpio_function \<Rightarrow> u32" where
  "uart_sel E f = push_bit (CTRL_FUNCSEL_LSB E) (func_code E f)"

definition mux_step :: "plat \<Rightarrow> call \<Rightarrow> nat set \<Rightarrow> nat set" where
  "mux_step E c S = (case c of
     Gpio g \<Rightarrow> (case g of
         Gpio_set_function p f \<Rightarrow> if f = GPIO_FUNC_UART then insert (unat p) S else S - {unat p}
       | _ \<Rightarrow> S)
   | Wr r v \<Rightarrow> (case r of
         IO_CTRL n \<Rightarrow> if v = uart_sel E GPIO_FUNC_UART then insert n S else S - {n}
       | _ \<Rightarrow> S)
   | _ \<Rightarrow> S)"

definition uart_pins :: "plat \<Rightarrow> call list \<Rightarrow> nat set" where
  "uart_pins E tr = fold (mux_step E) tr {}"

lemma uart_pins_append [simp]: "uart_pins E (tr @ cs) = fold (mux_step E) cs (uart_pins E tr)"
  by (simp add: uart_pins_def)

text \<open>
  The log is set up on a channel: the channel feeds the data register of the UART
  \<open>inst\<close> and, besides the number 255 for no pin, exactly the current log pin is
  routed to a UART.
\<close>

definition log_routed :: "plat \<Rightarrow> uart_inst \<Rightarrow> int \<Rightarrow> 'a ulog_scheme \<Rightarrow> bool" where
  "log_routed E inst c s \<longleftrightarrow> log_dmachTx s = c \<and> c \<noteq> -2 \<and> dma_ends c (trace s) = Some (Uart_dr inst, Null) \<and>
     uart_pins E (trace s) - {255} = {unat (prev_tx_pin s)} - {255}"

lemma pin_u32: "(word_of_int (uint (p :: u8)) :: u32) = ucast p"
  by (simp only: ucast_eq)

lemma unat_pin: "unat (ucast (p :: u8) :: u32) = unat p"
  using unsigned_less [of p, where 'a = nat] by (simp add: unsigned_ucast_eq take_bit_nat_eq_self)

lemma release_calls:
  fixes s :: "'a ulog_scheme"
  assumes "uart_sel E GPIO_FUNC_NULL \<noteq> uart_sel E GPIO_FUNC_UART" "NO_PIN E = 255"
  defines "t \<equiv> pin_setup_analog_input E (uint (prev_tx_pin s)) s"
  shows "uart_pins E (trace t) - {255} = uart_pins E (trace s) - {255} - {unat (prev_tx_pin s)}"
    "dma_ends c (trace t) = dma_ends c (trace s)" "log_dmachTx t = log_dmachTx s" "prev_tx_pin t = prev_tx_pin s"
    "\<exists>cs. trace t = trace s @ cs \<and> (\<forall>inst baud. Uart (Uart_init inst baud) \<notin> set cs)"
proof -
  have no: "no_pin E (uint (prev_tx_pin s)) \<longleftrightarrow> unat (prev_tx_pin s) = 255"
    using assms(2) by (auto simp: no_pin_def simp flip: nat_uint_eq)
  show "uart_pins E (trace t) - {255} = uart_pins E (trace s) - {255} - {unat (prev_tx_pin s)}"
  proof (cases "no_pin E (uint (prev_tx_pin s))")
    case True
    then show ?thesis using no by (simp add: t_def pin_setup_analog_input_def)
  next
    case False
    then have "uart_pins E (trace t) = uart_pins E (trace s) - {unat (prev_tx_pin s)}"
      using assms(1) by (simp add: t_def pin_setup_analog_input_def gpio_set_input_enabled'_def pin_mode_defs mux_step_def
          uart_sel_def pin_u32 unat_pin)
    then show ?thesis by blast
  qed
  show "dma_ends c (trace t) = dma_ends c (trace s)" "log_dmachTx t = log_dmachTx s" "prev_tx_pin t = prev_tx_pin s"
    "\<exists>cs. trace t = trace s @ cs \<and> (\<forall>inst baud. Uart (Uart_init inst baud) \<notin> set cs)"
    by (simp_all add: t_def pin_setup_analog_input_def gpio_set_input_enabled'_def pin_mode_defs dma_ends_step_def)
qed

lemma sync_routed:
  fixes s :: "'a ulog_scheme"
  assumes "uart_sel E GPIO_FUNC_NULL \<noteq> uart_sel E GPIO_FUNC_UART" "NO_PIN E = 255" "log_routed E inst c s"
  shows "log_routed E inst c (uart_log_sync_pin E s) \<and>
    (\<exists>cs. trace (uart_log_sync_pin E s) = trace s @ cs \<and> (\<forall>inst baud. Uart (Uart_init inst baud) \<notin> set cs))"
proof -
  define pin :: u8 where "pin = word_of_int (resp E (trace s) (Dcfg_get_pin ''log.pinTX''))"
  define u where "u = emit (Dcfg_get_pin ''log.pinTX'') s"
  have u: "log_routed E inst c u" using assms(3) by (simp add: u_def log_routed_def mux_step_def dma_ends_step_def)
  consider "pin = prev_tx_pin s" | "pin \<noteq> prev_tx_pin s" "uint pin \<noteq> NO_PIN E \<and> pin AND 3 \<noteq> 0"
    | (move) "pin \<noteq> prev_tx_pin s" "\<not> (uint pin \<noteq> NO_PIN E \<and> pin AND 3 \<noteq> 0)" by blast
  then show ?thesis
  proof cases
    case 1
    then have "uart_log_sync_pin E s = u" by (simp add: uart_log_sync_pin_def pin_def u_def)
    with u show ?thesis by (simp add: u_def)
  next
    case 2
    then have "uart_log_sync_pin E s = emit (Dmesg ''! invalid log.pinTX'' []) u"
      by (simp add: uart_log_sync_pin_def pin_def [symmetric] u_def)
    with u show ?thesis by (simp add: u_def log_routed_def mux_step_def dma_ends_step_def)
  next
    case move
    define v where "v = pin_setup_analog_input E (uint (prev_tx_pin u)) u"
    note rel = release_calls [OF assms(1,2), where s = u, folded v_def]
    have "log_dmachTx v \<noteq> -2" using rel(3) u by (simp add: log_routed_def)
    then have run: "uart_log_sync_pin E s = emit (Gpio (Gpio_set_function (ucast pin) GPIO_FUNC_UART)) (v\<lparr>prev_tx_pin := pin\<rparr>)"
      using move by (auto simp: uart_log_sync_pin_def pin_def [symmetric] v_def u_def)
    have "uart_pins E (trace v) - {255} = {}" using rel(1) u by (simp add: log_routed_def)
    then have "log_routed E inst c (uart_log_sync_pin E s)"
      using u rel(2) [of c] rel(3) unfolding run log_routed_def by (auto simp: mux_step_def dma_ends_step_def unat_pin)
    moreover obtain cs where "trace v = trace u @ cs" "\<forall>inst baud. Uart (Uart_init inst baud) \<notin> set cs" using rel(5) by blast
    ultimately show ?thesis by (simp add: run u_def)
  qed
qed

lemma init_routed:
  fixes s :: "'a ulog_scheme" and pin :: u8
  assumes "pin = word_of_int (resp E (trace s) (Dcfg_get_pin ''log.pinTX''))" "uint pin \<noteq> NO_PIN E" "pin AND 3 = 0"
    and "uart_pins E (trace s) = {}" "dma_claims E" "claimed E (trace s) = []"
  shows "log_routed E (if drop_bit 2 pin AND 1 \<noteq> 0 then uart1 else uart0) (log_dmachTx (uart_log_init E s)) (uart_log_init E s)"
proof -
  have "claimed E (trace s @ [Dcfg_get_pin ''log.pinTX'']) = []" using assms(6) by (simp add: claimed_append)
  then have "0 \<le> resp E (trace s @ [Dcfg_get_pin ''log.pinTX'']) claim" using assms(5) by (auto simp: dma_claims_def)
  with assms(1-4) show ?thesis
    by (auto simp: uart_log_init_def log_routed_def mux_step_def dma_ends_step_def unat_pin)
qed


text \<open>A configuration in which the pin moves from 0 (a pin of UART 0) to 4 (of UART 1).\<close>

definition repin_plat :: plat where
  "repin_plat = answering (\<lambda>tr c. if c = claim then int (length (filter (\<lambda>d. d = claim) tr))
     else if c = Dcfg_get_pin ''log.pinTX'' then if tr = [] then 0 else 4 else 0)"

lemma repin_claims: "dma_claims repin_plat"
proof -
  have r: "resp repin_plat tr claim = int (length (filter (\<lambda>d. d = claim) tr))" for tr by (simp add: repin_plat_def)
  have "claimed repin_plat tr = map int [0..<length (filter (\<lambda>d. d = claim) tr)]" for tr
    by (induction tr rule: rev_induct) (simp_all add: claimed_snoc r)
  then show ?thesis unfolding dma_claims_def by (auto simp: r)
qed


end
