(* ===== verification/Adc.thy ===== *)
theory Adc
  imports Complex_Main Uart_Log
begin

text \<open>
  \<open>adc.c\<close>: analog inputs and the temperature sensor. The conversion constants
  of \<open>adc_read_temp\<close> are truncated quotients of decimal constants; they are
  computed here with integer division. The \<open>int\<close> arithmetic of \<open>adc_read_temp\<close> is
  arithmetic on 32-bit words, read as signed numbers.
\<close>

section \<open>State and operations\<close>

record adc = ulog +
  adc_inited :: bool

definition get_adc_ch :: "int \<Rightarrow> int" where
  "get_adc_ch pin = (let pin = pin - 26 in if pin < 0 \<or> 3 < pin then -1 else pin)"

definition adc_can_read_pin :: "u8 \<Rightarrow> bool" where
  "adc_can_read_pin pin \<longleftrightarrow> get_adc_ch (uint pin) \<noteq> -1"

definition adc_init_once :: "'a adc_scheme \<Rightarrow> 'a adc_scheme" where
  "adc_init_once s =
     (if \<not> adc_inited s then emit (Adc Adc_init) (s\<lparr>adc_inited := True\<rparr>) else s)"

definition adc_read_pin :: "plat \<Rightarrow> u8 \<Rightarrow> 'a adc_scheme \<Rightarrow> u16 \<times> 'a adc_scheme" where
  "adc_read_pin E pin s =
     (let s = adc_init_once s;
          s = emit (Adc (Adc_select_input (word_of_int (get_adc_ch (uint pin))))) s;
          (v, s) = ask E (Adc Adc_read) s
      in (word_of_int (push_bit 4 (uint (word_of_int v :: u16))), s))"

definition TEMP_VOLTS_OFFSET :: int where
  "TEMP_VOLTS_OFFSET = (2 ^ 12 * 706 * 10) div (1000 * 33)"

definition TEMP_SLOPE :: int where
  "TEMP_SLOPE = 3300000 div 1721"

definition shifted_temp :: "u32 \<Rightarrow> u32" where
  "shifted_temp adc = push_bit 12 27 - (adc - word_of_int TEMP_VOLTS_OFFSET) * word_of_int TEMP_SLOPE"

definition adc_read_temp :: "plat \<Rightarrow> 'a adc_scheme \<Rightarrow> int \<times> 'a adc_scheme" where
  "adc_read_temp E s =
     (let s = adc_init_once s;
          s = emit (Adc (Adc_set_temp_sensor_enabled True)) s;
          s = emit (Adc (Adc_select_input 4)) s;
          (v, s) = ask E (Adc Adc_read) s;
          s = emit (Adc (Adc_set_temp_sensor_enabled False)) s
      in (sint (signed_drop_bit 12 (shifted_temp (ucast (word_of_int v :: u16)))), s))"

section \<open>Initialisation happens once\<close>

datatype adc_op = Read_pin u8 | Read_temp

fun adc_do :: "plat \<Rightarrow> adc_op \<Rightarrow> 'a adc_scheme \<Rightarrow> 'a adc_scheme" where
  "adc_do E (Read_pin p) s = snd (adc_read_pin E p s)"
| "adc_do E Read_temp s = snd (adc_read_temp E s)"

abbreviation inits :: "call list \<Rightarrow> nat" where
  "inits tr \<equiv> count_list tr (Adc Adc_init)"

lemma adc_do_inited: "adc_inited (adc_do E op s)"
  by (cases op) (simp_all add: adc_read_pin_def adc_read_temp_def adc_init_once_def)

lemma adc_do_inits: "inits (trace (adc_do E op s)) = inits (trace s) + of_bool (\<not> adc_inited s)"
  by (cases op) (simp_all add: adc_read_pin_def adc_read_temp_def adc_init_once_def count_list_append)

lemma adc_run_inited: "adc_inited s \<Longrightarrow> inits (trace (fold (adc_do E) ops s)) = inits (trace s)"
  by (induction ops arbitrary: s) (simp_all add: adc_do_inits adc_do_inited)

text \<open>
  Whatever sequence of pin and temperature readings is made, the
  converter is initialised exactly once, by the first of them.
\<close>

lemma adc_initialised_once:
  "inits (trace (fold (adc_do E) ops s)) = inits (trace s) + of_bool (ops \<noteq> [] \<and> \<not> adc_inited s)"
proof (cases ops)
  case (Cons op rest)
  then show ?thesis by (simp add: adc_run_inited adc_do_inited adc_do_inits)
qed simp

section \<open>Scaling\<close>

definition adc_demo :: adc where
  "adc_demo = ulog.extend ulog_demo \<lparr>adc_inited = False\<rparr>"

text \<open>The steps of the computation on integers: the product, the difference, the temperature.\<close>

definition temp_product :: "int \<Rightarrow> int" where
  "temp_product v = (v - TEMP_VOLTS_OFFSET) * TEMP_SLOPE"

definition temp_diff :: "int \<Rightarrow> int" where
  "temp_diff v = 27 * 2 ^ 12 - temp_product v"

lemma temp_steps: "temp_product v = 1917 * v - 1679292" "temp_diff v = 1789884 - 1917 * v"
  by (simp_all add: temp_product_def temp_diff_def TEMP_VOLTS_OFFSET_def TEMP_SLOPE_def)

lemma shifted_temp_word: "shifted_temp (word_of_int v) = word_of_int (temp_diff v)"
  by (simp add: shifted_temp_def temp_diff_def temp_product_def TEMP_VOLTS_OFFSET_def TEMP_SLOPE_def push_bit_eq_mult)

lemma sint_int32: "- (2 ^ 31) \<le> x \<Longrightarrow> x < 2 ^ 31 \<Longrightarrow> sint (word_of_int x :: u32) = x"
  by (simp add: signed_of_int signed_take_bit_int_eq_self)

lemma temp_of_sample:
  assumes "0 \<le> v" "v < 4096"
  shows "sint (signed_drop_bit 12 (shifted_temp (ucast (word_of_int v :: u16)))) = temp_diff v div 4096"
proof -
  have "(ucast (word_of_int v :: u16) :: u32) = word_of_int v"
    using assms by (simp add: unsigned_of_int take_bit_int_eq_self ucast_eq)
  moreover have "sint (word_of_int (temp_diff v) :: u32) = temp_diff v"
    using assms by (intro sint_int32) (simp_all add: temp_steps(2))
  ultimately show ?thesis by (simp add: shifted_temp_word sint_signed_drop_bit_eq drop_bit_eq_div)
qed

text \<open>
  C39. For every 12-bit sample the fixed-point temperature of \<open>adc_read_temp\<close>
  is within two degrees of the formula of the data sheet,
  \<open>27 - (V - 0.706) / 0.001721\<close> with \<open>V\<close> the sample in volts at 3.3 V full scale,
  and neither the product nor the difference overflows a 32-bit \<open>int\<close>.
\<close>

theorem adc_read_temp_accurate:
  assumes "\<And>tr. resp E tr (Adc Adc_read) = v" "0 \<le> v" "v < 4096"
  shows "\<bar>of_int (fst (adc_read_temp E s)) - (27 - (of_int v * 33 / 10 / 4096 - 706 / 1000) / (1721 / 1000000) :: rat)\<bar> < 2 \<and>
    \<bar>(v - TEMP_VOLTS_OFFSET) * TEMP_SLOPE\<bar> < 2 ^ 31 \<and> \<bar>27 * 2 ^ 12 - (v - TEMP_VOLTS_OFFSET) * TEMP_SLOPE\<bar> < 2 ^ 31"
proof -
  have temp: "fst (adc_read_temp E s) = temp_diff v div 4096"
    using assms temp_of_sample [OF assms(2,3)] by (simp add: adc_read_temp_def)
  define q where "q = temp_diff v div 4096"
  have "4096 * q \<le> temp_diff v" "temp_diff v < 4096 * q + 4096"
    by (simp_all add: q_def)
  then have "70492160 * q \<le> 70492160 * 27 - 33000000 * v + 28917760000 + 2 * 70492160 - 1"
    "70492160 * 27 - 33000000 * v + 28917760000 - 2 * 70492160 + 1 \<le> 70492160 * q"
    using assms(2,3) unfolding temp_steps by simp_all
  then have "(70492160 * of_int q :: rat) \<le> 70492160 * 27 - 33000000 * of_int v + 28917760000 + 2 * 70492160 - 1"
    "(70492160 * 27 - 33000000 * of_int v + 28917760000 - 2 * 70492160 + 1 :: rat) \<le> 70492160 * of_int q"
    by linarith+
  then have "\<bar>of_int q - (27 - (of_int v * 33 / 10 / 4096 - 706 / 1000) / (1721 / 1000000) :: rat)\<bar> < 2"
    by (simp add: field_simps abs_less_iff)
  moreover have "\<bar>temp_product v\<bar> < 2 ^ 31" "\<bar>temp_diff v\<bar> < 2 ^ 31"
    using assms(2,3) by (simp_all add: temp_steps abs_less_iff)
  ultimately show ?thesis
    unfolding temp q_def [symmetric] temp_product_def [symmetric] temp_diff_def [symmetric] by blast
qed

theorem adc_read_temp_accurate_witness:
  "\<bar>of_int (fst (adc_read_temp (answering (\<lambda>_ _. 891)) (adc_demo)))
     - (27 - (891 * 33 / 10 / 4096 - 706 / 1000) / (1721 / 1000000) :: rat)\<bar> < 2"
  using adc_read_temp_accurate [of "answering (\<lambda>_ _. 891)" 891 adc_demo] by simp

end
