(* ===== verification/I2c.thy ===== *)
theory I2c
  imports Adc
begin

text \<open>
  \<open>i2c.c\<close>: the I2C master. Buffers are addresses; the blocking transfers of the
  SDK return the number of bytes or a negative error code.
\<close>

section \<open>State and operations\<close>

record i2c = adc +
  i2c_inst :: "i2c_inst option"

definition I2C_INST :: "u8 \<Rightarrow> i2c_inst" where
  "I2C_INST pin = (if drop_bit 1 pin AND 1 \<noteq> 0 then i2c1 else i2c0)"

definition i2c_init' :: "plat \<Rightarrow> 'a i2c_scheme \<Rightarrow> int \<times> 'a i2c_scheme" where
  "i2c_init' E s =
     (if i2c_inst s \<noteq> None then (0, s)
      else
       let (v, s) = ask E (Dcfg_get_pin ''i2c.pinSDA'') s;
           sda = word_of_int v :: u8;
           (v, s) = ask E (Dcfg_get_pin ''i2c.pinSCL'') s;
           scl = word_of_int v :: u8
       in if sda = 0xff \<or> scl = 0xff then (-1, s)
          else if I2C_INST sda \<noteq> I2C_INST scl
          then (-2, emit (Log ''inst(SDA)!=inst(SCL)'' [] []) s)
          else if sda AND 1 \<noteq> 0 \<or> scl AND 1 = 0
          then (-3, emit (Log ''sda/scl invalid'' [] []) s)
          else
           let s = s\<lparr>i2c_inst := Some (I2C_INST sda)\<rparr>;
               (khz, s) = ask E (Dcfg_get_i32 ''i2c.kHz'' 100) s;
               s = emit (I2c (I2c_init (I2C_INST sda) (word_of_int (khz * 1000)))) s;
               s = emit (Gpio (Gpio_set_function (ucast sda) GPIO_FUNC_I2C)) s;
               s = emit (Gpio (Gpio_set_function (ucast scl) GPIO_FUNC_I2C)) s;
               s = emit (Gpio (Gpio_pull_up (ucast sda))) s;
               s = emit (Gpio (Gpio_pull_up (ucast scl))) s
           in (0, s))"

definition i2c_read_ex :: "plat \<Rightarrow> u8 \<Rightarrow> nat \<Rightarrow> u32 \<Rightarrow> 'a i2c_scheme \<Rightarrow> int \<times> 'a i2c_scheme" where
  "i2c_read_ex E device_address dst len s =
     (case i2c_inst s of None \<Rightarrow> (-1, s)
      | Some inst \<Rightarrow>
         let (r, s) = ask E (I2c (I2c_read_blocking inst device_address dst len False)) s
         in (if r < 0 then r else 0, s))"

definition i2c_write_ex2 ::
  "plat \<Rightarrow> u8 \<Rightarrow> nat \<Rightarrow> u32 \<Rightarrow> nat \<Rightarrow> u32 \<Rightarrow> bool \<Rightarrow> 'a i2c_scheme \<Rightarrow> int \<times> 'a i2c_scheme" where
  "i2c_write_ex2 E device_address src len src2 len2 repeated s =
     (case i2c_inst s of None \<Rightarrow> (-1, s)
      | Some inst \<Rightarrow>
         let (r, s) = ask E (I2c (I2c_write_blocking inst device_address src len (repeated \<or> 0 < len2))) s
         in if r < 0 then (r, s)
            else
             let (r, s) = (if 0 < len2
                           then ask E (I2c (I2c_write_blocking inst device_address src2 len2 repeated)) s
                           else (r, s))
             in (if r < 0 then r else 0, s))"

section \<open>Configuration\<close>

lemma odd_bit0: "w AND 1 \<noteq> 0 \<longleftrightarrow> odd (unat w)" for w :: u8
  by (simp add: and_one_eq word_unat_eq_iff unat_mod_distrib odd_iff_mod_2_eq_one)

lemma unat_drop_bit1: "unat (drop_bit 1 w) = unat w div 2" for w :: u8
  by (simp add: unsigned_drop_bit_eq drop_bit_eq_div unat_div_distrib)

lemma I2C_INST_eq: "I2C_INST p = (if odd (unat p div 2) then i2c1 else i2c0)"
  unfolding I2C_INST_def odd_bit0 unat_drop_bit1 by simp

text \<open>
  The function table of the chip: the GPIOs each I2C block can use as SDA and as
  SCL. A configuration is usable when one block can drive both pins.
\<close>

fun sda_pins :: "i2c_inst \<Rightarrow> nat list" where
  "sda_pins i2c0 = [0, 4, 8, 12, 16, 20, 24, 28]"
| "sda_pins i2c1 = [2, 6, 10, 14, 18, 22, 26]"

fun scl_pins :: "i2c_inst \<Rightarrow> nat list" where
  "scl_pins i2c0 = [1, 5, 9, 13, 17, 21, 25, 29]"
| "scl_pins i2c1 = [3, 7, 11, 15, 19, 23, 27]"

definition i2c_pair :: "i2c_inst \<Rightarrow> nat \<Rightarrow> nat \<Rightarrow> bool" where
  "i2c_pair inst sda scl \<longleftrightarrow> sda \<in> set (sda_pins inst) \<and> scl \<in> set (scl_pins inst)"

lemma pins_mod4:
  assumes "p < 30"
  shows "p \<in> set (sda_pins i2c0) \<longleftrightarrow> p mod 4 = 0" "p \<in> set (scl_pins i2c0) \<longleftrightarrow> p mod 4 = 1"
    "p \<in> set (sda_pins i2c1) \<longleftrightarrow> p mod 4 = 2" "p \<in> set (scl_pins i2c1) \<longleftrightarrow> p mod 4 = 3"
  using assms by (simp_all, presburger+)

lemma mod4_cases: "p mod 4 = 0 \<longleftrightarrow> even p \<and> even (p div 2)" "p mod 4 = 1 \<longleftrightarrow> odd p \<and> even (p div 2)"
  "p mod 4 = 2 \<longleftrightarrow> even p \<and> odd (p div 2)" "p mod 4 = 3 \<longleftrightarrow> odd p \<and> odd (p div 2)" for p :: nat
  by presburger+

lemma i2c_pair_parity:
  assumes "p < 30" "q < 30"
  shows "i2c_pair inst p q \<longleftrightarrow> even p \<and> odd q \<and> (if inst = i2c0 then even (p div 2) \<and> even (q div 2) else odd (p div 2) \<and> odd (q div 2))"
  by (cases inst; unfold i2c_pair_def; simp only: pins_mod4 [OF assms(1)] pins_mod4 [OF assms(2)] mod4_cases; auto)

text \<open>The calls that set the block and its pins up.\<close>

definition i2c_setup :: "i2c_inst \<Rightarrow> u32 \<Rightarrow> u8 \<Rightarrow> u8 \<Rightarrow> call list" where
  "i2c_setup inst hz sda scl =
     [Dcfg_get_i32 ''i2c.kHz'' 100, I2c (I2c_init inst hz),
      Gpio (Gpio_set_function (ucast sda) GPIO_FUNC_I2C), Gpio (Gpio_set_function (ucast scl) GPIO_FUNC_I2C),
      Gpio (Gpio_pull_up (ucast sda)), Gpio (Gpio_pull_up (ucast scl))]"

lemma i2c_init_cases:
  fixes sda scl :: u8 and s :: "'a i2c_scheme"
  assumes "i2c_inst s = None" "sda = word_of_int (resp E (trace s) (Dcfg_get_pin ''i2c.pinSDA''))"
    and "scl = word_of_int (resp E (trace s @ [Dcfg_get_pin ''i2c.pinSDA'']) (Dcfg_get_pin ''i2c.pinSCL''))"
    and "i2c_init' E s = (r, t)"
  shows "r = (if sda = 0xff \<or> scl = 0xff then -1 else if I2C_INST sda \<noteq> I2C_INST scl then -2
      else if odd (unat sda) \<or> even (unat scl) then -3 else 0) \<and>
    i2c_inst t = (if r = 0 then Some (I2C_INST sda) else None) \<and>
    (r = 0 \<longrightarrow> (\<exists>khz. since s t = [Dcfg_get_pin ''i2c.pinSDA'', Dcfg_get_pin ''i2c.pinSCL''] @
        i2c_setup (I2C_INST sda) (word_of_int (khz * 1000)) sda scl \<and>
        khz = resp E (trace s @ [Dcfg_get_pin ''i2c.pinSDA'', Dcfg_get_pin ''i2c.pinSCL'']) (Dcfg_get_i32 ''i2c.kHz'' 100)))"
proof -
  have odd: "(sda AND 1 \<noteq> 0 \<or> scl AND 1 = 0) = (odd (unat sda) \<or> even (unat scl))"
    using odd_bit0 by blast
  show ?thesis
    using assms(1,4) unfolding odd [symmetric]
    by (auto simp: i2c_init'_def assms(2,3) [symmetric] since_def i2c_setup_def split: if_splits)
qed

text \<open>
  C40. On pins of the chip (below 30, or 255 for none) \<open>i2c_init_\<close> succeeds exactly
  when one I2C block can drive the two pins according to the chip's function
  table, and selects that block. It returns -1 when a pin is not configured, -2
  when the pins belong to different blocks and -3 when they are swapped or of the
  same kind, and selects no block then. On success the block is initialised with
  the configured rate and both pins are handed to it and pulled up, in this
  order; calling it again has no effect.
\<close>

theorem i2c_init_accepts_pairs:
  fixes sda scl :: u8 and s :: "'a i2c_scheme"
  assumes "i2c_inst s = None" "sda = word_of_int (resp E (trace s) (Dcfg_get_pin ''i2c.pinSDA''))"
    and "scl = word_of_int (resp E (trace s @ [Dcfg_get_pin ''i2c.pinSDA'']) (Dcfg_get_pin ''i2c.pinSCL''))"
    and "unat sda < 30 \<or> sda = 0xff" "unat scl < 30 \<or> scl = 0xff" "i2c_init' E s = (r, t)"
  shows "(r = 0 \<longleftrightarrow> (\<exists>inst. i2c_pair inst (unat sda) (unat scl))) \<and>
    (r = -1 \<longleftrightarrow> sda = 0xff \<or> scl = 0xff) \<and>
    (r = -2 \<longleftrightarrow> sda \<noteq> 0xff \<and> scl \<noteq> 0xff \<and> I2C_INST sda \<noteq> I2C_INST scl) \<and> r \<in> {0, -1, -2, -3} \<and>
    (case i2c_inst t of None \<Rightarrow> r \<noteq> 0 | Some inst \<Rightarrow> r = 0 \<and> i2c_pair inst (unat sda) (unat scl) \<and>
       i2c_init' E t = (0, t) \<and>
       (\<exists>khz. since s t = [Dcfg_get_pin ''i2c.pinSDA'', Dcfg_get_pin ''i2c.pinSCL''] @ i2c_setup inst (word_of_int (khz * 1000)) sda scl \<and>
         khz = resp E (trace s @ [Dcfg_get_pin ''i2c.pinSDA'', Dcfg_get_pin ''i2c.pinSCL'']) (Dcfg_get_i32 ''i2c.kHz'' 100)))"
proof -
  have pair: "i2c_pair inst (unat sda) (unat scl) \<longleftrightarrow> sda \<noteq> 0xff \<and> scl \<noteq> 0xff \<and> even (unat sda) \<and> odd (unat scl) \<and>
      I2C_INST sda = inst \<and> I2C_INST scl = inst" for inst
  proof (cases "sda = 0xff \<or> scl = 0xff")
    case True
    have "\<not> i2c_pair inst 255 q" "\<not> i2c_pair inst p 255" for p q by (cases inst; simp add: i2c_pair_def)+
    with True show ?thesis by (elim disjE) simp_all
  next
    case False
    then have "unat sda < 30" "unat scl < 30" using assms(4,5) by auto
    have inst_iff: "(if b then i2c1 else i2c0) = inst \<longleftrightarrow> (if inst = i2c0 then \<not> b else b)" for b by (cases inst) auto
    show ?thesis
      unfolding i2c_pair_parity [OF \<open>unat sda < 30\<close> \<open>unat scl < 30\<close>] I2C_INST_eq inst_iff using False by (simp only: if_bool_eq_conj) blast
  qed
  have again: "i2c_inst t \<noteq> None \<Longrightarrow> i2c_init' E t = (0, t)"
    by (auto simp: i2c_init'_def)
  show ?thesis
    using i2c_init_cases [OF assms(1-3,6)] again unfolding pair by (cases "r = 0") (auto split: if_splits)
qed

definition i2c_demo :: i2c where
  "i2c_demo = adc.extend adc_demo \<lparr>i2c_inst = None\<rparr>"

theorem i2c_init_accepts_pairs_witness:
  "\<exists>t. i2c_init' (answering (\<lambda>_ c. if c = Dcfg_get_pin ''i2c.pinSDA'' then 4 else 5)) i2c_demo = (0, t) \<and>
     i2c_inst t = Some i2c0"
proof -
  let ?E = "answering (\<lambda>_ c. if c = Dcfg_get_pin ''i2c.pinSDA'' then 4 else 5)"
  obtain r t where "i2c_init' ?E i2c_demo = (r, t)" by force
  moreover have "\<exists>inst. i2c_pair inst 4 5" by (rule exI [of _ i2c0]) (simp add: i2c_pair_def)
  moreover have "inst = i2c0" if "i2c_pair inst 4 5" for inst using that by (cases inst) (simp_all add: i2c_pair_def)
  ultimately show ?thesis
    using i2c_init_accepts_pairs [of i2c_demo 4 ?E 5 r t] by (simp add: i2c_demo_def adc.defs split: option.splits) blast
qed

text \<open>The pins are not checked against the number of GPIOs: pins 200 and 201 are accepted and configured.\<close>

lemma i2c_init_unchecked_pins:
  "\<exists>t. i2c_init' (answering (\<lambda>_ c. if c = Dcfg_get_pin ''i2c.pinSDA'' then 200 else 201)) i2c_demo = (0, t) \<and>
     Gpio (Gpio_pull_up 201) \<in> set (trace t)"
  by (simp add: i2c_init'_def i2c_demo_def adc.defs I2C_INST_eq and_one_eq)

section \<open>Transfers\<close>

text \<open>
  A two-part write never releases the bus between its parts and stops at
  the first error: the second part is sent only when it is not empty and the
  first one succeeded, both go to the same device, only the last part may end
  with a stop condition, and the result is 0 exactly when every part that was
  needed succeeded, otherwise the error of the part that failed.
\<close>

lemma i2c_write_ex2_parts:
  fixes s :: "'a i2c_scheme"
  assumes "i2c_inst s = Some inst"
    and "wa = I2c (I2c_write_blocking inst dev pa na (repeated \<or> 0 < nb))"
    and "wb = I2c (I2c_write_blocking inst dev pb nb repeated)"
    and "i2c_write_ex2 E dev pa na pb nb repeated s = (r, t)"
  shows "let r1 = resp E (trace s) wa; r2 = resp E (trace s @ [wa]) wb in
    since s t = (if 0 \<le> r1 \<and> 0 < nb then [wa, wb] else [wa]) \<and>
    (r = 0 \<longleftrightarrow> 0 \<le> r1 \<and> (0 < nb \<longrightarrow> 0 \<le> r2)) \<and>
    (r \<noteq> 0 \<longrightarrow> r = (if r1 < 0 then r1 else r2))"
  using assms by (auto simp: i2c_write_ex2_def since_def split: if_splits)

end
