(* ===== verification/Wifi.thy ===== *)
theory Wifi
  imports I2c
begin

text \<open>
  \<open>cyw43_fixes.c\<close> and \<open>wifi_impl.c\<close>: the polled CYW43 glue, the table of scan
  results, and the reporting of the link state. The scan table is a heap block
  that grows by doubling; the block is its address with the list of its entries
  (\<open>None\<close> is the null pointer), the 16-bit fill and capacity counters are kept at their width,
  and an access outside the block is the fault \<open>Out_of_bounds\<close>. \<open>LOG\<close> output is a
  boundary call; the callbacks to the runtime are boundary calls as well.
\<close>

section \<open>State\<close>

record wifi = i2c +
  cyw43_core_num :: u8
  scan_res :: "(int \<times> jd_wifi_results_t list) option"
  scan_ptr :: u16
  scan_size :: u16
  inited :: bool
  in_scan :: bool
  prev_status :: int
  is_on :: bool

section \<open>The allocator of \<open>platform.c\<close>\<close>

definition jd_alloc :: "plat \<Rightarrow> u32 \<Rightarrow> 'a mach_scheme \<Rightarrow> int \<times> 'a mach_scheme" where
  "jd_alloc E n s = ask E (Plat (Calloc n 1)) s"

definition jd_free :: "int \<Rightarrow> 'a mach_scheme \<Rightarrow> 'a mach_scheme" where
  "jd_free p s = emit (Plat (Free p)) s"

definition jd_alloc_emergency_area :: "plat \<Rightarrow> u32 \<Rightarrow> 'a mach_scheme \<Rightarrow> int \<times> 'a mach_scheme" where
  "jd_alloc_emergency_area E n s = ask E (Plat (Calloc n 1)) s"

section \<open>The polled glue of \<open>cyw43_fixes.c\<close>\<close>

definition cyw43_arch_init :: "plat \<Rightarrow> 'a wifi_scheme \<Rightarrow> int \<times> 'a wifi_scheme" where
  "cyw43_arch_init E s =
     (let (v, s) = ask E (Wifi Get_core_num) s;
          s = s\<lparr>cyw43_core_num := word_of_int v\<rparr>;
          s = emit (Wifi Cyw43_init) s;
          s = emit (Wifi Lwip_init) s
      in (0, s))"

definition cyw43_arch_deinit :: "'a wifi_scheme \<Rightarrow> 'a wifi_scheme res" where
  "cyw43_arch_deinit s = Inl Panic"

definition cyw43_schedule_internal_poll_dispatch :: "nat \<Rightarrow> 'a wifi_scheme \<Rightarrow> 'a wifi_scheme" where
  "cyw43_schedule_internal_poll_dispatch f s = s"

text \<open>\<open>cyw43_fixes.h\<close>: there is one thread, so protecting a call of lwIP is just making it.\<close>

definition cyw43_arch_lwip_protect :: "('p \<Rightarrow> 'a wifi_scheme \<Rightarrow> (int \<times> 'a wifi_scheme) res) \<Rightarrow> 'p \<Rightarrow> 'a wifi_scheme \<Rightarrow> (int \<times> 'a wifi_scheme) res" where
  "cyw43_arch_lwip_protect func param s = func param s"

definition cyw43_arch_poll :: "plat \<Rightarrow> 'a mach_scheme \<Rightarrow> 'a mach_scheme" where
  "cyw43_arch_poll E s =
     (let s = emit (Wifi Cyw43_stat_inc) s;
          s = emit (Wifi Sys_check_timeouts) s;
          (p, s) = ask E (Wifi Cyw43_poll_set) s
      in if truth p then emit (Wifi Cyw43_poll) s else s)"

definition cyw43_thread_check :: "plat \<Rightarrow> 'a wifi_scheme \<Rightarrow> 'a wifi_scheme res" where
  "cyw43_thread_check E s =
     (let (ex, s) = ask E (Wifi Get_current_exception) s
      in if truth ex then Inl Panic
         else let (v, s) = ask E (Wifi Get_core_num) s
              in if v \<noteq> uint (cyw43_core_num s) then Inl Panic else Inr s)"

section \<open>Scanning\<close>

record cyw43_ev_scan_result_t =
  ev_ssid_len :: u8
  ev_ssid :: "u8 list"
  ev_bssid :: "u8 list"
  ev_rssi :: "16 word"
  ev_channel :: u16
  ev_auth_mode :: u8

text \<open>
  The entry made from a result. The two \<open>memcpy\<close> calls copy as many bytes as the
  result says, without a check: reading past the arrays of the result or writing
  past the \<open>ssid\<close> array of the entry is a fault.
\<close>

definition entry_of :: "plat \<Rightarrow> cyw43_ev_scan_result_t \<Rightarrow> jd_wifi_results_t" where
  "entry_of E r =
     \<lparr>res_flags = (if ev_auth_mode r AND 7 \<noteq> 0 then JD_WIFI_APFLAGS_HAS_PASSWORD E else 0),
      res_rssi = ucast (ev_rssi r), res_channel = ucast (ev_channel r),
      res_bssid = take 6 (ev_bssid r), res_ssid = take (unat (ev_ssid_len r)) (ev_ssid r)\<rparr>"

definition scan_entry :: "plat \<Rightarrow> cyw43_ev_scan_result_t \<Rightarrow> jd_wifi_results_t res" where
  "scan_entry E r =
     (if length (ev_ssid r) < unat (ev_ssid_len r) \<or> SIZEOF_WIFI_SSID E < unat (ev_ssid_len r) then Inl Out_of_bounds
      else if length (ev_bssid r) < 6 then Inl Out_of_bounds
      else Inr (entry_of E r))"

text \<open>The index loop over the table: the result says whether an entry was replaced.\<close>

function scan_replace ::
  "jd_wifi_results_t \<Rightarrow> nat \<Rightarrow> 'a wifi_scheme \<Rightarrow> (bool \<times> 'a wifi_scheme) res" where
  "scan_replace ent i s =
     (if i < unat (scan_ptr s)
      then case scan_res s of
             None \<Rightarrow> Inl Null_deref
           | Some (p, buf) \<Rightarrow>
              if length buf \<le> i then Inl Out_of_bounds
              else if res_bssid ent = res_bssid (buf ! i)
              then Inr (True, s\<lparr>scan_res := Some (p, buf[i := ent])\<rparr>)
              else scan_replace ent (Suc i) s
      else Inr (False, s))"
  by pat_completeness auto
termination by (relation "measure (\<lambda>(ent, i, s). unat (scan_ptr s) - i)") auto

declare scan_replace.simps [simp del]

text \<open>
  Growing the table. A fresh block is zeroed; the copy of the old entries
  faults when the allocation failed or the new block is too small for them.
\<close>

definition blank_entry :: jd_wifi_results_t where
  "blank_entry = \<lparr>res_flags = 0, res_rssi = 0, res_channel = 0, res_bssid = replicate 6 0, res_ssid = []\<rparr>"

definition scan_copy :: "int \<Rightarrow> 'a wifi_scheme \<Rightarrow> (int \<times> jd_wifi_results_t list) option res" where
  "scan_copy tmp s =
     (let n = unat (scan_ptr s);
          old = (case scan_res s of None \<Rightarrow> [] | Some (p, buf) \<Rightarrow> buf)
      in if n = 0 then Inr (if truth tmp then Some (tmp, replicate (unat (scan_size s)) blank_entry) else None)
         else if \<not> truth tmp \<or> scan_res s = None then Inl Null_deref
         else if unat (scan_size s) < n \<or> length old < n then Inl Out_of_bounds
         else Inr (Some (tmp, take n old @ replicate (unat (scan_size s) - n) blank_entry)))"

definition scan_grow :: "plat \<Rightarrow> 'a wifi_scheme \<Rightarrow> 'a wifi_scheme res" where
  "scan_grow E s =
     (let s = s\<lparr>scan_size := scan_size s * 2 + 5\<rparr>;
          (tmp, s) = jd_alloc E (of_nat (SIZEOF_WIFI_RESULTS E) * ucast (scan_size s)) s
      in bindE (scan_copy tmp s) (\<lambda>blk.
           let s = jd_free (case scan_res s of None \<Rightarrow> 0 | Some (p, buf) \<Rightarrow> p) s
           in Inr (s\<lparr>scan_res := blk\<rparr>)))"

definition scan_append :: "plat \<Rightarrow> jd_wifi_results_t \<Rightarrow> 'a wifi_scheme \<Rightarrow> 'a wifi_scheme res" where
  "scan_append E ent s =
     bindE (if scan_size s \<le> scan_ptr s then scan_grow E s else Inr s) (\<lambda>s.
       case scan_res s of
         None \<Rightarrow> Inl Null_deref
       | Some (p, buf) \<Rightarrow>
          if length buf \<le> unat (scan_ptr s) then Inl Out_of_bounds
          else Inr (s\<lparr>scan_res := Some (p, buf[unat (scan_ptr s) := ent]), scan_ptr := scan_ptr s + 1\<rparr>))"

definition scan_result :: "plat \<Rightarrow> cyw43_ev_scan_result_t option \<Rightarrow> 'a wifi_scheme \<Rightarrow> (int \<times> 'a wifi_scheme) res" where
  "scan_result E result s =
     (case result of None \<Rightarrow> Inr (0, s)
      | Some r \<Rightarrow>
         if ev_ssid_len r \<noteq> 0 \<and> ev_ssid r ! 0 \<noteq> 0
         then bindE (scan_entry E r) (\<lambda>ent.
              bindE (scan_replace ent 0 s) (\<lambda>(found, s).
                 if \<not> found then bindE (scan_append E ent s) (\<lambda>s. Inr (0, s)) else Inr (0, s)))
         else Inr (0, s))"

definition jd_wifi_start_scan :: "plat \<Rightarrow> 'a wifi_scheme \<Rightarrow> int \<times> 'a wifi_scheme" where
  "jd_wifi_start_scan E s =
     (let (a, s) = ask E (Wifi Cyw43_wifi_scan_active) s
      in if truth a then (-10, s)
         else let s = s\<lparr>in_scan := True\<rparr> in ask E (Wifi Cyw43_wifi_scan) s)"

section \<open>Connecting\<close>

definition jd_wifi_connect :: "plat \<Rightarrow> u8 list \<Rightarrow> u8 list option \<Rightarrow> 'a wifi_scheme \<Rightarrow> int \<times> 'a wifi_scheme" where
  "jd_wifi_connect E ssid pw s =
     (let auth = (case pw of
            Some p \<Rightarrow> if p \<noteq> [] \<and> hd p \<noteq> 0 then CYW43_AUTH_WPA2_AES_PSK E else CYW43_AUTH_OPEN E
          | None \<Rightarrow> CYW43_AUTH_OPEN E);
          (r, s) = ask E (Wifi (Cyw43_arch_wifi_connect_async ssid pw auth)) s;
          s = emit (Log ''connect '%s' -> %d'' [ssid] [r]) s
      in (r, s))"

definition jd_wifi_disconnect :: "plat \<Rightarrow> 'a wifi_scheme \<Rightarrow> int \<times> 'a wifi_scheme" where
  "jd_wifi_disconnect E s =
     (let (r, s) = ask E (Wifi Cyw43_wifi_leave) s;
          s = emit (Log ''disconnect -> %d'' [] [r]) s
      in (r, s))"

definition status_name :: "plat \<Rightarrow> int \<Rightarrow> string" where
  "status_name E status =
     (if status = CYW43_LINK_DOWN E then ''link down''
      else if status = CYW43_LINK_JOIN E then ''joining''
      else if status = CYW43_LINK_NOIP E then ''no ip''
      else if status = CYW43_LINK_UP E then ''link up''
      else if status = CYW43_LINK_FAIL E then ''link fail''
      else if status = CYW43_LINK_NONET E then ''nonet''
      else if status = CYW43_LINK_BADAUTH E then ''bad auth''
      else ''unknown'')"

definition jd_wifi_rssi :: "plat \<Rightarrow> 'a wifi_scheme \<Rightarrow> int \<times> 'a wifi_scheme" where
  "jd_wifi_rssi E s =
     (let (status, s) = ask E (Wifi Cyw43_tcpip_link_status) s
      in (if status = CYW43_LINK_DOWN E then -128
          else if status = CYW43_LINK_JOIN E then -122
          else if status = CYW43_LINK_NOIP E then -121
          else if status = CYW43_LINK_UP E then -40
          else if status = CYW43_LINK_FAIL E then -127
          else if status = CYW43_LINK_NONET E then -126
          else if status = CYW43_LINK_BADAUTH E then -125
          else -124, s))"

definition jd_wifi_init :: "plat \<Rightarrow> 'a wifi_scheme \<Rightarrow> int \<times> u8 list \<times> 'a wifi_scheme" where
  "jd_wifi_init E s =
     (let s = emit (Log ''start init'' [] []) s;
          (r, s) = cyw43_arch_init E s
      in if truth r then (-1, [], emit (Dmesg ''! can't init wifi'' []) s)
         else
          let s = emit (Wifi Cyw43_arch_enable_sta_mode) s;
              mac = map (outbuf E (trace s) (Wifi Cyw43_state_mac)) [0..<6];
              s = emit (Wifi Cyw43_state_mac) s;
              s = emit (Log ''init ok; mac: %-s'' [mac] []) s;
              s = s\<lparr>inited := True\<rparr>
          in (0, mac, s))"

text \<open>The report of a finished scan: the filled part of the table.\<close>

definition scan_report :: "'a wifi_scheme \<Rightarrow> jd_wifi_results_t list" where
  "scan_report s = (case scan_res s of None \<Rightarrow> [] | Some (p, buf) \<Rightarrow> take (unat (scan_ptr s)) buf)"

definition jd_wifi_process_scan :: "plat \<Rightarrow> 'a wifi_scheme \<Rightarrow> 'a wifi_scheme" where
  "jd_wifi_process_scan E s =
     (if in_scan s
      then let (a, s) = ask E (Wifi Cyw43_wifi_scan_active) s
           in if \<not> truth a
              then let s = s\<lparr>in_scan := False\<rparr>;
                       s = emit (Log ''scan done!'' [] []) s;
                       s = emit (Wifi (Jd_wifi_scan_done_cb (scan_report s))) s
                   in s\<lparr>scan_res := None, scan_ptr := 0, scan_size := 0\<rparr>
              else s
      else s)"

definition jd_wifi_process_link :: "plat \<Rightarrow> 'a wifi_scheme \<Rightarrow> 'a wifi_scheme" where
  "jd_wifi_process_link E s =
     (let (new_status, s) = ask E (Wifi Cyw43_tcpip_link_status) s
      in if prev_status s \<noteq> new_status
         then let s = emit (Log ''status: %s'' [map (\<lambda>c. of_char c) (status_name E new_status)] []) s;
                  was_up = (prev_status s = CYW43_LINK_UP E);
                  s = s\<lparr>prev_status := new_status\<rparr>
              in if new_status = CYW43_LINK_UP E
                 then let (ip, s) = ask E (Wifi Cyw43_netif_ip_addr) s
                      in emit (Wifi (Jd_wifi_got_ip_cb (word_of_int ip))) s
                 else if was_up
                 then let (r, s) = jd_wifi_disconnect E s
                      in emit (Wifi Jd_wifi_lost_ip_cb) s
                 else s
         else s)"

definition jd_wifi_process :: "plat \<Rightarrow> 'a wifi_scheme \<Rightarrow> 'a wifi_scheme" where
  "jd_wifi_process E s =
     (let s = cyw43_arch_poll E s;
          s = jd_wifi_process_scan E s
      in jd_wifi_process_link E s)"

definition jd_tcpsock_init :: "'a wifi_scheme \<Rightarrow> 'a wifi_scheme" where
  "jd_tcpsock_init s = s"

definition pico_w_set_led :: "u8 \<Rightarrow> u8 \<Rightarrow> u8 \<Rightarrow> 'a wifi_scheme \<Rightarrow> 'a wifi_scheme" where
  "pico_w_set_led r g b s =
     (if \<not> inited s then s
      else let should_be_on = (0 < r \<or> 0 < g \<or> 0 < b)
           in if is_on s \<noteq> should_be_on
              then let s = s\<lparr>is_on := should_be_on\<rparr>
                   in emit (Wifi (Cyw43_arch_gpio_put (is_on s))) s
              else s)"

section \<open>The scan table is a map\<close>

text \<open>
  What the table promises: it maps the address (BSSID) of an access point to
  the last result heard from it. \<open>cap k\<close> is the capacity after \<open>k\<close> growth steps.
\<close>

definition cap :: "nat \<Rightarrow> nat" where
  "cap k = 5 * 2 ^ k - 5"

definition by_bssid :: "jd_wifi_results_t list \<Rightarrow> u8 list \<rightharpoonup> jd_wifi_results_t" where
  "by_bssid es = map_of (map (\<lambda>e. (res_bssid e, e)) es)"

definition scan_spec :: "plat \<Rightarrow> cyw43_ev_scan_result_t option \<Rightarrow> (u8 list \<rightharpoonup> jd_wifi_results_t) \<Rightarrow> u8 list \<rightharpoonup> jd_wifi_results_t" where
  "scan_spec E result m = (case result of
     Some r \<Rightarrow> if ev_ssid_len r \<noteq> 0 \<and> ev_ssid r ! 0 \<noteq> 0
       then m(take 6 (ev_bssid r) \<mapsto> entry_of E r) else m
   | None \<Rightarrow> m)"

text \<open>The representation invariant.\<close>

definition scan_inv :: "nat \<Rightarrow> 'a wifi_scheme \<Rightarrow> bool" where
  "scan_inv K s \<longleftrightarrow> (\<exists>k\<le>K. unat (scan_size s) = cap k) \<and> unat (scan_ptr s) \<le> unat (scan_size s) \<and>
     (case scan_res s of None \<Rightarrow> scan_size s = 0 | Some (p, buf) \<Rightarrow> length buf = unat (scan_size s)) \<and>
     distinct (map res_bssid (scan_report s))"

text \<open>The allocator can serve a block of the capacity after \<open>K\<close> steps.\<close>

definition alloc_ok :: "plat \<Rightarrow> nat \<Rightarrow> bool" where
  "alloc_ok E K \<longleftrightarrow> K \<le> 13 \<and> SIZEOF_WIFI_RESULTS E * cap K < 2 ^ 32 \<and>
     (\<forall>h n. unat n \<le> SIZEOF_WIFI_RESULTS E * cap K \<longrightarrow> resp E h (Plat (Calloc n 1)) \<noteq> 0)"

definition scan_rel :: "plat \<Rightarrow> nat \<Rightarrow> (u8 list \<rightharpoonup> jd_wifi_results_t) \<Rightarrow> 'a wifi_scheme \<Rightarrow> bool" where
  "scan_rel E K m s \<longleftrightarrow> alloc_ok E K \<and> scan_inv K s \<and> by_bssid (scan_report s) = m"

text \<open>
  What the driver hands over: names no longer than the arrays they come from and
  go to (at most 32 bytes by the standard), and whole addresses.
\<close>

definition result_ok :: "plat \<Rightarrow> cyw43_ev_scan_result_t \<Rightarrow> bool" where
  "result_ok E r \<longleftrightarrow> unat (ev_ssid_len r) \<le> length (ev_ssid r) \<and> unat (ev_ssid_len r) \<le> SIZEOF_WIFI_SSID E \<and> 6 \<le> length (ev_bssid r)"

lemma scan_entry_ok: "result_ok E r \<Longrightarrow> scan_entry E r = Inr (entry_of E r)"
  by (simp add: scan_entry_def result_ok_def)

lemma scan_entry_overflow: "SIZEOF_WIFI_SSID E < unat (ev_ssid_len r) \<Longrightarrow> scan_entry E r = Inl Out_of_bounds"
  by (simp add: scan_entry_def)

definition scan_fits :: "plat \<Rightarrow> nat \<Rightarrow> cyw43_ev_scan_result_t option \<Rightarrow> (u8 list \<rightharpoonup> jd_wifi_results_t) \<Rightarrow> bool" where
  "scan_fits E K result m \<longleftrightarrow> card (dom (scan_spec E result m)) \<le> cap K \<and> (\<forall>r. result = Some r \<longrightarrow> result_ok E r)"

lemma by_bssid_append: "res_bssid e \<notin> set (map res_bssid es) \<Longrightarrow> by_bssid (es @ [e]) = (by_bssid es)(res_bssid e \<mapsto> e)"
  by (induction es) (auto simp: by_bssid_def)

lemma by_bssid_replace:
  "distinct (map res_bssid es) \<Longrightarrow> j < length es \<Longrightarrow> res_bssid (es ! j) = res_bssid e \<Longrightarrow>
    by_bssid (es[j := e]) = (by_bssid es)(res_bssid e \<mapsto> e)"
proof (induction es arbitrary: j)
  case (Cons x es)
  show ?case
  proof (cases j)
    case (Suc i)
    with Cons.prems have "res_bssid x \<noteq> res_bssid e" by (metis distinct.simps(2) length_Cons length_map list.simps(9) nth_Cons_Suc nth_map nth_mem Suc_less_eq)
    with Cons Suc show ?thesis by (auto simp: by_bssid_def fun_upd_twist)
  qed (use Cons.prems in \<open>auto simp: by_bssid_def fun_eq_iff\<close>)
qed simp

lemma card_by_bssid: "distinct (map res_bssid es) \<Longrightarrow> card (dom (by_bssid es)) = length es"
  by (induction es) (auto simp: by_bssid_def dom_map_of_conv_image_fst image_image card_insert_if finite_imageI rev_image_eqI)

lemma dom_by_bssid: "dom (by_bssid es) = set (map res_bssid es)"
  by (simp add: by_bssid_def dom_map_of_conv_image_fst image_image)

lemma replace_keys: "j < length es \<Longrightarrow> res_bssid (es ! j) = res_bssid e \<Longrightarrow> map res_bssid (es[j := e]) = map res_bssid es"
  by (simp add: map_update list_update_same_conv)

lemma scan_replace_cases:
  assumes "scan_res s = Some (p, buf)" "unat (scan_ptr s) \<le> length buf" "i \<le> unat (scan_ptr s)"
  shows "(\<exists>j. i \<le> j \<and> j < unat (scan_ptr s) \<and> res_bssid (buf ! j) = res_bssid ent \<and>
      scan_replace ent i s = Inr (True, s\<lparr>scan_res := Some (p, buf[j := ent])\<rparr>)) \<or>
    (\<forall>j. i \<le> j \<longrightarrow> j < unat (scan_ptr s) \<longrightarrow> res_bssid (buf ! j) \<noteq> res_bssid ent) \<and> scan_replace ent i s = Inr (False, s)"
  using assms
proof (induction ent i s rule: scan_replace.induct)
  case (1 ent i s)
  note step = scan_replace.simps [of ent i s]
  consider "i \<ge> unat (scan_ptr s)" | "i < unat (scan_ptr s)" "res_bssid (buf ! i) = res_bssid ent"
    | "i < unat (scan_ptr s)" "res_bssid (buf ! i) \<noteq> res_bssid ent" by linarith
  then show ?case
  proof cases
    case 1
    with step show ?thesis by simp
  next
    case 2
    with step "1.prems" show ?thesis by (intro disjI1 exI [of _ i]) simp
  next
    case 3
    then have eq: "scan_replace ent i s = scan_replace ent (Suc i) s"
      using step "1.prems" by simp
    have IH: "(\<exists>j\<ge>Suc i. j < unat (scan_ptr s) \<and> res_bssid (buf ! j) = res_bssid ent \<and>
        scan_replace ent (Suc i) s = Inr (True, s\<lparr>scan_res := Some (p, buf[j := ent])\<rparr>)) \<or>
      (\<forall>j\<ge>Suc i. j < unat (scan_ptr s) \<longrightarrow> res_bssid (buf ! j) \<noteq> res_bssid ent) \<and> scan_replace ent (Suc i) s = Inr (False, s)"
      using "1.IH" [of "(p, buf)" p buf] 3 "1.prems" by (simp add: not_le)
    then show ?thesis
    proof
      assume "(\<forall>j\<ge>Suc i. j < unat (scan_ptr s) \<longrightarrow> res_bssid (buf ! j) \<noteq> res_bssid ent) \<and> scan_replace ent (Suc i) s = Inr (False, s)"
      with 3 eq show ?thesis by (metis Suc_leI le_neq_implies_less)
    qed (use eq Suc_leD in metis)
  qed
qed

lemma cap_mono: "i \<le> k \<Longrightarrow> cap i \<le> cap k"
  by (simp add: cap_def diff_le_mono)

lemma cap_Suc: "cap (Suc k) = 2 * cap k + 5"
proof -
  have "(1::nat) \<le> 2 ^ k" by simp
  then show ?thesis unfolding cap_def power_Suc by linarith
qed

lemma cap_bound: "k \<le> 13 \<Longrightarrow> cap k \<le> 40955"
  using cap_mono [of k 13] by (simp add: cap_def)

lemma scan_report_Some: "scan_res s = Some (p, buf) \<Longrightarrow> scan_report s = take (unat (scan_ptr s)) buf"
  by (simp add: scan_report_def)

lemma scan_inv_ptr:
  "scan_inv K s \<Longrightarrow> length (scan_report s) = unat (scan_ptr s) \<and> (scan_res s = None \<longrightarrow> scan_ptr s = 0)"
  by (auto simp: scan_inv_def scan_report_def unat_eq_0 split: option.splits)

lemma grown_size:
  assumes "unat (scan_size s) = cap k" "k < 13"
  shows "unat (scan_size s * 2 + 5) = cap (Suc k)"
proof -
  have "2 * cap k + 5 < 2 ^ 16" using cap_bound [of "Suc k"] assms(2) by (simp add: cap_Suc)
  with assms(1) show ?thesis by (simp add: unat_word_ariths cap_Suc mult.commute)
qed

lemma alloc_grown:
  assumes "alloc_ok E K" "k < K" "unat (m::u16) = cap (Suc k)"
  shows "resp E h (Plat (Calloc (of_nat (SIZEOF_WIFI_RESULTS E) * ucast m) 1)) \<noteq> 0"
proof -
  have "SIZEOF_WIFI_RESULTS E * cap (Suc k) \<le> SIZEOF_WIFI_RESULTS E * cap K"
    using cap_mono [of "Suc k" K] assms(2) by simp
  moreover have "of_nat (SIZEOF_WIFI_RESULTS E) * ucast m = (of_nat (SIZEOF_WIFI_RESULTS E * cap (Suc k)) :: u32)"
    by (simp add: assms(3) [symmetric])
  ultimately have "unat (of_nat (SIZEOF_WIFI_RESULTS E) * ucast m :: u32) \<le> SIZEOF_WIFI_RESULTS E * cap K"
    by (metis dual_order.trans unat_of_nat mod_less_eq_dividend)
  with assms(1) show ?thesis by (simp add: alloc_ok_def)
qed

lemma scan_grow_ok:
  assumes "alloc_ok E K" "scan_inv K s" "scan_size s = scan_ptr s" "unat (scan_ptr s) < cap K"
  shows "\<exists>t p buf. scan_grow E s = Inr t \<and> scan_res t = Some (p, buf) \<and> scan_inv K t \<and>
    scan_report t = scan_report s \<and> scan_ptr t = scan_ptr s \<and> unat (scan_ptr t) < length buf"
proof -
  obtain k where k: "k \<le> K" "unat (scan_size s) = cap k" using assms(2) by (auto simp: scan_inv_def)
  with assms(3,4) have "k < K" using le_neq_implies_less by fastforce
  then have size: "unat (scan_size s * 2 + 5) = cap (Suc k)"
    using assms(1) by (intro grown_size [OF k(2)]) (auto simp: alloc_ok_def)
  define p where "p = resp E (trace s) (Plat (Calloc (of_nat (SIZEOF_WIFI_RESULTS E) * ucast (scan_size s * 2 + 5)) 1))"
  have p: "p \<noteq> 0" using alloc_grown [OF assms(1) \<open>k < K\<close> size] by (simp add: p_def)
  have n: "cap k \<le> cap (Suc k)" "cap k < cap (Suc k)" by (simp_all add: cap_Suc)
  define buf where "buf = scan_report s @ replicate (cap (Suc k) - cap k) blank_entry"
  have len: "length (scan_report s) = cap k" using scan_inv_ptr [OF assms(2)] assms(3) k(2) by simp
  have copy: "scan_copy p (s\<lparr>scan_size := scan_size s * 2 + 5, trace := tr\<rparr>) = Inr (Some (p, buf))" for tr
    using p n k(2) assms(2,3) size
    by (auto simp: scan_copy_def scan_inv_def scan_report_def buf_def split: option.splits)
  have "scan_grow E s = Inr (s\<lparr>scan_size := scan_size s * 2 + 5,
      trace := trace s @ [Plat (Calloc (of_nat (SIZEOF_WIFI_RESULTS E) * ucast (scan_size s * 2 + 5)) 1),
        Plat (Free (case scan_res s of None \<Rightarrow> 0 | Some (p, buf) \<Rightarrow> p))], scan_res := Some (p, buf)\<rparr>)"
    (is "_ = Inr ?t")
    using copy by (simp add: scan_grow_def jd_alloc_def jd_free_def p_def [symmetric])
  moreover have "scan_report ?t = scan_report s"
  proof -
    have "scan_res ?t = Some (p, buf)" by simp
    from scan_report_Some [OF this] show ?thesis using len assms(3) k(2) by (simp add: buf_def)
  qed
  moreover have "scan_inv K ?t"
    using assms(2,3) k(2) size \<open>k < K\<close> n len calculation(2)
    by (auto simp: scan_inv_def buf_def intro: exI [of _ "Suc k"])
  ultimately show ?thesis using len assms(3) k(2) n by (auto simp: buf_def)
qed

lemma scan_append_ok:
  assumes "alloc_ok E K" "scan_inv K s" "unat (scan_ptr s) < cap K" "res_bssid ent \<notin> set (map res_bssid (scan_report s))"
  shows "\<exists>t. scan_append E ent s = Inr t \<and> scan_inv K t \<and> scan_report t = scan_report s @ [ent]"
proof -
  have "\<exists>u p buf. (if scan_size s \<le> scan_ptr s then scan_grow E s else Inr s) = Inr u \<and> scan_res u = Some (p, buf) \<and>
      scan_inv K u \<and> scan_report u = scan_report s \<and> unat (scan_ptr u) < length buf"
  proof (cases "scan_size s \<le> scan_ptr s")
    case True
    moreover have "scan_ptr s \<le> scan_size s" using assms(2) by (simp add: scan_inv_def word_le_nat_alt)
    ultimately have "scan_size s = scan_ptr s" by simp
    from scan_grow_ok [OF assms(1,2) this assms(3)] True show ?thesis by auto
  next
    case False
    then show ?thesis using assms(2) by (auto simp: scan_inv_def word_le_nat_alt split: option.splits)
  qed
  then obtain u p buf where u: "(if scan_size s \<le> scan_ptr s then scan_grow E s else Inr s) = Inr u"
    "scan_res u = Some (p, buf)" "scan_inv K u" "scan_report u = scan_report s" "unat (scan_ptr u) < length buf" by blast
  let ?t = "u\<lparr>scan_res := Some (p, buf[unat (scan_ptr u) := ent]), scan_ptr := scan_ptr u + 1\<rparr>"
  have "scan_append E ent s = Inr ?t" using u(1,2,5) by (simp add: scan_append_def not_le)
  moreover have suc: "unat (scan_ptr u + 1) = Suc (unat (scan_ptr u))"
    using u(2,3,5) unsigned_less [of "scan_size u", where 'a = nat] by (simp add: scan_inv_def unat_word_ariths)
  moreover have rep: "scan_report ?t = scan_report s @ [ent]"
  proof -
    have "scan_res ?t = Some (p, buf[unat (scan_ptr u) := ent])" by simp
    from scan_report_Some [OF this] have "scan_report ?t = take (Suc (unat (scan_ptr u))) (buf[unat (scan_ptr u) := ent])"
      by (simp add: suc)
    also have "\<dots> = take (unat (scan_ptr u)) buf @ [ent]" using u(5) by (simp add: take_Suc_conv_app_nth)
    finally show ?thesis using scan_report_Some [OF u(2)] u(4) by simp
  qed
  moreover have "scan_inv K ?t"
    using u(2,3,5) suc assms(4) by (simp add: scan_inv_def rep) (simp add: u(4))
  ultimately show ?thesis by blast
qed

text \<open>One call of the scan callback.\<close>

definition scan_do :: "plat \<Rightarrow> cyw43_ev_scan_result_t option \<Rightarrow> 'a wifi_scheme \<Rightarrow> 'a wifi_scheme res" where
  "scan_do E result s = bindE (scan_result E result s) (\<lambda>(r, s). Inr s)"

lemma scan_found:
  assumes "scan_inv K s" "scan_res s = Some (p, buf)" "j < unat (scan_ptr s)" "res_bssid (buf ! j) = res_bssid ent"
  shows "scan_inv K (s\<lparr>scan_res := Some (p, buf[j := ent])\<rparr>) \<and>
    by_bssid (scan_report (s\<lparr>scan_res := Some (p, buf[j := ent])\<rparr>)) = (by_bssid (scan_report s))(res_bssid ent \<mapsto> ent)"
proof -
  have rep: "scan_report s = take (unat (scan_ptr s)) buf" using assms(2) by (rule scan_report_Some)
  have new: "scan_report (s\<lparr>scan_res := Some (p, buf[j := ent])\<rparr>) = (scan_report s)[j := ent]"
    by (simp add: scan_report_def assms(2) take_update_swap)
  have j: "j < length (scan_report s)" "res_bssid (scan_report s ! j) = res_bssid ent"
    using assms(3,4) scan_inv_ptr [OF assms(1)] by (simp_all add: rep)
  have "distinct (map res_bssid (scan_report s))" using assms(1) by (simp add: scan_inv_def)
  with by_bssid_replace [OF this j] assms(1,2) new show ?thesis
    by (simp add: scan_inv_def replace_keys [OF j])
qed

lemma scan_replace_absent:
  assumes "scan_inv K s" "res_bssid ent \<notin> set (map res_bssid (scan_report s))"
  shows "scan_replace ent 0 s = Inr (False, s)"
proof (cases "scan_res s")
  case None
  then show ?thesis using scan_inv_ptr [OF assms(1)] by (simp add: scan_replace.simps [of ent 0 s])
next
  case (Some pb)
  then obtain p buf where buf: "scan_res s = Some (p, buf)" by (cases pb) auto
  then have len: "unat (scan_ptr s) \<le> length buf" using assms(1) by (simp add: scan_inv_def)
  have "res_bssid (buf ! j) \<noteq> res_bssid ent" if "j < unat (scan_ptr s)" for j
  proof -
    have "buf ! j \<in> set (scan_report s)"
      using that len by (auto simp: scan_report_Some [OF buf] in_set_conv_nth)
    then have "res_bssid (buf ! j) \<in> set (map res_bssid (scan_report s))" by simp
    with assms(2) show ?thesis by metis
  qed
  with scan_replace_cases [OF buf len le0, of ent] show ?thesis by blast
qed

lemma scan_step:
  assumes "scan_rel E K m s" "scan_fits E K result m"
  shows "\<exists>t. scan_do E result s = Inr t \<and> scan_rel E K (scan_spec E result m) t"
proof (cases "\<exists>r. result = Some r \<and> ev_ssid_len r \<noteq> 0 \<and> ev_ssid r ! 0 \<noteq> 0")
  case False
  then show ?thesis using assms(1) by (auto simp: scan_do_def scan_result_def scan_spec_def split: option.splits)
next
  case True
  then obtain r where r: "result = Some r" "ev_ssid_len r \<noteq> 0" "ev_ssid r ! 0 \<noteq> 0" by blast
  define ent where "ent = entry_of E r"
  have key: "res_bssid ent = take 6 (ev_bssid r)" by (simp add: ent_def entry_of_def)
  have entry: "scan_entry E r = Inr ent" using assms(2) r(1) by (simp add: scan_fits_def scan_entry_ok ent_def)
  have spec: "scan_spec E result m = m(res_bssid ent \<mapsto> ent)" using r key by (simp add: scan_spec_def ent_def)
  have inv: "scan_inv K s" "alloc_ok E K" "by_bssid (scan_report s) = m" using assms(1) by (simp_all add: scan_rel_def)
  have run: "scan_do E result s = bindE (scan_replace ent 0 s) (\<lambda>(found, s). if \<not> found then scan_append E ent s else Inr s)"
    using r entry by (auto simp: scan_do_def scan_result_def bindE_def split: sum.split)
  show ?thesis
  proof (cases "res_bssid ent \<in> set (map res_bssid (scan_report s))")
    case False
    have "card (insert (res_bssid ent) (dom m)) \<le> cap K" using assms(2) spec by (simp add: scan_fits_def)
    moreover have "card (dom m) = unat (scan_ptr s)" "res_bssid ent \<notin> dom m" "finite (dom m)"
      using inv card_by_bssid [of "scan_report s"] scan_inv_ptr [OF inv(1)] False dom_by_bssid [of "scan_report s"]
      by (auto simp: scan_inv_def)
    ultimately have "unat (scan_ptr s) < cap K" by simp
    from scan_append_ok [OF inv(2,1) this False] obtain t where
      "scan_append E ent s = Inr t" "scan_inv K t" "scan_report t = scan_report s @ [ent]" by blast
    with run scan_replace_absent [OF inv(1) False] inv by_bssid_append [OF False] spec show ?thesis by (simp add: scan_rel_def)
  next
    case True
    then obtain p buf where buf: "scan_res s = Some (p, buf)" by (cases "scan_res s") (auto simp: scan_report_def)
    then have len: "unat (scan_ptr s) \<le> length buf" using inv(1) by (simp add: scan_inv_def)
    from scan_replace_cases [OF buf len le0, of ent] show ?thesis
    proof (elim disjE exE conjE)
      fix j assume j: "j < unat (scan_ptr s)" "res_bssid (buf ! j) = res_bssid ent"
        and rep: "scan_replace ent 0 s = Inr (True, s\<lparr>scan_res := Some (p, buf[j := ent])\<rparr>)"
      from scan_found [OF inv(1) buf j] rep run spec inv show ?thesis by (simp add: scan_rel_def)
    next
      assume "\<forall>j. 0 \<le> j \<longrightarrow> j < unat (scan_ptr s) \<longrightarrow> res_bssid (buf ! j) \<noteq> res_bssid ent"
      with True len show ?thesis by (fastforce simp: scan_report_Some [OF buf] in_set_conv_nth)
    qed
  qed
qed

interpretation scan_sim: simulation "scan_spec E" "scan_do E" "scan_fits E K" "scan_rel E K" for E K
  by unfold_locales (rule scan_step)

lemma scan_replace_in_scan: "scan_replace ent i s = Inr (b, t) \<Longrightarrow> in_scan t = in_scan s"
proof (induction ent i s rule: scan_replace.induct)
  case (1 ent i s)
  with scan_replace.simps [of ent i s] show ?case
    by (simp split: if_splits option.splits prod.splits)
qed

lemma scan_grow_in_scan: "scan_grow E s = Inr t \<Longrightarrow> in_scan t = in_scan s"
  by (auto simp: scan_grow_def jd_alloc_def jd_free_def bindE_eq_Inr)

lemma scan_append_in_scan:
  assumes "scan_append E ent s = Inr t"
  shows "in_scan t = in_scan s"
proof -
  obtain u where u: "(if scan_size s \<le> scan_ptr s then scan_grow E s else Inr s) = Inr u"
    using assms by (auto simp: scan_append_def bindE_eq_Inr)
  then have "in_scan u = in_scan s" by (auto split: if_splits dest: scan_grow_in_scan)
  moreover have "in_scan t = in_scan u"
    using assms unfolding scan_append_def u by (cases "scan_res u") (auto split: if_splits prod.splits)
  ultimately show ?thesis by simp
qed

lemma scan_do_in_scan: "scan_do E result s = Inr t \<Longrightarrow> in_scan t = in_scan s"
  by (auto simp: scan_do_def scan_result_def bindE_eq_Inr split: if_splits option.splits
      dest!: scan_replace_in_scan scan_append_in_scan)

lemma scan_run_in_scan: "run_res (scan_do E) results s = Inr t \<Longrightarrow> in_scan t = in_scan s"
  by (induction results arbitrary: s) (auto simp: bindE_eq_Inr dest: scan_do_in_scan)

lemma scan_report_frame [simp]:
  "scan_report (s\<lparr>trace := tr\<rparr>) = scan_report s" "scan_report (s\<lparr>in_scan := b\<rparr>) = scan_report s"
  by (simp_all add: scan_report_def split: option.split prod.split)

lemma cyw43_arch_poll_run: "\<exists>cs. cyw43_arch_poll E s = s\<lparr>trace := trace s @ cs\<rparr>"
  by (auto simp: cyw43_arch_poll_def)

lemma process_link_frame:
  "scan_res (jd_wifi_process_link E s) = scan_res s" "scan_ptr (jd_wifi_process_link E s) = scan_ptr s"
  "scan_size (jd_wifi_process_link E s) = scan_size s" "in_scan (jd_wifi_process_link E s) = in_scan s"
  "\<exists>cs. trace (jd_wifi_process_link E s) = trace s @ cs"
  by (simp_all add: jd_wifi_process_link_def jd_wifi_disconnect_def)

lemma process_scan_done:
  assumes "in_scan s" "\<And>h. resp E h (Wifi Cyw43_wifi_scan_active) = 0"
  shows "Wifi (Jd_wifi_scan_done_cb (scan_report s)) \<in> set (since s (jd_wifi_process E s))"
    "scan_res (jd_wifi_process E s) = None" "scan_ptr (jd_wifi_process E s) = 0" "scan_size (jd_wifi_process E s) = 0"
    "\<not> in_scan (jd_wifi_process E s)"
proof -
  obtain cs where poll: "cyw43_arch_poll E s = s\<lparr>trace := trace s @ cs\<rparr>" using cyw43_arch_poll_run by blast
  define u where "u = jd_wifi_process_scan E (s\<lparr>trace := trace s @ cs\<rparr>)"
  have run: "jd_wifi_process E s = jd_wifi_process_link E u" by (simp add: jd_wifi_process_def poll u_def)
  obtain ds where tr: "trace (jd_wifi_process E s) = trace u @ ds" using process_link_frame(5) run by metis
  have u: "trace u = trace s @ cs @ [Wifi Cyw43_wifi_scan_active, Log ''scan done!'' [] [], Wifi (Jd_wifi_scan_done_cb (scan_report s))]"
    "scan_res u = None" "scan_ptr u = 0" "scan_size u = 0" "\<not> in_scan u"
    using assms by (simp_all add: u_def jd_wifi_process_scan_def)
  show "Wifi (Jd_wifi_scan_done_cb (scan_report s)) \<in> set (since s (jd_wifi_process E s))"
    by (simp add: since_def tr u)
  show "scan_res (jd_wifi_process E s) = None" "scan_ptr (jd_wifi_process E s) = 0" "scan_size (jd_wifi_process E s) = 0"
    "\<not> in_scan (jd_wifi_process E s)"
    using u by (simp_all add: run process_link_frame)
qed

lemma scan_rel_empty:
  assumes "alloc_ok E K" "scan_res s = None" "scan_ptr s = 0" "scan_size s = 0"
  shows "scan_rel E K Map.empty s"
proof -
  have "scan_inv K s" using assms(2-4) by (auto simp: scan_inv_def scan_report_def cap_def intro: exI [of _ 0])
  then show ?thesis using assms(1,2) by (simp add: scan_rel_def scan_report_def by_bssid_def)
qed

text \<open>
  C8. A scan reports every access point exactly once, with the last result
  heard from it: after a scan is started on an empty table and any sequence of
  results has arrived that fits the memory (\<open>K\<close> growth steps of the table), with
  names that fit their arrays, no access is out of bounds, and the first
  \<open>jd_wifi_process\<close> that finds the scan finished hands the runtime a list with
  pairwise different BSSIDs that maps each one to its last named result. It leaves
  the table empty (no block, count and capacity zero), ready for the next scan.
\<close>

theorem wifi_scan_reports_last:
  assumes "alloc_ok E K" "scan_res s = None" "scan_ptr s = 0" "scan_size s = 0" "in_scan s"
    and "oks (scan_fits E K) (scan_spec E) results Map.empty"
    and "\<And>h. resp E h (Wifi Cyw43_wifi_scan_active) = 0"
  shows "\<exists>t u found. run_res (scan_do E) results s = Inr t \<and> jd_wifi_process E t = u \<and>
    Wifi (Jd_wifi_scan_done_cb found) \<in> set (since t u) \<and>
    distinct (map res_bssid found) \<and> by_bssid found = fold (scan_spec E) results Map.empty \<and>
    scan_res u = None \<and> scan_ptr u = 0 \<and> scan_size u = 0 \<and> \<not> in_scan u \<and> scan_rel E K Map.empty u"
proof -
  from scan_sim.run_refines [OF scan_rel_empty [OF assms(1-4)] assms(6)] obtain t where
    t: "run_res (scan_do E) results s = Inr t" "scan_rel E K (fold (scan_spec E) results Map.empty) t" by blast
  have "in_scan t" using scan_run_in_scan [OF t(1)] assms(5) by simp
  note fin = process_scan_done [OF this assms(7)]
  from t scan_rel_empty [OF assms(1) fin(2-4)] fin show ?thesis
    by (intro exI [of _ t] exI [of _ "jd_wifi_process E t"] exI [of _ "scan_report t"]) (simp add: scan_rel_def scan_inv_def)
qed

definition wifi_demo :: wifi where
  "wifi_demo = i2c.extend i2c_demo \<lparr>cyw43_core_num = 0, scan_res = None, scan_ptr = 0, scan_size = 0, inited = True,
     in_scan = True, prev_status = -1000, is_on = False\<rparr>"

lemma wifi_demo_simps [simp]:
  "scan_res wifi_demo = None" "scan_ptr wifi_demo = 0" "scan_size wifi_demo = 0" "in_scan wifi_demo" "inited wifi_demo"
  "prev_status wifi_demo = -1000" "\<not> is_on wifi_demo" "trace wifi_demo = []"
  by (simp_all add: wifi_demo_def i2c.defs i2c_demo_def adc_demo_def adc.defs ulog_demo_def ulog.defs
      spi_demo_def spi_state.defs)

text \<open>Three results of two access points; one is heard twice.\<close>

definition heard :: "u8 \<Rightarrow> 16 word \<Rightarrow> cyw43_ev_scan_result_t option" where
  "heard b r = Some \<lparr>ev_ssid_len = 2, ev_ssid = [104, 105], ev_bssid = [0, 1, 2, 3, 4, b], ev_rssi = r, ev_channel = 6,
     ev_auth_mode = 4\<rparr>"

definition heap_plat :: plat where
  "heap_plat = answering (\<lambda>h c. case c of Plat (Calloc n m) \<Rightarrow> 0x20001000 | _ \<Rightarrow> 0)"

theorem wifi_scan_reports_last_witness:
  "\<exists>t found. run_res (scan_do heap_plat) [heard 7 200, heard 9 201, heard 7 202] wifi_demo = Inr t \<and>
    Wifi (Jd_wifi_scan_done_cb found) \<in> set (since t (jd_wifi_process heap_plat t)) \<and> length found = 2"
proof -
  have ok: "oks (scan_fits heap_plat 1) (scan_spec heap_plat) [heard 7 200, heard 9 201, heard 7 202] Map.empty"
    by (simp add: scan_fits_def scan_spec_def heard_def cap_def card_insert_if result_ok_def heap_plat_def)
  from wifi_scan_reports_last [OF _ _ _ _ _ ok, of wifi_demo] obtain t found where
    t: "run_res (scan_do heap_plat) [heard 7 200, heard 9 201, heard 7 202] wifi_demo = Inr t"
      "Wifi (Jd_wifi_scan_done_cb found) \<in> set (since t (jd_wifi_process heap_plat t))"
      "distinct (map res_bssid found)" "by_bssid found = fold (scan_spec heap_plat) [heard 7 200, heard 9 201, heard 7 202] Map.empty"
    by (auto simp: alloc_ok_def heap_plat_def cap_def)
  from t(4) have "dom (by_bssid found) = {[0, 1, 2, 3, 4, 7], [0, 1, 2, 3, 4, 9]}"
    by (auto simp: scan_spec_def heard_def split: if_splits)
  with card_by_bssid [OF t(3)] t(1,2) show ?thesis by auto
qed

text \<open>
  Running out of memory during a scan is not handled: when the table is
  full and the allocation of the larger one fails, the next access point makes
  the callback use a null pointer.
\<close>

lemma scan_result_out_of_memory:
  assumes "scan_inv K s" "scan_ptr s = scan_size s" "ev_ssid_len r \<noteq> 0" "ev_ssid r ! 0 \<noteq> 0" "result_ok E r"
    and "take 6 (ev_bssid r) \<notin> dom (by_bssid (scan_report s))" "\<And>h n. resp E h (Plat (Calloc n 1)) = 0"
  shows "scan_result E (Some r) s = Inl Null_deref"
proof -
  have no: "scan_replace (entry_of E r) 0 s = Inr (False, s)"
    using assms(1,6) by (intro scan_replace_absent) (auto simp: dom_by_bssid entry_of_def)
  have "scan_append E (entry_of E r) s = Inl Null_deref"
    using assms(2,7) by (auto simp: scan_append_def scan_grow_def scan_copy_def jd_alloc_def jd_free_def)
  with no assms(3,4) scan_entry_ok [OF assms(5)] show ?thesis by (simp add: scan_result_def)
qed

section \<open>Link state\<close>

text \<open>The notifications about the link: \<open>True\<close> for an address obtained, \<open>False\<close> for one lost.\<close>

definition link_log :: "call list \<Rightarrow> bool list" where
  "link_log tr = concat (map (\<lambda>c. case c of Wifi w \<Rightarrow> (case w of
     Jd_wifi_got_ip_cb a \<Rightarrow> [True] | Jd_wifi_lost_ip_cb \<Rightarrow> [False] | _ \<Rightarrow> []) | _ \<Rightarrow> []) tr)"

lemma link_log_simps [simp]: "link_log [] = []" "link_log (tr @ cs) = link_log tr @ link_log cs"
  "link_log (c # cs) = (case c of Wifi w \<Rightarrow> (case w of
     Jd_wifi_got_ip_cb a \<Rightarrow> [True] | Jd_wifi_lost_ip_cb \<Rightarrow> [False] | _ \<Rightarrow> []) | _ \<Rightarrow> []) @ link_log cs"
  by (simp_all add: link_log_def)

definition link_inv :: "plat \<Rightarrow> 'a wifi_scheme \<Rightarrow> bool" where
  "link_inv E s \<longleftrightarrow> (let l = link_log (trace s) in
     l = map even [0..<length l] \<and> (prev_status s = CYW43_LINK_UP E \<longleftrightarrow> odd (length l)))"

lemma process_scan_link: "link_log (trace (jd_wifi_process_scan E (cyw43_arch_poll E s))) = link_log (trace s)"
  "prev_status (jd_wifi_process_scan E (cyw43_arch_poll E s)) = prev_status s"
  by (simp_all add: jd_wifi_process_scan_def cyw43_arch_poll_def)

lemma link_inv_step: "link_inv E s \<Longrightarrow> link_inv E (jd_wifi_process E s)"
proof -
  assume inv: "link_inv E s"
  define u where "u = jd_wifi_process_scan E (cyw43_arch_poll E s)"
  have "link_inv E u" using inv by (simp add: link_inv_def u_def process_scan_link)
  then have "link_inv E (jd_wifi_process_link E u)"
    by (auto simp: link_inv_def jd_wifi_process_link_def jd_wifi_disconnect_def)
  then show ?thesis by (simp add: jd_wifi_process_def u_def)
qed



end
