(* ===== verification/Lwip_Sock.thy ===== *)
theory Lwip_Sock
  imports Wifi
begin

text \<open>
  \<open>lwip_sock.c\<close>: the one TCP socket of the device on top of lwIP. Control blocks
  are the numbers lwIP hands out (0 is the null pointer). The runtime's
  \<open>jd_tcpsock_on_event\<close> may call back into this module, so it is a parameter
  \<open>on_event\<close> of every function that may raise an event, and the results are
  stated for runtimes that react to events with any calls of the module, nested
  to any depth. Two contracts of such a runtime are locales: \<open>sock_runtime\<close> (the
  invariant of the socket) and \<open>sock_frame\<close> (nothing outside the socket changes and
  the heap stays balanced).
\<close>

section \<open>State\<close>

record sock_state_t =
  ipaddr :: u32
  hostname :: "(int \<times> u8 list) option"
  tcp_pcb :: int
  port_num :: u16
  host_found_pending :: bool
  connected :: bool
  connecting :: bool

record sock = wifi +
  sock_state :: sock_state_t

text \<open>What \<open>memset\<close> leaves.\<close>

definition sock_zero :: sock_state_t where
  "sock_zero = \<lparr>ipaddr = 0, hostname = None, tcp_pcb = 0, port_num = 0, host_found_pending = False,
     connected = False, connecting = False\<rparr>"

lemma sock_zero_simps [simp]:
  "ipaddr sock_zero = 0" "hostname sock_zero = None" "tcp_pcb sock_zero = 0" "port_num sock_zero = 0"
  "\<not> host_found_pending sock_zero" "\<not> connected sock_zero" "\<not> connecting sock_zero"
  by (simp_all add: sock_zero_def)

abbreviation upd :: "(sock_state_t \<Rightarrow> sock_state_t) \<Rightarrow> 'a sock_scheme \<Rightarrow> 'a sock_scheme" where
  "upd f s \<equiv> s\<lparr>sock_state := f (sock_state s)\<rparr>"

type_synonym 's handler = "conn_ev \<Rightarrow> 's \<Rightarrow> 's res"

section \<open>Operations\<close>

definition jd_tcpsock_close :: "plat \<Rightarrow> 'a sock_scheme \<Rightarrow> 'a sock_scheme" where
  "jd_tcpsock_close E s =
     (let pcb = tcp_pcb (sock_state s);
          s = (if pcb \<noteq> 0
               then let s = emit (Sock (Tcp_arg pcb False)) s;
                        s = emit (Sock (Tcp_poll pcb False 0)) s;
                        s = emit (Sock (Tcp_sent pcb False)) s;
                        s = emit (Sock (Tcp_recv pcb False)) s;
                        s = emit (Sock (Tcp_err pcb False)) s;
                        (err, s) = ask E (Sock (Tcp_close pcb)) s;
                        s = (if err \<noteq> ERR_OK E
                             then emit (Sock (Tcp_abort pcb)) (emit (Log ''close failed %d'' [] [err]) s)
                             else s)
                    in upd (\<lambda>st. st\<lparr>tcp_pcb := 0\<rparr>) s
               else s);
          s = jd_free (case hostname (sock_state s) of None \<Rightarrow> 0 | Some (p, name) \<Rightarrow> p) s
      in s\<lparr>sock_state := sock_zero\<rparr>)"

definition raise_error ::
  "plat \<Rightarrow> 'a sock_scheme handler \<Rightarrow> (string \<times> u8 list list \<times> int list) option \<Rightarrow> 'a sock_scheme \<Rightarrow> 'a sock_scheme res" where
  "raise_error E on_event msg s =
     (if \<not> connecting (sock_state s) then Inr s
      else
       let (msgfmt, s) = (case msg of None \<Rightarrow> (0, s) | Some (f, strs, ints) \<Rightarrow> ask E (Sock (Jd_vsprintf_a f strs ints)) s);
           s = jd_tcpsock_close E s
       in bindE (case msg of
             None \<Rightarrow> Inr s
           | Some (f, strs, ints) \<Rightarrow>
              if msgfmt \<noteq> 0
              then bindE (on_event (JD_CONN_EV_ERROR f strs ints) s) (\<lambda>s. Inr (jd_free msgfmt s))
              else Inr s)
          (on_event JD_CONN_EV_CLOSE))"

definition tcp_client_connected ::
  "plat \<Rightarrow> 'a sock_scheme handler \<Rightarrow> int \<Rightarrow> 'a sock_scheme \<Rightarrow> (int \<times> 'a sock_scheme) res" where
  "tcp_client_connected E on_event err s =
     (if err \<noteq> ERR_OK E
      then bindE (raise_error E on_event (Some (''connect failed: %d'', [], [err])) s) (\<lambda>s. Inr (ERR_OK E, s))
      else
       let s = emit (Log ''connected'' [] []) s;
           s = upd (\<lambda>st. st\<lparr>connected := True\<rparr>) s
       in bindE (on_event JD_CONN_EV_OPEN s) (\<lambda>s. Inr (ERR_OK E, s)))"

definition tcp_client_err :: "plat \<Rightarrow> 'a sock_scheme handler \<Rightarrow> int \<Rightarrow> 'a sock_scheme \<Rightarrow> 'a sock_scheme res" where
  "tcp_client_err E on_event err s =
     (if err \<noteq> ERR_ABRT E then raise_error E on_event (Some (''sock error: %d'', [], [err])) s else Inr s)"

text \<open>A chain of packet buffers: its address, total length and the payload of each buffer.\<close>

record pbuf =
  pbuf_ptr :: int
  tot_len :: u16
  payloads :: "u8 list list"

fun recv_loop :: "'a sock_scheme handler \<Rightarrow> u8 list list \<Rightarrow> u32 \<Rightarrow> 'a sock_scheme \<Rightarrow> (u32 \<times> 'a sock_scheme) res" where
  "recv_loop on_event [] len s = Inr (len, s)"
| "recv_loop on_event (q # qs) len s =
     bindE (on_event (JD_CONN_EV_MESSAGE q) s) (recv_loop on_event qs (len + of_nat (length q)))"

definition tcp_client_recv ::
  "plat \<Rightarrow> 'a sock_scheme handler \<Rightarrow> int \<Rightarrow> pbuf option \<Rightarrow> int \<Rightarrow> 'a sock_scheme \<Rightarrow> (int \<times> 'a sock_scheme) res" where
  "tcp_client_recv E on_event tpcb pb err s =
     (case pb of
        None \<Rightarrow> bindE (raise_error E on_event (Some (''recv without buf?'', [], [])) s) (\<lambda>s. Inr (ERR_OK E, s))
      | Some p \<Rightarrow>
         bindE
           (if 0 < tot_len p
            then let s = emit (Log ''recv %d err %d'' [] [uint (tot_len p), err]) s
                 in bindE (recv_loop on_event (payloads p) 0 s) (\<lambda>(len, s).
                    bindE (jd_assert (len = ucast (tot_len p)) s) (\<lambda>s.
                    Inr (emit (Sock (Tcp_recved tpcb (tot_len p))) s)))
            else Inr s)
           (\<lambda>s. Inr (ERR_OK E, emit (Sock (Pbuf_free (pbuf_ptr p))) s)))"

definition host_found ::
  "plat \<Rightarrow> 'a sock_scheme handler \<Rightarrow> u8 list option \<Rightarrow> u32 option \<Rightarrow> 'a sock_scheme \<Rightarrow> 'a sock_scheme res" where
  "host_found E on_event name ip s =
     (case ip of
        None \<Rightarrow> Inl Null_deref
      | Some a \<Rightarrow>
         let s = upd (\<lambda>st. st\<lparr>ipaddr := a\<rparr>) s;
             s = emit (Sock (Ip4addr_ntoa a)) s;
             s = emit (Log ''connecting to %s:%d (%s)'' [case name of None \<Rightarrow> [] | Some nm \<Rightarrow> nm]
                   [uint (port_num (sock_state s)), uint a]) s;
             (pcb, s) = ask E (Sock (Tcp_new_ip_type a)) s;
             s = upd (\<lambda>st. st\<lparr>tcp_pcb := pcb\<rparr>) s
         in if pcb = 0 then raise_error E on_event (Some (''can't alloc pcb'', [], [])) s
            else
             let s = emit (Sock (Tcp_arg pcb True)) s;
                 s = emit (Sock (Tcp_recv pcb True)) s;
                 s = emit (Sock (Tcp_err pcb True)) s;
                 (err, s) = ask E (Sock (Tcp_connect pcb a (port_num (sock_state s)))) s
             in if err \<noteq> 0 then raise_error E on_event (Some (''can't start connect: %d'', [], [err])) s else Inr s)"

text \<open>The address a call writes through the pointer it is given.\<close>

definition out_addr :: "plat \<Rightarrow> call \<Rightarrow> 'a mach_scheme \<Rightarrow> u32" where
  "out_addr E c s = word_rcat (map (outbuf E (trace s) c) [3, 2, 1, 0])"

definition jd_tcpsock_new ::
  "plat \<Rightarrow> 'a sock_scheme handler \<Rightarrow> u8 list \<Rightarrow> int \<Rightarrow> 'a sock_scheme \<Rightarrow> (int \<times> 'a sock_scheme) res" where
  "jd_tcpsock_new E on_event name port s =
     (if port = 0 \<or> 0xffff < (word_of_int port :: u32) then Inr (-100, s)
      else
       let s = jd_tcpsock_close E s;
           s = upd (\<lambda>st. st\<lparr>port_num := word_of_int port\<rparr>) s;
           (p, s) = ask E (Sock (Jd_strdup name)) s;
           s = upd (\<lambda>st. st\<lparr>hostname := (if p = 0 then None else Some (p, name))\<rparr>) s;
           s = upd (\<lambda>st. st\<lparr>connecting := True\<rparr>) s;
           dns = Sock (Dns_gethostbyname (map_option snd (hostname (sock_state s))));
           a = out_addr E dns s;
           (err, s) = ask E dns s;
           s = upd (\<lambda>st. st\<lparr>ipaddr := a\<rparr>) s
       in if err = ERR_INPROGRESS E then Inr (0, s)
          else if err = ERR_OK E then Inr (err, upd (\<lambda>st. st\<lparr>host_found_pending := True\<rparr>) s)
          else bindE (raise_error E on_event
                 (Some (''can't resolve '%s': %d'', [case hostname (sock_state s) of None \<Rightarrow> [] | Some (p, nm) \<Rightarrow> nm], [err])) s)
               (\<lambda>s. Inr (err, jd_tcpsock_close E s)))"

definition jd_tcpsock_write ::
  "plat \<Rightarrow> 'a sock_scheme handler \<Rightarrow> u8 list \<Rightarrow> 'a sock_scheme \<Rightarrow> (int \<times> 'a sock_scheme) res" where
  "jd_tcpsock_write E on_event buf s =
     (if \<not> connected (sock_state s) then Inr (-10, s)
      else
       bindE (jd_assert (length buf < 0xffff) s) (\<lambda>s.
       let (err, s) = ask E (Sock (Tcp_write (tcp_pcb (sock_state s)) buf)) s
       in if err \<noteq> 0
          then bindE (raise_error E on_event (Some (''write error: %d'', [], [err])) s) (\<lambda>s. Inr (err, s))
          else
           let (err, s) = ask E (Sock (Tcp_output (tcp_pcb (sock_state s)))) s
           in if err \<noteq> 0
              then bindE (raise_error E on_event (Some (''flush error: %d'', [], [err])) s) (\<lambda>s. Inr (err, s))
              else Inr (err, s)))"

definition jd_tcpsock_process :: "plat \<Rightarrow> 'a sock_scheme handler \<Rightarrow> 'a sock_scheme \<Rightarrow> 'a sock_scheme res" where
  "jd_tcpsock_process E on_event s =
     (if host_found_pending (sock_state s)
      then let s = upd (\<lambda>st. st\<lparr>host_found_pending := True\<rparr>) s
           in host_found E on_event (map_option snd (hostname (sock_state s))) (Some (ipaddr (sock_state s))) s
      else Inr s)"

section \<open>The socket never uses a null control block\<close>

text \<open>The control block a call is given.\<close>

fun pcb_of :: "sock_call \<Rightarrow> int option" where
  "pcb_of (Tcp_arg p b) = Some p"
| "pcb_of (Tcp_poll p b n) = Some p"
| "pcb_of (Tcp_sent p b) = Some p"
| "pcb_of (Tcp_recv p b) = Some p"
| "pcb_of (Tcp_err p b) = Some p"
| "pcb_of (Tcp_close p) = Some p"
| "pcb_of (Tcp_abort p) = Some p"
| "pcb_of (Tcp_connect p a n) = Some p"
| "pcb_of (Tcp_write p buf) = Some p"
| "pcb_of (Tcp_output p) = Some p"
| "pcb_of (Tcp_recved p n) = Some p"
| "pcb_of _ = None"

definition null_free :: "call list \<Rightarrow> bool" where
  "null_free tr \<longleftrightarrow> list_all (\<lambda>c. case c of Sock k \<Rightarrow> pcb_of k \<noteq> Some 0 | _ \<Rightarrow> True) tr"

lemma null_free_simps [simp]: "null_free []" "null_free (tr @ cs) \<longleftrightarrow> null_free tr \<and> null_free cs"
  "null_free (c # cs) \<longleftrightarrow> (case c of Sock k \<Rightarrow> pcb_of k \<noteq> Some 0 | _ \<Rightarrow> True) \<and> null_free cs"
  by (simp_all add: null_free_def)

definition sock_inv :: "'a sock_scheme \<Rightarrow> bool" where
  "sock_inv s \<longleftrightarrow> (\<not> connecting (sock_state s) \<longrightarrow> sock_state s = sock_zero) \<and>
     (connected (sock_state s) \<longrightarrow> tcp_pcb (sock_state s) \<noteq> 0) \<and> null_free (trace s)"

definition keeps :: "'a sock_scheme res \<Rightarrow> bool" where
  "keeps m \<longleftrightarrow> (\<exists>t. m = Inr t \<and> sock_inv t)"

lemma keeps_Inr [simp]: "keeps (Inr t) \<longleftrightarrow> sock_inv t"
  by (simp add: keeps_def)

lemma keeps_bind [intro]: "keeps m \<Longrightarrow> (\<And>t. sock_inv t \<Longrightarrow> keeps (f t)) \<Longrightarrow> keeps (bindE m f)"
  by (auto simp: keeps_def)

lemma keeps_run: "(\<And>e s. e \<in> set es \<Longrightarrow> sock_inv s \<Longrightarrow> keeps (f e s)) \<Longrightarrow> sock_inv s \<Longrightarrow> keeps (run_res f es s)"
proof (induction es arbitrary: s)
  case (Cons e es)
  from Cons.prems have "keeps (f e s)" by simp
  with Cons show ?case by auto
qed simp

text \<open>Forgetting the return value.\<close>

definition state_of :: "(int \<times> 's) res \<Rightarrow> 's res" where
  "state_of m = bindE m (\<lambda>(r, s). Inr s)"

lemma state_of_simps [simp]: "state_of (Inr (r, s)) = Inr s" "state_of (Inl e) = Inl e"
  "state_of (bindE m f) = bindE m (\<lambda>x. state_of (f x))"
  by (simp_all add: state_of_def bindE_assoc)

lemma close_state [simp]: "sock_state (jd_tcpsock_close E s) = sock_zero"
  by (simp add: jd_tcpsock_close_def jd_free_def)

lemma close_null_free [simp]: "null_free (trace (jd_tcpsock_close E s)) = null_free (trace s)"
  by (simp add: jd_tcpsock_close_def jd_free_def)

lemma close_inv: "null_free (trace s) \<Longrightarrow> sock_inv (jd_tcpsock_close E s)"
  by (simp add: sock_inv_def)

text \<open>
  The contract of the runtime: reacting to an event ends without a fault and
  keeps the invariant. Every entry point of the module then keeps it too.
\<close>

locale sock_runtime =
  fixes E :: plat and on_event :: "'a sock_scheme handler"
  assumes on_event_keeps: "sock_inv s \<Longrightarrow> keeps (on_event e s)"
begin

lemma error_events:
  assumes "sock_inv u"
  shows "keeps (bindE (bindE (on_event e u) (\<lambda>s. Inr (jd_free p s))) (on_event c))"
proof -
  have "sock_inv (jd_free p t)" if "sock_inv t" for t :: "'a sock_scheme"
    using that by (simp add: jd_free_def sock_inv_def)
  with assms show ?thesis by (auto intro!: keeps_bind on_event_keeps)
qed

lemma raise_error_keeps:
  assumes "null_free (trace s)" "\<not> connecting (sock_state s) \<Longrightarrow> sock_inv s"
  shows "keeps (raise_error E on_event msg s)"
  using assms
  by (auto simp: raise_error_def split: option.split intro!: error_events on_event_keeps close_inv)

lemma connected_keeps:
  assumes "sock_inv s" "tcp_pcb (sock_state s) \<noteq> 0"
  shows "keeps (state_of (tcp_client_connected E on_event err s))"
proof -
  have "connecting (sock_state s)" using assms by (auto simp: sock_inv_def sock_zero_def)
  with assms have "sock_inv (upd (\<lambda>st. st\<lparr>connected := True\<rparr>) (emit (Log ''connected'' [] []) s))" by (simp add: sock_inv_def)
  moreover have "keeps (raise_error E on_event msg s)" for msg
    using assms(1) by (intro raise_error_keeps) (simp_all add: sock_inv_def)
  ultimately show ?thesis
    by (auto simp: tcp_client_connected_def intro!: keeps_bind on_event_keeps)
qed

lemma err_keeps: "sock_inv s \<Longrightarrow> keeps (tcp_client_err E on_event err s)"
  by (auto simp: tcp_client_err_def sock_inv_def intro!: raise_error_keeps)

lemma recv_loop_keeps:
  "sock_inv s \<Longrightarrow> \<exists>t. recv_loop on_event qs len s = Inr (len + of_nat (sum_list (map length qs)), t) \<and> sock_inv t"
proof (induction qs arbitrary: len s)
  case (Cons q qs)
  obtain t where "on_event (JD_CONN_EV_MESSAGE q) s = Inr t" "sock_inv t"
    using on_event_keeps [OF Cons.prems] by (auto simp: keeps_def)
  with Cons.IH [of t "len + of_nat (length q)"] show ?case by (simp add: add.assoc)
qed simp

lemma recv_keeps:
  assumes "sock_inv s" "tpcb \<noteq> 0" "\<And>p. pb = Some p \<Longrightarrow> sum_list (map length (payloads p)) = unat (tot_len p)"
  shows "keeps (state_of (tcp_client_recv E on_event tpcb pb err s))"
proof (cases pb)
  case None
  have "keeps (raise_error E on_event msg s)" for msg
    using assms(1) by (intro raise_error_keeps) (simp_all add: sock_inv_def)
  with None show ?thesis by (auto simp: tcp_client_recv_def intro!: keeps_bind)
next
  case (Some p)
  let ?s = "emit (Log ''recv %d err %d'' [] [uint (tot_len p), err]) s"
  have "sock_inv ?s" using assms(1) by (simp add: sock_inv_def)
  from recv_loop_keeps [OF this, of "payloads p" 0] obtain t where
    t: "recv_loop on_event (payloads p) 0 ?s = Inr (ucast (tot_len p), t)" "sock_inv t"
    using assms(3) [OF Some] by auto
  with Some assms(1,2) show ?thesis by (auto simp: tcp_client_recv_def sock_inv_def)
qed

lemma host_found_keeps:
  assumes "sock_inv s" "connecting (sock_state s)"
  shows "keeps (host_found E on_event name (Some a) s)"
  using assms by (auto simp: host_found_def sock_inv_def intro!: raise_error_keeps)

lemma new_keeps:
  assumes "sock_inv s"
  shows "keeps (state_of (jd_tcpsock_new E on_event name port s))"
proof -
  have *: "keeps (bindE (raise_error E on_event msg t) (\<lambda>s. Inr (jd_tcpsock_close E s)))"
    if "null_free (trace t)" "connecting (sock_state t)" for msg t
    using that by (auto intro!: keeps_bind raise_error_keeps close_inv simp: sock_inv_def)
  show ?thesis
    using assms by (auto simp: jd_tcpsock_new_def sock_inv_def intro!: *)
qed

lemma write_keeps:
  assumes "sock_inv s" "length buf < 0xffff"
  shows "keeps (state_of (jd_tcpsock_write E on_event buf s))"
proof -
  have *: "keeps (bindE (raise_error E on_event msg (s\<lparr>trace := tr\<rparr>)) Inr)" if "null_free tr" for msg tr
    using that assms(1) by (auto intro!: raise_error_keeps simp: sock_inv_def)
  show ?thesis
    using assms by (auto simp: jd_tcpsock_write_def sock_inv_def intro!: * [simplified])
qed

lemma process_keeps: "sock_inv s \<Longrightarrow> keeps (jd_tcpsock_process E on_event s)"
  by (auto simp: jd_tcpsock_process_def sock_inv_def intro!: host_found_keeps)

end

text \<open>
  Runtimes: one that only records the event, and, on top of any, one that
  reacts with calls of the module chosen from the history and the event.
\<close>

datatype sock_api = Api_new "u8 list" int | Api_write "u8 list" | Api_close

fun api_ok :: "sock_api \<Rightarrow> bool" where
  "api_ok (Api_write buf) \<longleftrightarrow> length buf < 0xffff"
| "api_ok _ \<longleftrightarrow> True"

fun api_do :: "plat \<Rightarrow> 'a sock_scheme handler \<Rightarrow> sock_api \<Rightarrow> 'a sock_scheme \<Rightarrow> 'a sock_scheme res" where
  "api_do E on_event (Api_new name port) s = state_of (jd_tcpsock_new E on_event name port s)"
| "api_do E on_event (Api_write buf) s = state_of (jd_tcpsock_write E on_event buf s)"
| "api_do E on_event Api_close s = Inr (jd_tcpsock_close E s)"

fun runtime :: "plat \<Rightarrow> (call list \<Rightarrow> conn_ev \<Rightarrow> sock_api list) \<Rightarrow> nat \<Rightarrow> 'a sock_scheme handler" where
  "runtime E react 0 e s = Inr (emit (Sock (Jd_tcpsock_on_event e)) s)"
| "runtime E react (Suc n) e s =
     run_res (api_do E (runtime E react n)) (filter api_ok (react (trace s) e)) (emit (Sock (Jd_tcpsock_on_event e)) s)"

context sock_runtime
begin

lemma api_keeps: "api_ok a \<Longrightarrow> sock_inv s \<Longrightarrow> keeps (api_do E on_event a s)"
  by (cases a) (auto simp: new_keeps write_keeps close_inv sock_inv_def)

end

lemma runtime_keeps: "sock_inv s \<Longrightarrow> keeps (runtime E react n e s)" for s :: "'a sock_scheme"
proof (induction n arbitrary: e s)
  case 0
  then show ?case by (simp add: sock_inv_def)
next
  case (Suc n)
  have "sock_runtime (runtime E react n :: 'a sock_scheme handler)" by unfold_locales (rule Suc.IH)
  note api = sock_runtime.api_keeps [OF this]
  have "sock_inv (emit (Sock (Jd_tcpsock_on_event e)) s)" using Suc.prems by (simp add: sock_inv_def)
  then show ?case by (auto intro!: keeps_run api)
qed

interpretation rt: sock_runtime E "runtime E react n" for E react n
  by unfold_locales (rule runtime_keeps)

text \<open>
  Everything that can happen to the socket, in any order: calls of the runtime,
  the main loop, and the callbacks of lwIP. Only their arguments are restricted: blocks written
  are shorter than 65535 bytes, buffer chains have the length they state. An
  event is \<open>stray\<close> when it belongs to an attempt that is already over: an answer of
  the resolver while nothing is being connected, or a connection that opens when
  the socket has no control block.
\<close>

datatype sock_ev =
    Sk_api sock_api
  | Sk_process
  | Sk_connected int
  | Sk_err int
  | Sk_recv int "pbuf option" int
  | Sk_dns "u8 list option" "u32 option"

fun sock_ev_ok :: "sock_ev \<Rightarrow> bool" where
  "sock_ev_ok (Sk_api a) \<longleftrightarrow> api_ok a"
| "sock_ev_ok (Sk_recv tpcb pb err) \<longleftrightarrow> tpcb \<noteq> 0 \<and>
     (case pb of None \<Rightarrow> True | Some p \<Rightarrow> sum_list (map length (payloads p)) = unat (tot_len p))"
| "sock_ev_ok _ \<longleftrightarrow> True"

fun stray :: "sock_ev \<Rightarrow> 'a sock_scheme \<Rightarrow> bool" where
  "stray (Sk_dns name ip) s \<longleftrightarrow> \<not> connecting (sock_state s)"
| "stray (Sk_connected err) s \<longleftrightarrow> tcp_pcb (sock_state s) = 0"
| "stray _ s \<longleftrightarrow> False"

fun null_answer :: "sock_ev \<Rightarrow> bool" where
  "null_answer (Sk_dns name None) \<longleftrightarrow> True"
| "null_answer _ \<longleftrightarrow> False"

fun sock_do :: "plat \<Rightarrow> 'a sock_scheme handler \<Rightarrow> sock_ev \<Rightarrow> 'a sock_scheme \<Rightarrow> 'a sock_scheme res" where
  "sock_do E h (Sk_api a) s = api_do E h a s"
| "sock_do E h Sk_process s = jd_tcpsock_process E h s"
| "sock_do E h (Sk_connected err) s = state_of (tcp_client_connected E h err s)"
| "sock_do E h (Sk_err err) s = tcp_client_err E h err s"
| "sock_do E h (Sk_recv tpcb pb err) s = state_of (tcp_client_recv E h tpcb pb err s)"
| "sock_do E h (Sk_dns name ip) s = host_found E h name ip s"

text \<open>The reachable states, with a mark that says whether a stray event has happened.\<close>

inductive sock_reach :: "plat \<Rightarrow> 'a sock_scheme handler \<Rightarrow> bool \<Rightarrow> 'a sock_scheme \<Rightarrow> bool" for E h where
  start: "sock_state s = sock_zero \<Longrightarrow> null_free (trace s) \<Longrightarrow> sock_reach E h False s"
| step: "sock_reach E h d s \<Longrightarrow> sock_ev_ok e \<Longrightarrow> sock_do E h e s = Inr t \<Longrightarrow> sock_reach E h (d \<or> stray e s) t"

context sock_runtime
begin

lemma dns_keeps:
  assumes "sock_inv s" "connecting (sock_state s)" "ip \<noteq> None"
  shows "keeps (host_found E on_event name ip s)"
  using assms host_found_keeps by auto

lemma sock_do_keeps: "sock_inv s \<Longrightarrow> sock_ev_ok e \<Longrightarrow> \<not> stray e s \<Longrightarrow> \<not> null_answer e \<Longrightarrow> keeps (sock_do E on_event e s)"
  by (cases e) (auto simp: api_keeps process_keeps connected_keeps err_keeps elim!: null_answer.elims intro!: recv_keeps dns_keeps)

lemma reach_inv: "sock_reach E on_event d s \<Longrightarrow> \<not> d \<Longrightarrow> sock_inv s"
proof (induction rule: sock_reach.induct)
  case (step d s e t)
  moreover have "\<not> null_answer e" using step.hyps(3) by (auto simp: host_found_def elim!: null_answer.elims)
  ultimately show ?case using sock_do_keeps [of s e] by (simp add: keeps_def)
qed (simp add: sock_inv_def)

end

section \<open>What the socket leaves alone\<close>

text \<open>
  The calls the module makes, and the heap they work on: the blocks at \<open>p\<close> that
  the calls so far have allocated and not released.
\<close>

definition sock_made :: "call \<Rightarrow> bool" where
  "sock_made c \<longleftrightarrow> (case c of Sock k \<Rightarrow> True | Log f ss is \<Rightarrow> True | Plat (Free p) \<Rightarrow> True | _ \<Rightarrow> False)"

definition is_alloc :: "call \<Rightarrow> bool" where
  "is_alloc c \<longleftrightarrow> (case c of Sock (Jd_strdup x) \<Rightarrow> True | Sock (Jd_vsprintf_a f ss is) \<Rightarrow> True | Plat (Calloc n k) \<Rightarrow> True | _ \<Rightarrow> False)"

fun live_from :: "plat \<Rightarrow> int \<Rightarrow> call list \<Rightarrow> call list \<Rightarrow> int" where
  "live_from E p h [] = 0"
| "live_from E p h (c # cs) =
     of_bool (is_alloc c \<and> resp E h c = p) - of_bool (c = Plat (Free p)) + live_from E p (h @ [c]) cs"

definition live :: "plat \<Rightarrow> int \<Rightarrow> call list \<Rightarrow> int" where
  "live E p tr = live_from E p [] tr"

text \<open>Every release of a pointer other than null releases a block that is allocated at that moment.\<close>

fun frees_from :: "plat \<Rightarrow> call list \<Rightarrow> call list \<Rightarrow> bool" where
  "frees_from E h [] \<longleftrightarrow> True"
| "frees_from E h (c # cs) \<longleftrightarrow>
     (case c of Plat (Free p) \<Rightarrow> p \<noteq> 0 \<longrightarrow> 0 < live E p h | _ \<Rightarrow> True) \<and> frees_from E (h @ [c]) cs"

definition frees_ok :: "plat \<Rightarrow> call list \<Rightarrow> bool" where
  "frees_ok E tr \<longleftrightarrow> frees_from E [] tr"

lemma live_append: "live E p (tr @ cs) = live E p tr + live_from E p tr cs"
proof -
  have "live_from E p h (tr @ cs) = live_from E p h tr + live_from E p (h @ tr) cs" for h
    by (induction tr arbitrary: h) simp_all
  from this [of "[]"] show ?thesis by (simp add: live_def)
qed

lemma frees_append: "frees_ok E (tr @ cs) \<longleftrightarrow> frees_ok E tr \<and> frees_from E tr cs"
proof -
  have "frees_from E h (tr @ cs) \<longleftrightarrow> frees_from E h tr \<and> frees_from E (h @ tr) cs" for h
    by (induction tr arbitrary: h) simp_all
  from this [of "[]"] show ?thesis by (simp add: frees_ok_def)
qed

definition host_ptr :: "'a sock_scheme \<Rightarrow> int" where
  "host_ptr s = (case hostname (sock_state s) of None \<Rightarrow> 0 | Some (p, name) \<Rightarrow> p)"

text \<open>The blocks at \<open>p\<close> beyond the host name of the socket, and a heap in which there are never too few.\<close>

definition spare :: "plat \<Rightarrow> int \<Rightarrow> 'a sock_scheme \<Rightarrow> int" where
  "spare E p s = live E p (trace s) - of_bool (host_ptr s = p)"

definition heap_ok :: "plat \<Rightarrow> 'a sock_scheme \<Rightarrow> bool" where
  "heap_ok E s \<longleftrightarrow> frees_ok E (trace s) \<and> (\<forall>p. p \<noteq> 0 \<longrightarrow> 0 \<le> spare E p s)"

definition sock_only :: "'a sock_scheme \<Rightarrow> 'a sock_scheme \<Rightarrow> bool" where
  "sock_only s t \<longleftrightarrow> (\<exists>cs st. t = s\<lparr>trace := trace s @ cs, sock_state := st\<rparr> \<and> list_all sock_made cs)"

definition evolves :: "plat \<Rightarrow> 'a sock_scheme \<Rightarrow> 'a sock_scheme \<Rightarrow> bool" where
  "evolves E s t \<longleftrightarrow> sock_only s t \<and> (\<forall>p. p \<noteq> 0 \<longrightarrow> spare E p t = spare E p s) \<and> (heap_ok E s \<longrightarrow> heap_ok E t)"

lemma sock_onlyI: "t = s\<lparr>trace := trace s @ cs, sock_state := st\<rparr> \<Longrightarrow> list_all sock_made cs \<Longrightarrow> sock_only s t"
  by (auto simp: sock_only_def)

lemma sock_only_trans: "sock_only s t \<Longrightarrow> sock_only t u \<Longrightarrow> sock_only s u"
  by (fastforce simp: sock_only_def)

lemma evolves_refl [simp, intro]: "evolves E s s"
  by (auto simp: evolves_def intro: sock_onlyI [where cs = "[]" and st = "sock_state s"])

lemma evolves_trans [trans]: "evolves E s t \<Longrightarrow> evolves E t u \<Longrightarrow> evolves E s u"
  by (auto simp: evolves_def intro: sock_only_trans)

lemmas heap_defs = evolves_def heap_ok_def spare_def host_ptr_def live_append frees_append

lemma evolves_calls:
  assumes "list_all (\<lambda>c. sock_made c \<and> \<not> is_alloc c \<and> (\<forall>p. c \<noteq> Plat (Free p))) cs"
    and "hostname st = hostname (sock_state s)"
  shows "evolves E s (s\<lparr>trace := trace s @ cs, sock_state := st\<rparr>)"
proof -
  have "live_from E p h cs = 0 \<and> frees_from E h cs" for h p
    using assms(1) by (induction cs arbitrary: h) (auto split: call.split plat_call.split)
  moreover have "list_all sock_made cs" using assms(1) by (auto simp: list_all_iff)
  ultimately show ?thesis using assms(2) by (auto simp: heap_defs intro: sock_onlyI)
qed

lemma evolves_call: "sock_made c \<Longrightarrow> \<not> is_alloc c \<Longrightarrow> (\<And>p. c \<noteq> Plat (Free p)) \<Longrightarrow> evolves E s (emit c s)"
  using evolves_calls [of "[c]" "sock_state s" s] by simp

lemma evolves_upd: "hostname (f (sock_state s)) = hostname (sock_state s) \<Longrightarrow> evolves E s (upd f s)"
  using evolves_calls [of "[]" "f (sock_state s)" s] by simp

text \<open>Releasing the host name with the state reset, and a block that is held during other steps.\<close>

lemma evolves_release: "evolves E s ((jd_free (host_ptr s) s)\<lparr>sock_state := sock_zero\<rparr>)"
proof -
  have "sock_only s ((jd_free (host_ptr s) s)\<lparr>sock_state := sock_zero\<rparr>)"
    by (rule sock_onlyI [where cs = "[Plat (Free (host_ptr s))]"]) (simp_all add: jd_free_def sock_made_def)
  moreover have "0 < live E p (trace s)" if "0 \<le> spare E p s" "host_ptr s = p" for p
    using that by (simp add: spare_def)
  ultimately show ?thesis
    by (auto simp: evolves_def heap_ok_def spare_def live_append frees_append jd_free_def is_alloc_def)
      (auto simp: host_ptr_def)
qed

lemma evolves_borrow:
  assumes "sock_made c" "is_alloc c" "m = resp E (trace s) c" "evolves E (emit c s) t"
  shows "evolves E s (jd_free m t)"
proof -
  have "sock_only s (emit c s)" using assms(1) by (intro sock_onlyI [where cs = "[c]" and st = "sock_state s"]) simp_all
  moreover have "sock_only t (jd_free m t)"
    by (rule sock_onlyI [where cs = "[Plat (Free m)]" and st = "sock_state t"]) (simp_all add: jd_free_def sock_made_def)
  ultimately have only: "sock_only s (jd_free m t)" using assms(4) sock_only_trans by (metis evolves_def)
  have nf: "c \<noteq> Plat (Free p)" for p using assms(2) by (auto simp: is_alloc_def)
  have host: "host_ptr (jd_free m t) = host_ptr t" "host_ptr (emit c s) = host_ptr s" by (simp_all add: jd_free_def host_ptr_def)
  have emit: "spare E p (emit c s) = spare E p s + of_bool (m = p)" for p
    using assms(2,3) nf host(2) by (simp add: spare_def live_append)
  have free: "spare E p (jd_free m t) = spare E p t - of_bool (m = p)" for p
    unfolding spare_def host by (simp add: jd_free_def live_append is_alloc_def)
  have same: "spare E p (jd_free m t) = spare E p s" if "p \<noteq> 0" for p
    using assms(4) that free [of p] emit [of p] by (simp add: evolves_def)
  moreover have "heap_ok E (jd_free m t)" if ok: "heap_ok E s"
  proof -
    have "frees_from E (trace s) [c]" using nf by (auto split: call.split plat_call.split)
    then have "heap_ok E (emit c s)" using ok emit by (simp add: heap_ok_def frees_append)
    then have "frees_ok E (trace t)" using assms(4) by (simp add: evolves_def heap_ok_def)
    moreover have "0 < live E m (trace t)" if "m \<noteq> 0"
    proof -
      have "spare E m t = spare E m s + 1" using assms(4) that emit [of m] by (simp add: evolves_def)
      moreover have "0 \<le> spare E m s" using ok that by (simp add: heap_ok_def)
      ultimately show ?thesis by (auto simp: spare_def of_bool_def split: if_splits)
    qed
    ultimately have "frees_ok E (trace (jd_free m t))" by (simp add: jd_free_def frees_append)
    with same ok show ?thesis by (simp add: heap_ok_def)
  qed
  ultimately show ?thesis using only by (simp add: evolves_def)
qed

lemma evolves_null:
  assumes "sock_made c" "is_alloc c" "resp E (trace s) c = 0"
  shows "evolves E s (emit c s)"
proof -
  have "c \<noteq> Plat (Free p)" for p using assms(2) by (auto simp: is_alloc_def)
  then have "frees_from E (trace s) [c]" by (auto split: call.split plat_call.split)
  moreover have "sock_only s (emit c s)" using assms(1) by (intro sock_onlyI [where cs = "[c]" and st = "sock_state s"]) simp_all
  ultimately show ?thesis using assms \<open>\<And>p. c \<noteq> Plat (Free p)\<close> by (auto simp: heap_defs)
qed

text \<open>A step that ends and does no more than that.\<close>

definition steps :: "plat \<Rightarrow> 'a sock_scheme \<Rightarrow> 'a sock_scheme res \<Rightarrow> bool" where
  "steps E s m \<longleftrightarrow> (\<exists>t. m = Inr t \<and> evolves E s t)"

lemma steps_Inr [simp]: "steps E s (Inr t) \<longleftrightarrow> evolves E s t"
  by (simp add: steps_def)

lemma steps_bind: "steps E s m \<Longrightarrow> (\<And>t. evolves E s t \<Longrightarrow> steps E t (f t)) \<Longrightarrow> steps E s (bindE m f)"
  by (auto simp: steps_def) (metis evolves_trans)

lemma steps_after: "evolves E s t \<Longrightarrow> steps E t m \<Longrightarrow> steps E s m"
  by (auto simp: steps_def intro: evolves_trans)

lemma steps_run: "(\<And>e s. e \<in> set es \<Longrightarrow> steps E s (f e s)) \<Longrightarrow> steps E s (run_res f es s)"
proof (induction es arbitrary: s)
  case (Cons e es)
  then have "steps E s (f e s)" by simp
  with Cons show ?case by (auto intro!: steps_bind)
qed simp

lemma close_evolves: "evolves E s (jd_tcpsock_close E s)"
proof -
  define u where "u = (let pcb = tcp_pcb (sock_state s) in if pcb \<noteq> 0
     then let t = s\<lparr>trace := trace s @ [Sock (Tcp_arg pcb False), Sock (Tcp_poll pcb False 0), Sock (Tcp_sent pcb False),
                Sock (Tcp_recv pcb False), Sock (Tcp_err pcb False)]\<rparr>;
              (err, t) = ask E (Sock (Tcp_close pcb)) t
          in upd (\<lambda>st. st\<lparr>tcp_pcb := 0\<rparr>) (if err \<noteq> ERR_OK E
               then t\<lparr>trace := trace t @ [Log ''close failed %d'' [] [err], Sock (Tcp_abort pcb)]\<rparr> else t)
     else s)"
  have "jd_tcpsock_close E s = (jd_free (host_ptr u) u)\<lparr>sock_state := sock_zero\<rparr>"
    by (simp add: jd_tcpsock_close_def u_def host_ptr_def)
  moreover have "evolves E s u"
    unfolding u_def by (auto simp: Let_def intro!: evolves_calls simp: sock_made_def is_alloc_def)
  ultimately show ?thesis using evolves_release evolves_trans by metis
qed

text \<open>
  The contract of the runtime for this: reacting to an event ends and does no
  more than calls of the module do.
\<close>

locale sock_frame =
  fixes E :: plat and on_event :: "'a sock_scheme handler"
  assumes on_event_steps: "steps E s (on_event e s)"
begin

lemma raise_error_steps: "steps E s (raise_error E on_event msg s)"
proof (cases msg)
  case None
  then show ?thesis by (auto simp: raise_error_def intro: steps_after [OF close_evolves] on_event_steps)
next
  case (Some m)
  obtain f ss xs where m: "m = (f, ss, xs)" by (cases m) auto
  define c where "c = Sock (Jd_vsprintf_a f ss xs)"
  have c: "sock_made c" "is_alloc c" by (simp_all add: c_def sock_made_def is_alloc_def)
  let ?p = "resp E (trace s) c" and ?u = "jd_tcpsock_close E (emit c s)"
  have "steps E s (bindE (on_event e ?u) (\<lambda>s. Inr (jd_free ?p s)))" for e
  proof -
    obtain t where "on_event e ?u = Inr t" "evolves E ?u t" using on_event_steps by (auto simp: steps_def)
    then show ?thesis by (auto intro!: evolves_borrow [OF c refl] intro: evolves_trans [OF close_evolves])
  qed
  moreover have "evolves E s ?u" if "?p = 0" using evolves_null [OF c that] close_evolves by (rule evolves_trans)
  ultimately have "steps E s (if ?p \<noteq> 0 then bindE (on_event e ?u) (\<lambda>s. Inr (jd_free ?p s)) else Inr ?u)" for e by simp
  then have "steps E s (bindE (if ?p \<noteq> 0 then bindE (on_event e ?u) (\<lambda>s. Inr (jd_free ?p s)) else Inr ?u) (on_event JD_CONN_EV_CLOSE))" for e
    by (rule steps_bind) (rule on_event_steps)
  then show ?thesis by (auto simp: raise_error_def Some m c_def)
qed

lemma close_after_error: "steps E s (bindE (raise_error E on_event msg s) (\<lambda>s. Inr (jd_tcpsock_close E s)))"
  by (intro steps_bind raise_error_steps) (simp add: close_evolves)

lemma connected_steps: "steps E s (state_of (tcp_client_connected E on_event err s))"
proof -
  have "evolves E s (upd (\<lambda>st. st\<lparr>connected := True\<rparr>) (emit (Log ''connected'' [] []) s))"
    using evolves_calls [of "[Log ''connected'' [] []]" "(sock_state s)\<lparr>connected := True\<rparr>" s] by (simp add: sock_made_def is_alloc_def)
  then have "steps E s (on_event JD_CONN_EV_OPEN (upd (\<lambda>st. st\<lparr>connected := True\<rparr>) (emit (Log ''connected'' [] []) s)))"
    using on_event_steps by (rule steps_after)
  then show ?thesis using raise_error_steps by (simp add: tcp_client_connected_def)
qed

lemma err_steps: "steps E s (tcp_client_err E on_event err s)"
  by (simp add: tcp_client_err_def raise_error_steps)

lemma recv_loop_steps:
  "\<exists>t. recv_loop on_event qs len s = Inr (len + of_nat (sum_list (map length qs)), t) \<and> evolves E s t"
proof (induction qs arbitrary: len s)
  case (Cons q qs)
  obtain t where t: "on_event (JD_CONN_EV_MESSAGE q) s = Inr t" "evolves E s t" using on_event_steps by (auto simp: steps_def)
  with Cons.IH [of "len + of_nat (length q)" t] show ?case by (auto simp: add.assoc intro: evolves_trans)
qed simp

lemma recv_steps:
  assumes "\<And>p. pb = Some p \<Longrightarrow> sum_list (map length (payloads p)) = unat (tot_len p)"
  shows "steps E s (state_of (tcp_client_recv E on_event tpcb pb err s))"
proof (cases pb)
  case None
  then show ?thesis by (simp add: tcp_client_recv_def raise_error_steps)
next
  case (Some p)
  let ?s = "emit (Log ''recv %d err %d'' [] [uint (tot_len p), err]) s"
  have call: "evolves E u (emit c u)" if "c \<in> {Log ''recv %d err %d'' [] [uint (tot_len p), err], Sock (Tcp_recved tpcb (tot_len p)),
      Sock (Pbuf_free (pbuf_ptr p))}" for c and u :: "'a sock_scheme"
    using that by (intro evolves_call) (auto simp: sock_made_def is_alloc_def)
  from recv_loop_steps [of "payloads p" 0 ?s] obtain t where
    t: "recv_loop on_event (payloads p) 0 ?s = Inr (ucast (tot_len p), t)" "evolves E ?s t"
    using assms [OF Some] by auto
  let ?t = "emit (Sock (Tcp_recved tpcb (tot_len p))) t"
  have "evolves E s ?s" by (rule call) simp
  also note t(2)
  also have "evolves E t ?t" by (rule call) simp
  also have "evolves E ?t (emit (Sock (Pbuf_free (pbuf_ptr p))) ?t)" by (rule call) simp
  finally show ?thesis
    using Some t(1) call [of "Sock (Pbuf_free (pbuf_ptr p))" s] by (simp add: tcp_client_recv_def)
qed

lemma host_found_steps: "steps E s (host_found E on_event name (Some a) s)"
proof -
  have *: "evolves E s (s\<lparr>sock_state := st, trace := trace s @ cs\<rparr>)"
    if "list_all (\<lambda>c. sock_made c \<and> \<not> is_alloc c \<and> (\<forall>p. c \<noteq> Plat (Free p))) cs" "hostname st = hostname (sock_state s)" for cs st
    using evolves_calls [OF that, of E] by (cases s) simp
  show ?thesis
    by (auto simp: host_found_def sock_made_def is_alloc_def intro!: * evolves_calls steps_after [OF * raise_error_steps]
        steps_after [OF evolves_calls raise_error_steps])
qed

text \<open>Opening takes the host name into the state that the close before has emptied.\<close>

lemma strdup_evolves:
  assumes "hostname (sock_state s) = None" "c = Sock (Jd_strdup name)" "p = resp E (trace s) c"
    and "hostname st = (if p = 0 then None else Some (p, name))"
  shows "evolves E s (s\<lparr>trace := trace s @ [c], sock_state := st\<rparr>)"
proof -
  have "sock_only s (s\<lparr>trace := trace s @ [c], sock_state := st\<rparr>)"
    by (rule sock_onlyI [where cs = "[c]" and st = st]) (simp_all add: sock_made_def assms(2))
  then show ?thesis using assms by (auto simp: heap_defs is_alloc_def)
qed

lemma new_steps: "steps E s (state_of (jd_tcpsock_new E on_event name port s))"
proof (cases "port = 0 \<or> 0xffff < (word_of_int port :: u32)")
  case False
  define u where "u = jd_tcpsock_close E s"
  define p where "p = resp E (trace u) (Sock (Jd_strdup name))"
  define v where "v = u\<lparr>trace := trace u @ [Sock (Jd_strdup name)], sock_state := sock_zero\<lparr>port_num := word_of_int port,
     hostname := (if p = 0 then None else Some (p, name)), connecting := True\<rparr>\<rparr>"
  define dns where "dns = Sock (Dns_gethostbyname (map_option snd (hostname (sock_state v))))"
  define w where "w = v\<lparr>trace := trace v @ [dns], sock_state := (sock_state v)\<lparr>ipaddr := out_addr E dns v\<rparr>\<rparr>"
  have u: "evolves E s u" "sock_state u = sock_zero" by (simp_all add: u_def close_evolves)
  then have "evolves E u v" unfolding v_def by (intro strdup_evolves [where p = p]) (simp_all add: p_def)
  moreover have "evolves E v w" unfolding w_def by (rule evolves_calls) (simp_all add: dns_def sock_made_def is_alloc_def)
  ultimately have w: "evolves E s w" using u(1) evolves_trans by metis
  moreover have "evolves E w (upd (\<lambda>st. st\<lparr>host_found_pending := True\<rparr>) w)" by (rule evolves_upd) simp
  ultimately have "evolves E s (upd (\<lambda>st. st\<lparr>host_found_pending := True\<rparr>) w)" by (rule evolves_trans)
  moreover have "state_of (jd_tcpsock_new E on_event name port s) =
    (let err = resp E (trace v) dns in if err = ERR_INPROGRESS E then Inr w
     else if err = ERR_OK E then Inr (upd (\<lambda>st. st\<lparr>host_found_pending := True\<rparr>) w)
     else bindE (raise_error E on_event (Some (''can't resolve '%s': %d'',
        [case hostname (sock_state w) of None \<Rightarrow> [] | Some (p, nm) \<Rightarrow> nm], [err])) w) (\<lambda>s. Inr (jd_tcpsock_close E s)))"
    using False u(2) unfolding jd_tcpsock_new_def u_def [symmetric] w_def dns_def v_def p_def by (simp add: Let_def)
  ultimately show ?thesis using w steps_after [OF w close_after_error] by (simp add: Let_def)
qed (simp add: jd_tcpsock_new_def)

lemma write_steps:
  assumes "length buf < 0xffff"
  shows "steps E s (state_of (jd_tcpsock_write E on_event buf s))"
proof -
  have *: "evolves E s (s\<lparr>trace := trace s @ cs\<rparr>)"
    if "list_all (\<lambda>c. sock_made c \<and> \<not> is_alloc c \<and> (\<forall>p. c \<noteq> Plat (Free p))) cs" for cs
    using evolves_calls [OF that, of "sock_state s" s] by simp
  show ?thesis
    using assms by (auto simp: jd_tcpsock_write_def sock_made_def is_alloc_def intro!: * steps_after [OF * raise_error_steps])
qed

lemma process_steps: "steps E s (jd_tcpsock_process E on_event s)"
proof -
  have "evolves E s (upd (\<lambda>st. st\<lparr>host_found_pending := True\<rparr>) s)" by (rule evolves_upd) simp
  from steps_after [OF this host_found_steps] show ?thesis by (simp add: jd_tcpsock_process_def)
qed

lemma api_steps: "api_ok a \<Longrightarrow> steps E s (api_do E on_event a s)"
  by (cases a) (simp_all add: new_steps write_steps close_evolves)

lemma sock_do_steps:
  assumes "sock_ev_ok e" "\<not> null_answer e"
  shows "steps E s (sock_do E on_event e s)"
proof (cases e)
  case (Sk_dns name ip)
  then show ?thesis using assms(2) host_found_steps by (cases ip) simp_all
next
  case (Sk_recv tpcb pb err)
  then show ?thesis using assms(1) by (auto intro!: recv_steps)
qed (use assms in \<open>simp_all add: api_steps process_steps connected_steps err_steps\<close>)

end

lemma runtime_steps: "steps E s (runtime E react n e s)" for s :: "'a sock_scheme"
proof (induction n arbitrary: e s)
  case 0
  show ?case using evolves_call [of "Sock (Jd_tcpsock_on_event e)" E s] by (simp add: sock_made_def is_alloc_def)
next
  case (Suc n)
  have "sock_frame E (runtime E react n :: 'a sock_scheme handler)" by unfold_locales (rule Suc.IH)
  note api = sock_frame.api_steps [OF this]
  have "evolves E s (emit (Sock (Jd_tcpsock_on_event e)) s)" by (rule evolves_call) (simp_all add: sock_made_def is_alloc_def)
  then show ?case by (auto intro!: steps_after [OF _ steps_run] api simp del: emit_def)
qed

interpretation fr: sock_frame E "runtime E react n" for E react n
  by unfold_locales (rule runtime_steps)

text \<open>
  C5. For every runtime that reacts to socket events with calls of the socket
  module, nested to any depth, and every sequence of such calls, main-loop polls
  and lwIP callbacks, in any order and at any time: the next event always ends
  without a failed assertion or a null pointer, except that a failed name lookup,
  which the resolver reports with a null address, is dereferenced. As long as
  no event has been stray (an answer of the resolver or an opened connection that arrives after
  the attempt it belongs to is over), no function is called with a null control
  block, a connected socket has a control block, and a socket that is not
  connecting is completely reset (no control block, host name or flag is left).
\<close>

theorem sock_safe:
  assumes "sock_reach E (runtime E react n) strayed s"
  shows "(\<not> strayed \<longrightarrow> (\<not> connecting (sock_state s) \<longrightarrow> sock_state s = sock_zero) \<and>
      (connected (sock_state s) \<longrightarrow> tcp_pcb (sock_state s) \<noteq> 0) \<and> null_free (trace s)) \<and>
    (\<forall>e. sock_ev_ok e \<longrightarrow> (if null_answer e then sock_do E (runtime E react n) e s = Inl Null_deref
       else \<exists>t. sock_do E (runtime E react n) e s = Inr t))"
proof -
  have "sock_do E (runtime E react n) e s = Inl Null_deref" if "null_answer e" for e
    using that by (auto simp: host_found_def elim!: null_answer.elims)
  moreover have "\<exists>t. sock_do E (runtime E react n) e s = Inr t" if "sock_ev_ok e" "\<not> null_answer e" for e
  proof -
    have "steps E s (sock_do E (runtime E react n) e s)" using that by (rule fr.sock_do_steps)
    then show ?thesis by (auto simp: steps_def)
  qed
  ultimately show ?thesis using rt.reach_inv [OF assms] by (simp add: sock_inv_def)
qed

definition sock_demo :: sock where
  "sock_demo = wifi.extend wifi_demo \<lparr>sock_state = sock_zero\<rparr>"

lemma sock_demo_simps [simp]: "sock_state sock_demo = sock_zero" "trace sock_demo = []"
  by (simp_all add: sock_demo_def wifi.defs)

text \<open>A runtime that reopens the connection when it is closed, on a network whose resolver always fails.\<close>

definition reopen :: "call list \<Rightarrow> conn_ev \<Rightarrow> sock_api list" where
  "reopen h e = (if e = JD_CONN_EV_CLOSE then [Api_new [104] 443] else [])"

theorem sock_safe_witness:
  "null_free (trace sock_demo) \<and>
   (\<exists>t. sock_do (answering (\<lambda>h c. -6)) (runtime (answering (\<lambda>h c. -6)) reopen 3) (Sk_api (Api_new [104] 80)) sock_demo = Inr t) \<and>
   (\<exists>t. sock_do (answering (\<lambda>h c. -6)) (runtime (answering (\<lambda>h c. -6)) reopen 3) (Sk_dns None (Some 0)) sock_demo = Inr t)"
proof -
  have "sock_reach (answering (\<lambda>h c. -6)) (runtime (answering (\<lambda>h c. -6)) reopen 3) False sock_demo"
    by (rule sock_reach.start) simp_all
  note safe = sock_safe [OF this]
  then have all: "sock_ev_ok e \<Longrightarrow> \<not> null_answer e \<Longrightarrow>
    \<exists>t. sock_do (answering (\<lambda>h c. -6)) (runtime (answering (\<lambda>h c. -6)) reopen 3) e sock_demo = Inr t" for e by presburger
  from all [of "Sk_api (Api_new [104] 80)"] all [of "Sk_dns None (Some 0)"] show ?thesis
    by (simp del: sock_do.simps)
qed

text \<open>
  What a stray connection does: the control blocks that repeated polls abandon
  (below) still report to the socket, and one that opens after the socket was
  closed makes the next write use a null control block.
\<close>

lemma stray_connection_writes_null:
  assumes "sock_state s = sock_zero" "length buf < 0xffff"
  shows "\<exists>t u. sock_do E (runtime E react 0) (Sk_connected (ERR_OK E)) s = Inr t \<and>
    sock_do E (runtime E react 0) (Sk_api (Api_write buf)) t = Inr u \<and> Sock (Tcp_write 0 buf) \<in> set (trace u)"
proof -
  obtain t where t: "sock_do E (runtime E react 0) (Sk_connected (ERR_OK E)) s = Inr t"
    "connected (sock_state t)" "tcp_pcb (sock_state t) = 0" "\<not> connecting (sock_state t)"
    using assms(1) by (simp add: tcp_client_connected_def)
  then show ?thesis using assms(2) by (auto simp: jd_tcpsock_write_def raise_error_def)
qed

section \<open>Resolved hosts\<close>

text \<open>How often a kind of call occurs.\<close>

definition calls :: "(sock_call \<Rightarrow> bool) \<Rightarrow> call list \<Rightarrow> nat" where
  "calls P tr = length (filter (\<lambda>c. case c of Sock k \<Rightarrow> P k | _ \<Rightarrow> False) tr)"

lemma calls_simps [simp]: "calls P [] = 0" "calls P (tr @ cs) = calls P tr + calls P cs"
  "calls P (c # cs) = (case c of Sock k \<Rightarrow> of_bool (P k) | _ \<Rightarrow> 0) + calls P cs"
  by (auto simp: calls_def split: call.split)

definition is_new :: "sock_call \<Rightarrow> bool" where
  "is_new k \<longleftrightarrow> (case k of Tcp_new_ip_type a \<Rightarrow> True | _ \<Rightarrow> False)"

definition is_connect :: "sock_call \<Rightarrow> bool" where
  "is_connect k \<longleftrightarrow> (case k of Tcp_connect p a n \<Rightarrow> True | _ \<Rightarrow> False)"

definition is_release :: "sock_call \<Rightarrow> bool" where
  "is_release k \<longleftrightarrow> (case k of Tcp_close p \<Rightarrow> True | Tcp_abort p \<Rightarrow> True | _ \<Rightarrow> False)"

lemmas call_kinds = is_new_def is_connect_def is_release_def

lemma process_again:
  assumes "host_found_pending (sock_state s)" "\<And>h a. resp E h (Sock (Tcp_new_ip_type a)) \<noteq> 0"
    and "\<And>h p a k. resp E h (Sock (Tcp_connect p a k)) = 0"
  shows "\<exists>t. jd_tcpsock_process E on_event s = Inr t \<and> host_found_pending (sock_state t) \<and>
    (\<exists>cs. trace t = trace s @ cs \<and> calls is_new cs = 1 \<and> calls is_connect cs = 1 \<and> calls is_release cs = 0)"
  using assms by (simp add: jd_tcpsock_process_def host_found_def call_kinds)

text \<open>
  C31. When the resolver answers at once (a cached or numeric host name), the
  pending flag is never cleared: every turn of the main loop allocates another
  control block and starts another connection, and none of the earlier ones is
  closed or aborted.
\<close>

theorem sock_process_reconnects:
  assumes "host_found_pending (sock_state s)" "\<And>h a. resp E h (Sock (Tcp_new_ip_type a)) \<noteq> 0"
    and "\<And>h p a k. resp E h (Sock (Tcp_connect p a k)) = 0"
  shows "\<exists>t. run_res (\<lambda>_. jd_tcpsock_process E on_event) [0..<n] s = Inr t \<and> host_found_pending (sock_state t) \<and>
    calls is_new (since s t) = n \<and> calls is_connect (since s t) = n \<and> calls is_release (since s t) = 0"
proof -
  have "\<exists>t. run_res (\<lambda>_. jd_tcpsock_process E on_event) [0..<n] s = Inr t \<and> host_found_pending (sock_state t) \<and>
    (\<exists>cs. trace t = trace s @ cs \<and> calls is_new cs = n \<and> calls is_connect cs = n \<and> calls is_release cs = 0)"
  proof (induction n)
    case (Suc n)
    then obtain t cs where t: "run_res (\<lambda>_. jd_tcpsock_process E on_event) [0..<n] s = Inr t" "host_found_pending (sock_state t)"
      "trace t = trace s @ cs" "calls is_new cs = n" "calls is_connect cs = n" "calls is_release cs = 0" by blast
    from process_again [OF t(2) assms(2,3), of on_event] t show ?case by (fastforce simp: run_res_append)
  qed (use assms in simp)
  then show ?thesis by (auto simp: since_append)
qed

text \<open>A network that resolves every name at once and has control blocks to give.\<close>

definition net_plat :: plat where
  "net_plat = answering (\<lambda>h c. case c of Sock k \<Rightarrow> (case k of Tcp_new_ip_type a \<Rightarrow> 0x20002000 + int (length h)
     | Jd_strdup x \<Rightarrow> 0x20003000 | Jd_vsprintf_a f ss is \<Rightarrow> 0x20004000 | _ \<Rightarrow> 0) | _ \<Rightarrow> 0)"

theorem sock_process_reconnects_witness:
  "\<exists>s. jd_tcpsock_new net_plat (runtime net_plat reopen 0) [104] 80 sock_demo = Inr (0, s) \<and>
   (\<exists>t. run_res (\<lambda>_. jd_tcpsock_process net_plat (runtime net_plat reopen 0)) [0..<5] s = Inr t \<and>
     calls is_new (since s t) = 5 \<and> calls is_release (since s t) = 0)"
proof -
  obtain s where s: "jd_tcpsock_new net_plat (runtime net_plat reopen 0) [104] 80 sock_demo = Inr (0, s)"
    "host_found_pending (sock_state s)"
    by (simp add: jd_tcpsock_new_def net_plat_def jd_tcpsock_close_def jd_free_def)
  from sock_process_reconnects [OF s(2), of net_plat "runtime net_plat reopen 0" 5] s(1) show ?thesis
    by (auto simp: net_plat_def)
qed

text \<open>A resolver answer that arrives after the socket was closed opens it again, and errors of that connection stay unreported.\<close>

lemma late_answer_reopens:
  assumes "sock_state s = sock_zero" "resp E (trace s @ [Sock (Ip4addr_ntoa a), Log ''connecting to %s:%d (%s)'' [nm] [0, uint a]])
      (Sock (Tcp_new_ip_type a)) = p" "p \<noteq> 0" "\<And>h q b k. resp E h (Sock (Tcp_connect q b k)) = 0"
  shows "\<exists>t. host_found E on_event (Some nm) (Some a) s = Inr t \<and> tcp_pcb (sock_state t) = p \<and>
    raise_error E on_event msg t = Inr t"
  using assms by (simp add: host_found_def raise_error_def)

section \<open>Errors and data\<close>

text \<open>
  C35. The socket neither leaks memory nor releases it wrongly: for every
  runtime that reacts to events with calls of the module, nested to any depth, and
  every sequence of events (failed lookups apart), each pointer that is released
  is null or a block allocated at that moment, so nothing is freed twice, and
  at the end the blocks allocated on the way are all released but one, the host
  name the socket holds. The error texts rendered for the runtime, which may open
  a new socket while it reads them, are covered.
\<close>

theorem sock_heap_balanced:
  assumes "list_all (\<lambda>e. sock_ev_ok e \<and> \<not> null_answer e) es" "sock_state s = sock_zero"
    and "frees_ok E (trace s)" "\<And>p. p \<noteq> 0 \<Longrightarrow> 0 \<le> live E p (trace s)"
  shows "\<exists>t. run_res (sock_do E (runtime E react n)) es s = Inr t \<and> frees_ok E (trace t) \<and>
    (\<forall>p. p \<noteq> 0 \<longrightarrow> live E p (trace t) = live E p (trace s) + of_bool (host_ptr t = p))"
proof -
  have "steps E s (run_res (sock_do E (runtime E react n)) es s)"
    using assms(1) by (intro steps_run fr.sock_do_steps) (auto simp: list_all_iff)
  then obtain t where t: "run_res (sock_do E (runtime E react n)) es s = Inr t" "evolves E s t" by (auto simp: steps_def)
  have "host_ptr s = 0" using assms(2) by (simp add: host_ptr_def)
  with t assms(3,4) show ?thesis by (fastforce simp: evolves_def heap_ok_def spare_def)
qed

text \<open>
  An attempt whose connection cannot start: the host name is released by the
  error, the runtime opens the socket again from its close event, and the second
  name is the block that remains.
\<close>

definition refuse_plat :: plat where
  "refuse_plat = answering (\<lambda>h c. case c of Sock k \<Rightarrow> (case k of Tcp_new_ip_type a \<Rightarrow> 0x20002000
     | Jd_strdup x \<Rightarrow> 0x20003000 + int (length h) | Jd_vsprintf_a f ss is \<Rightarrow> 0x20004000 + int (length h)
     | Tcp_connect p a k \<Rightarrow> -4 | _ \<Rightarrow> 0) | _ \<Rightarrow> 0)"

theorem sock_heap_balanced_witness:
  "\<exists>t. run_res (sock_do refuse_plat (runtime refuse_plat reopen 1)) [Sk_api (Api_new [104] 80), Sk_process] sock_demo = Inr t \<and>
     frees_ok refuse_plat (trace t) \<and> live refuse_plat (host_ptr t) (trace t) = 1"
proof -
  let ?es = "[Sk_api (Api_new [104] 80), Sk_process]"
  obtain t where t: "run_res (sock_do refuse_plat (runtime refuse_plat reopen 1)) ?es sock_demo = Inr t"
    "frees_ok refuse_plat (trace t)" "\<And>p. p \<noteq> 0 \<Longrightarrow> live refuse_plat p (trace t) = live refuse_plat p (trace sock_demo) + of_bool (host_ptr t = p)"
    using sock_heap_balanced [of ?es sock_demo refuse_plat reopen 1] by (auto simp: frees_ok_def live_def simp del: run_res.simps)
  have "host_ptr t \<noteq> 0"
    using t(1) by (simp add: refuse_plat_def reopen_def jd_tcpsock_new_def jd_tcpsock_close_def jd_free_def
        jd_tcpsock_process_def host_found_def raise_error_def host_ptr_def) auto
  with t show ?thesis by (auto simp: live_def)
qed

text \<open>
  A connection error is reported in a fixed order, whatever the runtime does
  with it: the text is rendered, every callback of the control block is detached,
  the block is closed (and aborted if that fails), the host name is released, and
  only then, with the state completely reset so that the runtime may open a new
  socket, the error and after it the close event are delivered. The close includes
  the control block that lwIP has already freed when it reports the error.
\<close>

lemma sock_error_order:
  assumes "connecting (sock_state s)" "tcp_pcb (sock_state s) = p" "p \<noteq> 0" "err \<noteq> ERR_ABRT E"
    and "resp E (trace s) (Sock (Jd_vsprintf_a ''sock error: %d'' [] [err])) = m" "m \<noteq> 0"
  shows "\<exists>u r. tcp_client_err E on_event err s =
      bindE (bindE (on_event (JD_CONN_EV_ERROR ''sock error: %d'' [] [err]) u) (\<lambda>s. Inr (jd_free m s))) (on_event JD_CONN_EV_CLOSE) \<and>
    sock_state u = sock_zero \<and>
    since s u = [Sock (Jd_vsprintf_a ''sock error: %d'' [] [err]), Sock (Tcp_arg p False), Sock (Tcp_poll p False 0),
        Sock (Tcp_sent p False), Sock (Tcp_recv p False), Sock (Tcp_err p False), Sock (Tcp_close p)] @
      (if r = ERR_OK E then [] else [Log ''close failed %d'' [] [r], Sock (Tcp_abort p)]) @ [Plat (Free (host_ptr s))]"
proof -
  let ?c = "Sock (Jd_vsprintf_a ''sock error: %d'' [] [err])"
  define u where "u = jd_tcpsock_close E (emit ?c s)"
  have "tcp_client_err E on_event err s =
      bindE (bindE (on_event (JD_CONN_EV_ERROR ''sock error: %d'' [] [err]) u) (\<lambda>s. Inr (jd_free m s))) (on_event JD_CONN_EV_CLOSE)"
    using assms by (simp add: tcp_client_err_def raise_error_def u_def)
  moreover have "sock_state u = sock_zero" by (simp add: u_def)
  moreover have "\<exists>r. since s u = [?c, Sock (Tcp_arg p False), Sock (Tcp_poll p False 0),
        Sock (Tcp_sent p False), Sock (Tcp_recv p False), Sock (Tcp_err p False), Sock (Tcp_close p)] @
      (if r = ERR_OK E then [] else [Log ''close failed %d'' [] [r], Sock (Tcp_abort p)]) @ [Plat (Free (host_ptr s))]"
    using assms by (auto simp: u_def jd_tcpsock_close_def jd_free_def since_def host_ptr_def)
  ultimately show ?thesis by blast
qed

lemma recv_loop_record:
  "recv_loop (runtime E react 0) qs len s = Inr (len + of_nat (sum_list (map length qs)),
     s\<lparr>trace := trace s @ map (\<lambda>q. Sock (Jd_tcpsock_on_event (JD_CONN_EV_MESSAGE q))) qs\<rparr>)"
  by (induction qs arbitrary: len s) (simp_all add: add.assoc)

text \<open>
  Received data is delivered completely and in order: for a consistent
  chain of buffers every payload is handed to the runtime once, in the order of
  the chain, then exactly the bytes received are acknowledged and the chain is
  freed once.
\<close>

lemma sock_recv_delivers:
  assumes "sum_list (map length (payloads p)) = unat (tot_len p)" "0 < tot_len p"
  shows "\<exists>t. tcp_client_recv E (runtime E react 0) tpcb (Some p) err s = Inr (ERR_OK E, t) \<and> sock_state t = sock_state s \<and>
    since s t = Log ''recv %d err %d'' [] [uint (tot_len p), err] #
      map (\<lambda>q. Sock (Jd_tcpsock_on_event (JD_CONN_EV_MESSAGE q))) (payloads p) @
      [Sock (Tcp_recved tpcb (tot_len p)), Sock (Pbuf_free (pbuf_ptr p))]"
  using assms by (auto simp: tcp_client_recv_def recv_loop_record since_def simp del: runtime.simps)

end
