(* ===== verification/Hid.thy ===== *)
theory Hid
  imports Boundary
begin

text \<open>
  \<open>hid.c\<close>: the keyboard, mouse and gamepad reports. A report is kept until the
  endpoint of its interface is free; mouse movements are added up in the
  meantime, keyboard and gamepad reports replace one another. The report types
  are those of the Jacdac runtime; the gamepad report is only copied and is its
  bytes.
\<close>

section \<open>State and operations\<close>

definition HID_ITF_GAMEPAD :: nat where "HID_ITF_GAMEPAD = 0"

definition HID_ITF_KEYBOARD :: nat where "HID_ITF_KEYBOARD = 1"

definition HID_ITF_MOUSE :: nat where "HID_ITF_MOUSE = 2"

definition HID_ITF_TOTAL :: nat where "HID_ITF_TOTAL = 3"

lemmas hid_itf_defs = HID_ITF_GAMEPAD_def HID_ITF_KEYBOARD_def HID_ITF_MOUSE_def HID_ITF_TOTAL_def

record jd_hid_keyboard_report_t =
  modifier :: u8
  keycode :: "u8 list"

record jd_hid_mouse_report_t =
  buttons :: u8
  delta_x :: u8
  delta_y :: u8
  wheel :: u8
  pan :: u8

definition mouse_zero :: jd_hid_mouse_report_t where
  "mouse_zero = \<lparr>buttons = 0, delta_x = 0, delta_y = 0, wheel = 0, pan = 0\<rparr>"

definition kbd_zero :: jd_hid_keyboard_report_t where
  "kbd_zero = \<lparr>modifier = 0, keycode = replicate 6 0\<rparr>"

record hid = mach +
  kbd_report :: jd_hid_keyboard_report_t
  kbd_report_dirty :: bool
  mouse_report :: jd_hid_mouse_report_t
  mouse_report_dirty :: bool
  gamepad_report :: "u8 list"
  gamepad_report_dirty :: bool

definition jd_hid_keyboard_set_report :: "jd_hid_keyboard_report_t option \<Rightarrow> 'a hid_scheme \<Rightarrow> 'a hid_scheme" where
  "jd_hid_keyboard_set_report report s =
     (let s = (case report of None \<Rightarrow> s\<lparr>kbd_report := kbd_zero\<rparr> | Some r \<Rightarrow> s\<lparr>kbd_report := r\<rparr>)
      in s\<lparr>kbd_report_dirty := True\<rparr>)"

definition jd_hid_mouse_move :: "jd_hid_mouse_report_t \<Rightarrow> 'a hid_scheme \<Rightarrow> 'a hid_scheme" where
  "jd_hid_mouse_move report s =
     (let m = mouse_report s;
          m = m\<lparr>buttons := buttons m OR buttons report\<rparr>;
          m = m\<lparr>delta_x := delta_x m + delta_x report\<rparr>;
          m = m\<lparr>delta_y := delta_y m + delta_y report\<rparr>;
          m = m\<lparr>wheel := wheel m + wheel report\<rparr>;
          m = m\<lparr>pan := pan m + pan report\<rparr>
      in s\<lparr>mouse_report := m, mouse_report_dirty := True\<rparr>)"

definition jd_hid_gamepad_set_report :: "plat \<Rightarrow> u8 list option \<Rightarrow> 'a hid_scheme \<Rightarrow> 'a hid_scheme" where
  "jd_hid_gamepad_set_report E report s =
     (let s = (case report of None \<Rightarrow> s\<lparr>gamepad_report := replicate (SIZEOF_GAMEPAD E) 0\<rparr>
               | Some r \<Rightarrow> s\<lparr>gamepad_report := r\<rparr>)
      in s\<lparr>gamepad_report_dirty := True\<rparr>)"

text \<open>The three parts of \<open>hid_process\<close>, one per interface.\<close>

definition hid_process_kbd :: "plat \<Rightarrow> 'a hid_scheme \<Rightarrow> 'a hid_scheme" where
  "hid_process_kbd E s =
     (if kbd_report_dirty s
      then let (r, s) = ask E (Usb (Tud_hid_n_ready HID_ITF_KEYBOARD)) s
           in if truth r
              then let s = s\<lparr>kbd_report_dirty := False\<rparr>
                   in emit (Usb (Tud_hid_n_keyboard_report (modifier (kbd_report s)) (keycode (kbd_report s)))) s
              else s
      else s)"

definition hid_process_mouse :: "plat \<Rightarrow> 'a hid_scheme \<Rightarrow> 'a hid_scheme" where
  "hid_process_mouse E s =
     (if mouse_report_dirty s
      then let (r, s) = ask E (Usb (Tud_hid_n_ready HID_ITF_MOUSE)) s
           in if truth r
              then let s = s\<lparr>mouse_report_dirty := False\<rparr>;
                       m = mouse_report s;
                       s = emit (Usb (Tud_hid_n_mouse_report (buttons m) (delta_x m) (delta_y m) (wheel m) (pan m))) s
                   in s\<lparr>mouse_report := mouse_zero\<rparr>
              else s
      else s)"

definition hid_process_gamepad :: "plat \<Rightarrow> 'a hid_scheme \<Rightarrow> 'a hid_scheme" where
  "hid_process_gamepad E s =
     (if gamepad_report_dirty s
      then let (r, s) = ask E (Usb (Tud_hid_n_ready HID_ITF_GAMEPAD)) s
           in if truth r
              then let s = s\<lparr>gamepad_report_dirty := False\<rparr>
                   in emit (Usb (Tud_hid_n_report (gamepad_report s))) s
              else s
      else s)"

definition hid_process :: "plat \<Rightarrow> 'a hid_scheme \<Rightarrow> 'a hid_scheme" where
  "hid_process E s =
     (let s = hid_process_kbd E s;
          s = hid_process_mouse E s
      in hid_process_gamepad E s)"

definition tud_hid_get_report_cb :: "u8 \<Rightarrow> int \<Rightarrow> 'a mach_scheme \<Rightarrow> u16 \<times> 'a mach_scheme" where
  "tud_hid_get_report_cb inst report_type s =
     (0, emit (Dmesg ''hid: GET REPORT %d/%d'' [uint inst, report_type]) s)"

definition tud_hid_set_report_cb :: "plat \<Rightarrow> u8 \<Rightarrow> int \<Rightarrow> u8 list \<Rightarrow> u16 \<Rightarrow> 'a mach_scheme \<Rightarrow> 'a mach_scheme res" where
  "tud_hid_set_report_cb E inst report_type buffer bufsize s =
     (if unat inst = HID_ITF_KEYBOARD \<and> report_type = HID_REPORT_TYPE_OUTPUT E
      then if bufsize < 1 then Inr s
           else if buffer = [] then Inl Out_of_bounds
           else Inr s
      else Inr s)"

section \<open>No movement is lost\<close>

datatype hid_ev =
    Set_keyboard "jd_hid_keyboard_report_t option"
  | Move jd_hid_mouse_report_t
  | Set_gamepad "u8 list option"
  | Poll

fun hid_do :: "plat \<Rightarrow> hid_ev \<Rightarrow> 'a hid_scheme \<Rightarrow> 'a hid_scheme" where
  "hid_do E (Set_keyboard r) s = jd_hid_keyboard_set_report r s"
| "hid_do E (Move r) s = jd_hid_mouse_move r s"
| "hid_do E (Set_gamepad r) s = jd_hid_gamepad_set_report E r s"
| "hid_do E Poll s = hid_process E s"

text \<open>Movements combined: deltas add up modulo 256, buttons accumulate.\<close>

definition combine :: "jd_hid_mouse_report_t \<Rightarrow> jd_hid_mouse_report_t \<Rightarrow> jd_hid_mouse_report_t" where
  "combine a b = \<lparr>buttons = buttons a OR buttons b, delta_x = delta_x a + delta_x b, delta_y = delta_y a + delta_y b,
     wheel = wheel a + wheel b, pan = pan a + pan b\<rparr>"

definition merged :: "jd_hid_mouse_report_t list \<Rightarrow> jd_hid_mouse_report_t" where
  "merged ms = fold (\<lambda>m a. combine a m) ms mouse_zero"

fun moves :: "hid_ev list \<Rightarrow> jd_hid_mouse_report_t list" where
  "moves [] = []"
| "moves (Move r # es) = r # moves es"
| "moves (_ # es) = moves es"

text \<open>What the host received on each interface.\<close>

definition mouse_sent :: "call list \<Rightarrow> jd_hid_mouse_report_t list" where
  "mouse_sent tr = concat (map (\<lambda>c. case c of Usb u \<Rightarrow> (case u of
     Tud_hid_n_mouse_report b x y w p \<Rightarrow> [\<lparr>buttons = b, delta_x = x, delta_y = y, wheel = w, pan = p\<rparr>] | _ \<Rightarrow> []) | _ \<Rightarrow> []) tr)"

definition kbd_sent :: "call list \<Rightarrow> jd_hid_keyboard_report_t list" where
  "kbd_sent tr = concat (map (\<lambda>c. case c of Usb u \<Rightarrow> (case u of
     Tud_hid_n_keyboard_report m k \<Rightarrow> [\<lparr>modifier = m, keycode = k\<rparr>] | _ \<Rightarrow> []) | _ \<Rightarrow> []) tr)"

definition pad_sent :: "call list \<Rightarrow> u8 list list" where
  "pad_sent tr = concat (map (\<lambda>c. case c of Usb u \<Rightarrow> (case u of
     Tud_hid_n_report r \<Rightarrow> [r] | _ \<Rightarrow> []) | _ \<Rightarrow> []) tr)"

lemma sent_append [simp]:
  "mouse_sent (tr @ cs) = mouse_sent tr @ mouse_sent cs" "kbd_sent (tr @ cs) = kbd_sent tr @ kbd_sent cs"
  "pad_sent (tr @ cs) = pad_sent tr @ pad_sent cs"
  "mouse_sent [] = []" "kbd_sent [] = []" "pad_sent [] = []"
  by (simp_all add: mouse_sent_def kbd_sent_def pad_sent_def)

lemma sent_Cons [simp]:
  "mouse_sent (c # cs) = (case c of Usb u \<Rightarrow> (case u of
     Tud_hid_n_mouse_report b x y w p \<Rightarrow> [\<lparr>buttons = b, delta_x = x, delta_y = y, wheel = w, pan = p\<rparr>] | _ \<Rightarrow> []) | _ \<Rightarrow> []) @ mouse_sent cs"
  "kbd_sent (c # cs) = (case c of Usb u \<Rightarrow> (case u of
     Tud_hid_n_keyboard_report m k \<Rightarrow> [\<lparr>modifier = m, keycode = k\<rparr>] | _ \<Rightarrow> []) | _ \<Rightarrow> []) @ kbd_sent cs"
  "pad_sent (c # cs) = (case c of Usb u \<Rightarrow> (case u of Tud_hid_n_report r \<Rightarrow> [r] | _ \<Rightarrow> []) | _ \<Rightarrow> []) @ pad_sent cs"
  by (simp_all add: mouse_sent_def kbd_sent_def pad_sent_def)

lemma mouse_eta: "\<lparr>buttons = buttons m, delta_x = delta_x m, delta_y = delta_y m, wheel = wheel m, pan = pan m\<rparr> = m"
  for m :: jd_hid_mouse_report_t
  by simp

lemma kbd_eta: "\<lparr>modifier = modifier k, keycode = keycode k\<rparr> = k" for k :: jd_hid_keyboard_report_t
  by simp

text \<open>The movements made are the batches sent, in order, followed by those still pending.\<close>

definition mouse_rel :: "jd_hid_mouse_report_t list \<Rightarrow> 'a hid_scheme \<Rightarrow> bool" where
  "mouse_rel ms s \<longleftrightarrow> (\<exists>batches pending. ms = concat batches @ pending \<and> [] \<notin> set batches \<and>
     mouse_sent (trace s) = map merged batches \<and> mouse_report s = merged pending \<and>
     mouse_report_dirty s = (pending \<noteq> []))"

text \<open>A report that replaces its predecessor: the latest one is waiting or was the last one sent.\<close>

definition latest_ok :: "'r option \<Rightarrow> 'r \<Rightarrow> bool \<Rightarrow> 'r list \<Rightarrow> bool" where
  "latest_ok r cur dirty sent \<longleftrightarrow> (case r of
     None \<Rightarrow> \<not> dirty \<and> sent = []
   | Some x \<Rightarrow> cur = x \<and> (dirty \<or> sent \<noteq> [] \<and> last sent = x))"

fun kbd_latest :: "hid_ev list \<Rightarrow> jd_hid_keyboard_report_t option \<Rightarrow> jd_hid_keyboard_report_t option" where
  "kbd_latest [] r = r"
| "kbd_latest (Set_keyboard x # es) r = kbd_latest es (Some (case x of None \<Rightarrow> kbd_zero | Some y \<Rightarrow> y))"
| "kbd_latest (_ # es) r = kbd_latest es r"

fun pad_latest :: "plat \<Rightarrow> hid_ev list \<Rightarrow> u8 list option \<Rightarrow> u8 list option" where
  "pad_latest E [] r = r"
| "pad_latest E (Set_gamepad x # es) r = pad_latest E es (Some (case x of None \<Rightarrow> replicate (SIZEOF_GAMEPAD E) 0 | Some y \<Rightarrow> y))"
| "pad_latest E (_ # es) r = pad_latest E es r"

abbreviation kbd_ok :: "jd_hid_keyboard_report_t option \<Rightarrow> 'a hid_scheme \<Rightarrow> bool" where
  "kbd_ok r s \<equiv> latest_ok r (kbd_report s) (kbd_report_dirty s) (kbd_sent (trace s))"

abbreviation pad_ok :: "u8 list option \<Rightarrow> 'a hid_scheme \<Rightarrow> bool" where
  "pad_ok r s \<equiv> latest_ok r (gamepad_report s) (gamepad_report_dirty s) (pad_sent (trace s))"

lemmas hid_set_defs = jd_hid_keyboard_set_report_def jd_hid_gamepad_set_report_def jd_hid_mouse_move_def

text \<open>Each part of a poll concerns its own interface only.\<close>

lemma hid_frames [frame_simps]:
  "kbd_report (hid_process_mouse E s) = kbd_report s" "kbd_report (hid_process_gamepad E s) = kbd_report s"
  "kbd_report_dirty (hid_process_mouse E s) = kbd_report_dirty s" "kbd_report_dirty (hid_process_gamepad E s) = kbd_report_dirty s"
  "kbd_sent (trace (hid_process_mouse E s)) = kbd_sent (trace s)" "kbd_sent (trace (hid_process_gamepad E s)) = kbd_sent (trace s)"
  "mouse_report (hid_process_kbd E s) = mouse_report s" "mouse_report (hid_process_gamepad E s) = mouse_report s"
  "mouse_report_dirty (hid_process_kbd E s) = mouse_report_dirty s"
  "mouse_report_dirty (hid_process_gamepad E s) = mouse_report_dirty s"
  "mouse_sent (trace (hid_process_kbd E s)) = mouse_sent (trace s)" "mouse_sent (trace (hid_process_gamepad E s)) = mouse_sent (trace s)"
  "gamepad_report (hid_process_kbd E s) = gamepad_report s" "gamepad_report (hid_process_mouse E s) = gamepad_report s"
  "gamepad_report_dirty (hid_process_kbd E s) = gamepad_report_dirty s"
  "gamepad_report_dirty (hid_process_mouse E s) = gamepad_report_dirty s"
  "pad_sent (trace (hid_process_kbd E s)) = pad_sent (trace s)" "pad_sent (trace (hid_process_mouse E s)) = pad_sent (trace s)"
  by (simp_all add: hid_process_kbd_def hid_process_mouse_def hid_process_gamepad_def)

lemma kbd_poll: "kbd_ok r s \<Longrightarrow> kbd_ok r (hid_process E s)"
  by (simp add: hid_process_def frame_simps) (auto simp: latest_ok_def hid_process_kbd_def split: option.splits)

lemma pad_part: "pad_ok r s \<Longrightarrow> pad_ok r (hid_process_gamepad E s)"
  by (auto simp: latest_ok_def hid_process_gamepad_def split: option.splits)

lemma pad_poll: "pad_ok r s \<Longrightarrow> pad_ok r (hid_process E s)"
  unfolding hid_process_def Let_def by (rule pad_part) (simp add: frame_simps)

lemma poll_prefix: "\<exists>cs. trace (hid_process_kbd E s) = trace s @ cs" "\<exists>cs. trace (hid_process_mouse E s) = trace s @ cs"
  by (simp_all add: hid_process_kbd_def hid_process_mouse_def)

text \<open>A poll that finds every endpoint ready leaves nothing waiting.\<close>

lemma poll_flushes:
  assumes "\<And>cs i. resp E (trace s @ cs) (Usb (Tud_hid_n_ready i)) \<noteq> 0"
  shows "\<not> kbd_report_dirty (hid_process E s)" "\<not> mouse_report_dirty (hid_process E s)"
    "\<not> gamepad_report_dirty (hid_process E s)"
proof -
  obtain cs where cs: "trace (hid_process_kbd E s) = trace s @ cs" using poll_prefix(1) by blast
  obtain ds where ds: "trace (hid_process_mouse E (hid_process_kbd E s)) = trace s @ ds"
    using poll_prefix(2) [of E "hid_process_kbd E s"] cs by auto
  show "\<not> kbd_report_dirty (hid_process E s)"
    using assms [of "[]"] by (simp add: hid_process_def frame_simps) (simp add: hid_process_kbd_def)
  show "\<not> mouse_report_dirty (hid_process E s)"
    using assms by (simp add: hid_process_def frame_simps) (simp add: hid_process_mouse_def cs)
  show "\<not> gamepad_report_dirty (hid_process E s)"
    using assms by (simp add: hid_process_def hid_process_gamepad_def ds)
qed

lemma merged_snoc: "merged (ms @ [r]) = combine (merged ms) r"
  by (simp add: merged_def)

lemma mouse_poll: "mouse_rel ms s \<Longrightarrow> mouse_rel ms (hid_process E s)"
proof -
  assume rel: "mouse_rel ms s"
  define u where "u = hid_process_kbd E s"
  have "mouse_sent (trace u) = mouse_sent (trace s)" "mouse_report u = mouse_report s" "mouse_report_dirty u = mouse_report_dirty s"
    by (simp_all add: u_def hid_process_kbd_def)
  with rel obtain batches pending where b: "ms = concat batches @ pending" "[] \<notin> set batches"
    "mouse_sent (trace u) = map merged batches" "mouse_report u = merged pending" "mouse_report_dirty u = (pending \<noteq> [])"
    by (auto simp: mouse_rel_def)
  have "mouse_rel ms (hid_process_mouse E u)"
  proof (cases "pending \<noteq> [] \<and> truth (resp E (trace u) (Usb (Tud_hid_n_ready HID_ITF_MOUSE)))")
    case True
    with b show ?thesis
      unfolding mouse_rel_def
      by (intro exI [of _ "batches @ [pending]"] exI [of _ "[]"])
        (auto simp: hid_process_mouse_def merged_def)
  next
    case False
    with b show ?thesis
      unfolding mouse_rel_def
      by (intro exI [of _ batches] exI [of _ pending]) (auto simp: hid_process_mouse_def)
  qed
  then show ?thesis
    by (simp add: hid_process_def u_def mouse_rel_def hid_process_gamepad_def)
qed

lemma mouse_step: "mouse_rel ms s \<Longrightarrow> mouse_rel (ms @ moves [e]) (hid_do E e s)"
proof (cases e)
  case (Move r)
  assume "mouse_rel ms s"
  then obtain batches pending where b: "ms = concat batches @ pending" "[] \<notin> set batches"
    "mouse_sent (trace s) = map merged batches" "mouse_report s = merged pending" by (auto simp: mouse_rel_def)
  then have "mouse_rel (ms @ [r]) (jd_hid_mouse_move r s)"
    unfolding mouse_rel_def
    by (intro exI [of _ batches] exI [of _ "pending @ [r]"]) (simp add: jd_hid_mouse_move_def merged_snoc combine_def)
  with Move show ?thesis by simp
next
  case Poll
  then show ?thesis if "mouse_rel ms s" using mouse_poll that by simp
qed (auto simp: mouse_rel_def jd_hid_keyboard_set_report_def jd_hid_gamepad_set_report_def split: option.split)

lemma moves_Cons: "moves (e # es) = moves [e] @ moves es"
  by (cases e) simp_all

lemma mouse_run: "mouse_rel ms s \<Longrightarrow> mouse_rel (ms @ moves es) (fold (hid_do E) es s)"
proof (induction es arbitrary: ms s)
  case (Cons e es)
  from Cons.IH [OF mouse_step [OF Cons.prems, of e E]] show ?case by (subst moves_Cons) simp
qed simp

lemma kbd_run: "kbd_ok r s \<Longrightarrow> kbd_ok (kbd_latest es r) (fold (hid_do E) es s)"
proof (induction es arbitrary: r s)
  case (Cons e es)
  have "kbd_ok (kbd_latest [e] r) (hid_do E e s)"
  proof (cases e)
    case Poll
    with Cons.prems kbd_poll show ?thesis by simp
  qed (use Cons.prems in \<open>auto simp: latest_ok_def hid_set_defs split: option.split\<close>)
  from Cons.IH [OF this] show ?case by (cases e) simp_all
qed simp

lemma pad_run: "pad_ok r s \<Longrightarrow> pad_ok (pad_latest E es r) (fold (hid_do E) es s)"
proof (induction es arbitrary: r s)
  case (Cons e es)
  have "pad_ok (pad_latest E [e] r) (hid_do E e s)"
  proof (cases e)
    case Poll
    with Cons.prems pad_poll show ?thesis by simp
  qed (use Cons.prems in \<open>auto simp: latest_ok_def hid_set_defs split: option.split\<close>)
  from Cons.IH [OF this] show ?case by (cases e) simp_all
qed simp

definition hid_clean :: "'a hid_scheme \<Rightarrow> bool" where
  "hid_clean s \<longleftrightarrow> \<not> kbd_report_dirty s \<and> \<not> mouse_report_dirty s \<and> \<not> gamepad_report_dirty s \<and> mouse_report s = mouse_zero \<and>
     kbd_sent (trace s) = [] \<and> mouse_sent (trace s) = [] \<and> pad_sent (trace s) = []"


definition hid_demo :: hid where
  "hid_demo = \<lparr>trace = [], kbd_report = kbd_zero, kbd_report_dirty = False, mouse_report = mouse_zero,
     mouse_report_dirty = False, gamepad_report = [], gamepad_report_dirty = False\<rparr>"

definition left_click :: jd_hid_mouse_report_t where
  "left_click = \<lparr>buttons = 1, delta_x = 100, delta_y = 0xff, wheel = 0, pan = 0\<rparr>"


end
