(* ===== verification/Usb.thy ===== *)
theory Usb
  imports Hid
begin

text \<open>
  \<open>usb.c\<close>: the CDC channel of the device. Received bytes are pushed to the
  runtime, bytes to send are pulled from it. The two loops run as long as
  TinyUSB has bytes or room, so they are partial; what the FIFO and the
  runtime's queue answer is the content of the predicates \<open>cdc_rx\<close> and \<open>cdc_tx\<close>.
\<close>

section \<open>Operations\<close>

definition jd_usb_pull_ready :: "'a mach_scheme \<Rightarrow> 'a mach_scheme" where
  "jd_usb_pull_ready s = s"

definition tud_cdc_tx_complete_cb :: "u8 \<Rightarrow> 'a mach_scheme \<Rightarrow> 'a mach_scheme" where
  "tud_cdc_tx_complete_cb itf s = jd_usb_pull_ready s"

definition usb_init :: "'a mach_scheme \<Rightarrow> 'a mach_scheme" where
  "usb_init s = emit (Usb Tusb_init) s"

text \<open>The bytes a call wrote to the front of its buffer.\<close>

definition buf_bytes :: "plat \<Rightarrow> call list \<Rightarrow> call \<Rightarrow> int \<Rightarrow> u8 list" where
  "buf_bytes E h c n = map (outbuf E h c) [0..<nat n]"

partial_function (option) cdc_rx_loop :: "plat \<Rightarrow> int \<Rightarrow> 'a mach_scheme \<Rightarrow> 'a mach_scheme option" where
  "cdc_rx_loop E space s =
     (if 0 < space
      then let h = trace s;
               (space, s) = ask E (Usb (Tud_cdc_read 64)) s;
               s = emit (Usb (Jd_usb_push (buf_bytes E h (Usb (Tud_cdc_read 64)) space))) s;
               (space, s) = ask E (Usb Tud_cdc_available) s
           in cdc_rx_loop E space s
      else Some s)"

definition tud_cdc_rx_cb :: "plat \<Rightarrow> 'a mach_scheme \<Rightarrow> 'a mach_scheme option" where
  "tud_cdc_rx_cb E s = (let (space, s) = ask E (Usb Tud_cdc_available) s in cdc_rx_loop E space s)"

definition jd_usb_looks_connected :: "plat \<Rightarrow> 'a mach_scheme \<Rightarrow> bool \<times> 'a mach_scheme" where
  "jd_usb_looks_connected E s = (let (r, s) = ask E (Usb Tud_cdc_connected) s in (truth r, s))"

partial_function (option) usb_tx_loop :: "plat \<Rightarrow> 'a mach_scheme \<Rightarrow> 'a mach_scheme option" where
  "usb_tx_loop E s =
     (let (room, s) = ask E (Usb Tud_cdc_n_write_available) s
      in if 64 \<le> room
         then let h = trace s;
                  (sz, s) = ask E (Usb Jd_usb_pull) s
              in if 0 < sz
                 then let s = emit (Usb (Tud_cdc_n_write (buf_bytes E h (Usb Jd_usb_pull) sz))) s;
                          s = emit (Usb Tud_cdc_n_write_flush) s
                      in usb_tx_loop E s
                 else Some s
         else Some s)"

definition jd_usb_process :: "plat \<Rightarrow> 'a hid_scheme \<Rightarrow> 'a hid_scheme option" where
  "jd_usb_process E s =
     (let s = emit (Usb Tud_task) s;
          s = hid_process E s;
          (c, s) = ask E (Usb Tud_cdc_connected) s
      in if \<not> truth c then Some s
         else map_option (emit (Usb Tud_task)) (usb_tx_loop E s))"

definition tud_mount_cb :: "'a mach_scheme \<Rightarrow> 'a mach_scheme" where
  "tud_mount_cb s = emit (Dmesg ''usb: USB connected'' []) s"

definition tud_umount_cb :: "'a mach_scheme \<Rightarrow> 'a mach_scheme" where
  "tud_umount_cb s = emit (Dmesg ''usb: USB dis-connected'' []) s"

section \<open>Reception\<close>

definition reads :: "call list \<Rightarrow> nat" where
  "reads cs = length (filter (\<lambda>c. c = Usb (Tud_cdc_read 64)) cs)"

definition pushed :: "call list \<Rightarrow> u8 list list" where
  "pushed cs = concat (map (\<lambda>c. case c of Usb u \<Rightarrow> (case u of Jd_usb_push b \<Rightarrow> [b] | _ \<Rightarrow> []) | _ \<Rightarrow> []) cs)"

lemma reads_simps [simp]: "reads [] = 0" "reads (a @ b) = reads a + reads b"
  "reads (c # cs) = of_bool (c = Usb (Tud_cdc_read 64)) + reads cs"
  by (simp_all add: reads_def)

lemma pushed_simps [simp]: "pushed [] = []" "pushed (a @ b) = pushed a @ pushed b"
  "pushed (c # cs) = (case c of Usb u \<Rightarrow> (case u of Jd_usb_push b \<Rightarrow> [b] | _ \<Rightarrow> []) | _ \<Rightarrow> []) @ pushed cs"
  by (simp_all add: pushed_def)

text \<open>The receive FIFO holds \<open>data\<close> after the history \<open>h\<close>; each read of 64 bytes takes what is there.\<close>

definition cdc_rx :: "plat \<Rightarrow> call list \<Rightarrow> u8 list \<Rightarrow> bool" where
  "cdc_rx E h data \<longleftrightarrow> (\<forall>cs. let r = drop (64 * reads cs) data in
     resp E (h @ cs) (Usb Tud_cdc_available) = int (length r) \<and>
     resp E (h @ cs) (Usb (Tud_cdc_read 64)) = int (min 64 (length r)) \<and>
     (\<forall>i < min 64 (length r). outbuf E (h @ cs) (Usb (Tud_cdc_read 64)) i = r ! i))"

lemma cdc_rx_chunk: "cdc_rx E h data \<Longrightarrow>
  buf_bytes E (h @ cs) (Usb (Tud_cdc_read 64)) (resp E (h @ cs) (Usb (Tud_cdc_read 64))) = take 64 (drop (64 * reads cs) data)"
  by (auto simp: cdc_rx_def buf_bytes_def Let_def intro!: nth_equalityI)

lemma cdc_rx_loop_run:
  assumes "cdc_rx E h data" "trace s = h @ cs" "64 * reads cs = n" "space = int (length (drop n data))"
  shows "\<exists>t ds. cdc_rx_loop E space s = Some t \<and> trace t = trace s @ ds \<and> concat (pushed ds) = drop n data \<and>
    (\<forall>b \<in> set (pushed ds). b \<noteq> [] \<and> length b \<le> 64)"
  using assms(2-4)
proof (induction "length (drop n data)" arbitrary: n cs s space rule: less_induct)
  case less
  show ?case
  proof (cases "n < length data")
    case False
    then have "cdc_rx_loop E space s = Some s" using less.prems(3) by (subst cdc_rx_loop.simps) simp
    with False show ?thesis by (intro exI [of _ s] exI [of _ "[]"]) simp
  next
    case True
    define b where "b = take 64 (drop n data)"
    define t where "t = s\<lparr>trace := trace s @ [Usb (Tud_cdc_read 64), Usb (Jd_usb_push b), Usb Tud_cdc_available]\<rparr>"
    have chunk: "buf_bytes E (trace s) (Usb (Tud_cdc_read 64)) (resp E (trace s) (Usb (Tud_cdc_read 64))) = b"
      using cdc_rx_chunk [OF assms(1), of cs] less.prems by (simp add: b_def)
    have "resp E (trace s @ [Usb (Tud_cdc_read 64), Usb (Jd_usb_push b)]) (Usb Tud_cdc_available) = int (length (drop (64 + n) data))"
      using assms(1) less.prems unfolding cdc_rx_def Let_def
      by (auto dest!: spec [of _ "cs @ [Usb (Tud_cdc_read 64), Usb (Jd_usb_push b)]"])
    then have step: "cdc_rx_loop E space s = cdc_rx_loop E (int (length (drop (64 + n) data))) t"
      using True less.prems(3) chunk by (subst cdc_rx_loop.simps) (simp add: t_def)
    let ?cs = "cs @ [Usb (Tud_cdc_read 64), Usb (Jd_usb_push b), Usb Tud_cdc_available]"
    have "length (drop (64 + n) data) < length (drop n data)" "trace t = h @ ?cs" "64 * reads ?cs = 64 + n"
      using True less.prems(1,2) by (simp_all add: t_def)
    from less.hyps [OF this refl] obtain u ds where
      u: "cdc_rx_loop E (int (length (drop (64 + n) data))) t = Some u" "trace u = trace t @ ds"
      "concat (pushed ds) = drop (64 + n) data" "\<forall>b \<in> set (pushed ds). b \<noteq> [] \<and> length b \<le> 64" by blast
    have "b @ drop (64 + n) data = drop n data" by (simp add: b_def append_take_drop_id flip: drop_drop)
    moreover have "b \<noteq> []" "length b \<le> 64" using True by (simp_all add: b_def)
    ultimately show ?thesis using step u
      by (intro exI [of _ u] exI [of _ "[Usb (Tud_cdc_read 64), Usb (Jd_usb_push b), Usb Tud_cdc_available] @ ds"]) (simp add: t_def)
  qed
qed

text \<open>
  C20. The receive callback ends and loses nothing: whatever number of bytes the
  FIFO holds, all of them are pushed to the runtime in order, in non-empty
  pieces that fit the 64-byte buffer.
\<close>

theorem usb_rx_delivers:
  assumes "cdc_rx E (trace s) data"
  shows "\<exists>t. tud_cdc_rx_cb E s = Some t \<and> concat (pushed (since s t)) = data \<and>
    (\<forall>b \<in> set (pushed (since s t)). b \<noteq> [] \<and> length b \<le> 64)"
proof -
  have "resp E (trace s) (Usb Tud_cdc_available) = int (length data)"
    using assms unfolding cdc_rx_def by (auto dest!: spec [of _ "[]"])
  with cdc_rx_loop_run [OF assms, of "emit (Usb Tud_cdc_available) s" "[Usb Tud_cdc_available]" 0 "int (length data)"]
  obtain t ds where "tud_cdc_rx_cb E s = Some t" "trace t = trace s @ [Usb Tud_cdc_available] @ ds"
    "concat (pushed ds) = data" "\<forall>b \<in> set (pushed ds). b \<noteq> [] \<and> length b \<le> 64"
    by (auto simp: tud_cdc_rx_cb_def)
  then show ?thesis by (auto simp: since_append)
qed

text \<open>A FIFO with 100 bytes.\<close>

definition fifo_plat :: plat where
  "fifo_plat = sample_plat\<lparr>resp := (\<lambda>h c. if c = Usb (Tud_cdc_read 64) then int (min 64 (100 - 64 * reads h))
      else int (100 - 64 * reads h)),
     outbuf := (\<lambda>h c i. of_nat (64 * reads h + i))\<rparr>"

theorem usb_rx_delivers_witness:
  "\<exists>t. tud_cdc_rx_cb fifo_plat hid_demo = Some t \<and> concat (pushed (since hid_demo t)) = map of_nat [0..<100]"
proof -
  have "cdc_rx fifo_plat (trace hid_demo) (map of_nat [0..<100])"
    by (auto simp: cdc_rx_def fifo_plat_def hid_demo_def Let_def)
  from usb_rx_delivers [OF this] show ?thesis by blast
qed

section \<open>Transmission\<close>

definition pulls :: "call list \<Rightarrow> nat" where
  "pulls cs = length (filter (\<lambda>c. c = Usb Jd_usb_pull) cs)"

definition written :: "call list \<Rightarrow> u8 list list" where
  "written cs = concat (map (\<lambda>c. case c of Usb u \<Rightarrow> (case u of Tud_cdc_n_write b \<Rightarrow> [b] | _ \<Rightarrow> []) | _ \<Rightarrow> []) cs)"

lemma pulls_simps [simp]: "pulls [] = 0" "pulls (a @ b) = pulls a + pulls b"
  "pulls (c # cs) = of_bool (c = Usb Jd_usb_pull) + pulls cs"
  by (simp_all add: pulls_def)

lemma written_simps [simp]: "written [] = []" "written (a @ b) = written a @ written b"
  "written (c # cs) = (case c of Usb u \<Rightarrow> (case u of Tud_cdc_n_write b \<Rightarrow> [b] | _ \<Rightarrow> []) | _ \<Rightarrow> []) @ written cs"
  by (simp_all add: written_def)

text \<open>The runtime's queue holds \<open>chunks\<close> after the history \<open>h\<close>; each pull takes the next one.\<close>

definition cdc_tx :: "plat \<Rightarrow> call list \<Rightarrow> u8 list list \<Rightarrow> bool" where
  "cdc_tx E h chunks \<longleftrightarrow> [] \<notin> set chunks \<and> (\<forall>cs. if pulls cs < length chunks
     then resp E (h @ cs) (Usb Jd_usb_pull) = int (length (chunks ! pulls cs)) \<and>
       (\<forall>i < length (chunks ! pulls cs). outbuf E (h @ cs) (Usb Jd_usb_pull) i = chunks ! pulls cs ! i)
     else resp E (h @ cs) (Usb Jd_usb_pull) = 0)"

lemma cdc_tx_chunk:
  assumes "cdc_tx E h chunks" "pulls cs < length chunks"
  shows "0 < resp E (h @ cs) (Usb Jd_usb_pull)"
    "buf_bytes E (h @ cs) (Usb Jd_usb_pull) (resp E (h @ cs) (Usb Jd_usb_pull)) = chunks ! pulls cs"
proof -
  have "chunks ! pulls cs \<noteq> []" using assms unfolding cdc_tx_def by (metis nth_mem)
  with assms show "0 < resp E (h @ cs) (Usb Jd_usb_pull)"
    "buf_bytes E (h @ cs) (Usb Jd_usb_pull) (resp E (h @ cs) (Usb Jd_usb_pull)) = chunks ! pulls cs"
    by (auto simp: cdc_tx_def buf_bytes_def intro!: nth_equalityI)
qed

lemma usb_tx_loop_run:
  assumes "cdc_tx E h chunks" "trace s = h @ cs" "pulls cs = k" "k \<le> length chunks"
  shows "\<exists>t ds j. usb_tx_loop E s = Some t \<and> trace t = trace s @ ds \<and> k + j \<le> length chunks \<and>
    written ds = take j (drop k chunks) \<and>
    (k + j < length chunks \<longrightarrow> pulls ds = j \<and> resp E (butlast (trace t)) (Usb Tud_cdc_n_write_available) < 64)"
  using assms(2-4)
proof (induction "length chunks - k" arbitrary: k cs s rule: less_induct)
  case less
  let ?room = "Usb Tud_cdc_n_write_available" and ?pull = "Usb Jd_usb_pull"
  note loop = usb_tx_loop.simps [of E s]
  consider "resp E (trace s) ?room < 64" | "64 \<le> resp E (trace s) ?room" "k = length chunks"
    | "64 \<le> resp E (trace s) ?room" "k < length chunks" using less.prems(3) by linarith
  then show ?case
  proof cases
    case 1
    then have "usb_tx_loop E s = Some (s\<lparr>trace := trace s @ [?room]\<rparr>)" using loop by simp
    with 1 less.prems show ?thesis
      by (intro exI [of _ "s\<lparr>trace := trace s @ [?room]\<rparr>"] exI [of _ "[?room]"] exI [of _ 0])
        (simp add: butlast_append)
  next
    case 2
    have "resp E (trace s @ [?room]) ?pull = 0"
      using assms(1) less.prems 2 unfolding cdc_tx_def by (auto dest!: spec [of _ "cs @ [?room]"])
    then have "usb_tx_loop E s = Some (s\<lparr>trace := trace s @ [?room, ?pull]\<rparr>)" using loop 2 by simp
    with 2 less.prems show ?thesis
      by (intro exI [of _ "s\<lparr>trace := trace s @ [?room, ?pull]\<rparr>"] exI [of _ "[?room, ?pull]"] exI [of _ 0]) simp
  next
    case 3
    define b where "b = chunks ! k"
    define new where "new = [?room, ?pull, Usb (Tud_cdc_n_write b), Usb Tud_cdc_n_write_flush]"
    define t where "t = s\<lparr>trace := trace s @ new\<rparr>"
    have "0 < resp E (trace s @ [?room]) ?pull" "buf_bytes E (trace s @ [?room]) ?pull (resp E (trace s @ [?room]) ?pull) = b"
      using cdc_tx_chunk [OF assms(1), of "cs @ [?room]"] less.prems 3 by (simp_all add: b_def)
    then have step: "usb_tx_loop E s = usb_tx_loop E t" using loop 3 by (simp add: t_def new_def)
    have "length chunks - Suc k < length chunks - k" "trace t = h @ cs @ new" "pulls (cs @ new) = Suc k" "Suc k \<le> length chunks"
      using less.prems 3 by (simp_all add: t_def new_def)
    from less.hyps [OF this] obtain u ds j where u: "usb_tx_loop E t = Some u" "trace u = trace t @ ds"
      "Suc k + j \<le> length chunks" "written ds = take j (drop (Suc k) chunks)"
      "Suc k + j < length chunks \<longrightarrow> pulls ds = j \<and> resp E (butlast (trace u)) ?room < 64" by blast
    have "b # take j (drop (Suc k) chunks) = take (Suc j) (drop k chunks)"
      using 3 by (simp add: b_def Cons_nth_drop_Suc [symmetric])
    with step u show ?thesis
      by (intro exI [of _ u] exI [of _ "new @ ds"] exI [of _ "Suc j"]) (simp add: t_def new_def)
  qed
qed

lemma hid_parts_quiet:
  "\<exists>cs. trace (hid_process_kbd E s) = trace s @ cs \<and> pulls cs = 0 \<and> written cs = []"
  "\<exists>cs. trace (hid_process_mouse E s) = trace s @ cs \<and> pulls cs = 0 \<and> written cs = []"
  "\<exists>cs. trace (hid_process_gamepad E s) = trace s @ cs \<and> pulls cs = 0 \<and> written cs = []"
  by (simp_all add: hid_process_kbd_def hid_process_mouse_def hid_process_gamepad_def)

lemma hid_process_quiet: "\<exists>cs. trace (hid_process E s) = trace s @ cs \<and> pulls cs = 0 \<and> written cs = []"
  using hid_parts_quiet(1) [of E s] hid_parts_quiet(2) [of E "hid_process_kbd E s"]
    hid_parts_quiet(3) [of E "hid_process_mouse E (hid_process_kbd E s)"]
  by (auto simp: hid_process_def)


text \<open>Two chunks to send on a connected device with plenty of room.\<close>

definition queue_plat :: plat where
  "queue_plat = sample_plat\<lparr>resp := (\<lambda>h c. if c = Usb Jd_usb_pull then (if pulls h < 2 then 3 else 0) else 128),
     outbuf := (\<lambda>h c i. of_nat (10 * pulls h + i))\<rparr>"


end
