(* ===== verification/Platform.thy ===== *)
theory Platform
  imports Lwip_Sock Usb
begin

text \<open>
  \<open>platform.c\<close>: random numbers from the ring oscillator, board detection and the
  status LED, start-up, and the panic handler. The interrupt mask is in theory
  \<open>Irq\<close>, the allocator in theory \<open>Wifi\<close>. No board of the repository defines an LED
  pin or the infinite-panic option, so the panic handler waits without
  blinking and resets the device.
\<close>

section \<open>State\<close>

record platform = sock +
  device_id :: u64
  cpu_mhz :: u8
  is_pico_w :: bool
  use_pico_led :: u8

section \<open>Random numbers\<close>

fun random_byte :: "plat \<Rightarrow> nat \<Rightarrow> u8 \<Rightarrow> 'a mach_scheme \<Rightarrow> u8 \<times> 'a mach_scheme" where
  "random_byte E 0 b s = (b, s)"
| "random_byte E (Suc j) b s =
     (let b = push_bit 1 b;
          (r, s) = rd E ROSC_RANDOMBIT s;
          b = (if r \<noteq> 0 then b OR 1 else b)
      in random_byte E j b s)"

fun random_bytes :: "plat \<Rightarrow> nat \<Rightarrow> 'a mach_scheme \<Rightarrow> u8 list \<times> 'a mach_scheme" where
  "random_bytes E 0 s = ([], s)"
| "random_bytes E (Suc i) s =
     (let (b, s) = random_byte E 8 0 s;
          (bs, s) = random_bytes E i s
      in (b # bs, s))"

definition hw_random :: "plat \<Rightarrow> 'a mach_scheme \<Rightarrow> u32 \<times> 'a mach_scheme" where
  "hw_random E s =
     (let (buf, s) = random_bytes E 16 s;
          (h, s) = ask E (Plat (Jd_hash_fnv1a buf)) s
      in (word_of_int h, s))"

text \<open>The bytes of a word in memory, lowest first.\<close>

definition le_bytes :: "u32 \<Rightarrow> u8 list" where
  "le_bytes v = map (\<lambda>k. ucast (drop_bit (8 * k) v)) [0..<4]"

definition memcpy_at :: "nat \<Rightarrow> u8 list \<Rightarrow> u8 list \<Rightarrow> u8 list" where
  "memcpy_at i bs buf = take i buf @ bs @ drop (i + length bs) buf"

partial_function (option) crypto_loop ::
  "plat \<Rightarrow> u32 \<Rightarrow> u32 \<Rightarrow> u8 list \<Rightarrow> 'a mach_scheme \<Rightarrow> (u8 list \<times> 'a mach_scheme) option" where
  "crypto_loop E sz i buf s =
     (if i < sz
      then let (v, s) = hw_random E s;
               buf = (if sz - i < 4 then memcpy_at (unat i) (take (unat (sz - i)) (le_bytes v)) buf
                      else memcpy_at (unat i) (le_bytes v) buf)
           in crypto_loop E sz (i + 4) buf s
      else Some (buf, s))"

definition jd_crypto_get_random ::
  "plat \<Rightarrow> u8 list \<Rightarrow> u32 \<Rightarrow> 'a mach_scheme \<Rightarrow> (u8 list \<times> 'a mach_scheme) option" where
  "jd_crypto_get_random E buf sz s = crypto_loop E sz 0 buf s"

section \<open>Board detection and LED\<close>

definition pico_w_init :: "plat \<Rightarrow> 'a platform_scheme \<Rightarrow> 'a platform_scheme" where
  "pico_w_init E s =
     (let s = pin_setup_analog_input E 29 s;
          (v, s) = adc_read_pin E 29 s;
          s = (if v < 3264 then s\<lparr>is_pico_w := True\<rparr>
               else
                let s = pin_set E 25 0 s;
                    s = pin_setup_output E 25 s;
                    (v, s) = adc_read_pin E 29 s;
                    s = s\<lparr>is_pico_w := v < 3264\<rparr>
                in pin_setup_analog_input E 25 s)
      in emit (Dmesg (if is_pico_w s then ''board is: Pico W'' else ''board is: Pico'') []) s)"

definition jd_wifi_available :: "'a platform_scheme \<Rightarrow> bool" where
  "jd_wifi_available s = is_pico_w s"

definition jd_rgbext_init :: "plat \<Rightarrow> int \<Rightarrow> u8 \<Rightarrow> 'a platform_scheme \<Rightarrow> 'a platform_scheme" where
  "jd_rgbext_init E ty pin s =
     (if ty = 100
      then let s = s\<lparr>use_pico_led := pin\<rparr>
           in if \<not> is_pico_w s then pin_setup_output E (uint (use_pico_led s)) s else s
      else s)"

definition jd_rgbext_set :: "plat \<Rightarrow> u8 \<Rightarrow> u8 \<Rightarrow> u8 \<Rightarrow> 'a platform_scheme \<Rightarrow> 'a platform_scheme" where
  "jd_rgbext_set E r g b s =
     (if use_pico_led s = 0 then s
      else if is_pico_w s then pico_w_set_led r g b s
      else pin_set E (uint (use_pico_led s)) (of_bool (0 < r \<or> 0 < g \<or> 0 < b)) s)"

section \<open>Start-up\<close>

definition platform_init :: "plat \<Rightarrow> 'a platform_scheme \<Rightarrow> 'a platform_scheme res" where
  "platform_init E s =
     (let s = emit (Dmesg ''start!'' []) s;
          (led, s) = ask E (Dcfg_get_i32 ''led.type'' 0) s;
          s = (if led = 100 then pico_w_init E s else s);
          (r, s) = hw_random E s;
          s = emit (Dmesg ''rand %x'' [uint r]) s;
          s = emit (Plat (Jd_seed_random r)) s;
          idb = map (outbuf E (trace s) (Plat Pico_get_unique_board_id)) [0..<8];
          s = emit (Plat Pico_get_unique_board_id) s
      in bindE (jd_assert (8 = SIZEOF_BOARD_ID E) s) (\<lambda>s.
         let s = s\<lparr>device_id := word_rcat (rev idb)\<rparr>;
             (hz, s) = ask E Clock_get_hz_sys s;
             s = s\<lparr>cpu_mhz := ucast ((word_of_int hz :: u32) div 1000000)\<rparr>;
             s = tim_init E s
         in bindE (uart_init' E s) (\<lambda>s. Inr (usb_init s))))"

definition hw_device_id :: "'a platform_scheme \<Rightarrow> u64" where
  "hw_device_id s = device_id s"

definition jd_alloc_stack_check :: "'a mach_scheme \<Rightarrow> 'a mach_scheme" where
  "jd_alloc_stack_check s = s"

definition jd_alloc_init :: "'a mach_scheme \<Rightarrow> 'a mach_scheme" where
  "jd_alloc_init s = s"

definition libc_init_array :: "'a mach_scheme \<Rightarrow> 'a mach_scheme" where
  "libc_init_array s = s"

section \<open>Reset and panic\<close>

definition target_reset :: "'a mach_scheme \<Rightarrow> 'a mach_scheme" where
  "target_reset s = emit (Plat Nvic_SystemReset) s"

definition reboot_to_uf2 :: "'a mach_scheme \<Rightarrow> 'a mach_scheme" where
  "reboot_to_uf2 s = emit (Plat Reset_usb_boot) s"

text \<open>
  The LED a panic blinks is chosen at compile time: a red LED pin, an LED pin with
  a ground pin, or none. \<open>JD_INFINITE_PANIC\<close> makes the panic last for ever.
\<close>

datatype panic_led = PIN_LED_R int | PIN_LED int int | No_panic_led

fun led_panic_blink :: "panic_led \<Rightarrow> plat \<Rightarrow> 'a mach_scheme \<Rightarrow> 'a mach_scheme option" where
  "led_panic_blink (PIN_LED_R pin) E s =
     (let s = pin_setup_output E pin s;
          s = pin_set E pin 0 s
      in case target_wait_us E 70000 s of None \<Rightarrow> None
         | Some s \<Rightarrow> target_wait_us E 70000 (pin_set E pin 1 s))"
| "led_panic_blink (PIN_LED pin gnd) E s =
     (let s = pin_setup_output E pin s;
          s = pin_setup_output E gnd s;
          s = pin_set E gnd 0 s;
          s = pin_set E pin 1 s
      in case target_wait_us E 70000 s of None \<Rightarrow> None
         | Some s \<Rightarrow> target_wait_us E 70000 (pin_set E pin 0 s))"
| "led_panic_blink No_panic_led E s = target_wait_us E 140000 s"

fun panic_loop :: "panic_led \<Rightarrow> plat \<Rightarrow> nat \<Rightarrow> 'a mach_scheme \<Rightarrow> 'a mach_scheme option" where
  "panic_loop L E 0 s = Some s"
| "panic_loop L E (Suc i) s = (case led_panic_blink L E s of None \<Rightarrow> None | Some s \<Rightarrow> panic_loop L E i s)"

partial_function (option) panic_forever :: "panic_led \<Rightarrow> plat \<Rightarrow> 'a mach_scheme \<Rightarrow> 'a mach_scheme option" where
  "panic_forever L E s = (case led_panic_blink L E s of None \<Rightarrow> None | Some s \<Rightarrow> panic_forever L E s)"

definition panic_start :: "'a irq_scheme \<Rightarrow> 'a irq_scheme" where
  "panic_start s =
     (let s = emit (Dmesg ''HW PANIC!'' []) s
      in target_disable_irq s)"

definition hw_panic :: "bool \<Rightarrow> panic_led \<Rightarrow> plat \<Rightarrow> 'a irq_scheme \<Rightarrow> 'a irq_scheme option" where
  "hw_panic JD_INFINITE_PANIC L E s =
     (let s = panic_start s
      in if JD_INFINITE_PANIC then panic_forever L E s
         else map_option target_reset (panic_loop L E 60 s))"

section \<open>Random bytes fill the buffer\<close>

lemma random_byte_run:
  "\<exists>b'. random_byte E j b s = (b', s\<lparr>trace := trace s @ replicate j (Rd ROSC_RANDOMBIT)\<rparr>)"
proof (induction j arbitrary: b s)
  case (Suc j)
  show ?case
    using Suc.IH [of _ "s\<lparr>trace := trace s @ [Rd ROSC_RANDOMBIT]\<rparr>"] by simp
qed simp

lemma random_bytes_run:
  "\<exists>bs. random_bytes E i s = (bs, s\<lparr>trace := trace s @ replicate (8 * i) (Rd ROSC_RANDOMBIT)\<rparr>) \<and> length bs = i"
proof (induction i arbitrary: s)
  case (Suc i)
  obtain b where b: "random_byte E 8 0 s = (b, s\<lparr>trace := trace s @ replicate 8 (Rd ROSC_RANDOMBIT)\<rparr>)"
    using random_byte_run by blast
  from Suc.IH [of "s\<lparr>trace := trace s @ replicate 8 (Rd ROSC_RANDOMBIT)\<rparr>"] show ?case
    by (auto simp: b replicate_add simp del: random_byte.simps)
qed simp

lemma hw_random_run:
  "\<exists>v buf. hw_random E s = (v, s\<lparr>trace := trace s @ replicate 128 (Rd ROSC_RANDOMBIT) @ [Plat (Jd_hash_fnv1a buf)]\<rparr>) \<and> length buf = 16"
  using random_bytes_run [of E 16 s] by (auto simp: hw_random_def simp del: random_bytes.simps)

text \<open>A sequence of random words.\<close>

fun random_words :: "plat \<Rightarrow> nat \<Rightarrow> 'a mach_scheme \<Rightarrow> u32 list \<times> 'a mach_scheme" where
  "random_words E 0 s = ([], s)"
| "random_words E (Suc n) s = (let (v, s) = hw_random E s; (vs, s) = random_words E n s in (v # vs, s))"

lemma random_words_rosc:
  "\<exists>cs. trace (snd (random_words E n s)) = trace s @ cs \<and> count_list cs (Rd ROSC_RANDOMBIT) = 128 * n"
proof (induction n arbitrary: s)
  case (Suc n)
  obtain v buf where v: "hw_random E s = (v, s\<lparr>trace := trace s @ replicate 128 (Rd ROSC_RANDOMBIT) @ [Plat (Jd_hash_fnv1a buf)]\<rparr>)"
    using hw_random_run by blast
  have rep: "count_list (replicate k x) x = k" for k and x :: call by (induction k) auto
  from Suc.IH [of "snd (hw_random E s)"] show ?case
    by (auto simp: v rep split: prod.split)
qed simp

lemma length_le_bytes [simp]: "length (le_bytes v) = 4"
  by (simp add: le_bytes_def)

lemma crypto_step:
  assumes "i < sz" "hw_random E s = (v, t)"
  shows "crypto_loop E sz i buf s = crypto_loop E sz (i + 4) (memcpy_at (unat i) (take (unat (sz - i)) (le_bytes v)) buf) t"
proof -
  have "take (unat (sz - i)) (le_bytes v) = le_bytes v" if "\<not> sz - i < 4"
    using that by (simp add: word_less_nat_alt)
  with assms show ?thesis by (subst crypto_loop.simps) simp
qed

lemma crypto_done: "sz \<le> i \<Longrightarrow> crypto_loop E sz i buf s = Some (buf, s)"
  by (subst crypto_loop.simps) (auto simp: not_less [symmetric])

lemma words_needed: "0 < d \<Longrightarrow> (d + 3) div 4 = Suc ((d - 1) div 4)" for d :: nat
  by (cases d) simp_all

lemma crypto_loop_run:
  assumes "unat sz \<le> 2 ^ 32 - 4" "unat i \<le> unat sz" "unat sz \<le> length buf"
    and "random_words E ((unat sz - unat i + 3) div 4) s = (vs, t)"
  shows "crypto_loop E sz i buf s =
    Some (take (unat i) buf @ take (unat sz - unat i) (concat (map le_bytes vs)) @ drop (unat sz) buf, t)"
  using assms(2-4)
proof (induction "unat sz - unat i" arbitrary: i buf s vs rule: less_induct)
  case less
  show ?case
  proof (cases "unat i = unat sz")
    case True
    with less.prems show ?thesis by (simp add: crypto_done word_le_nat_alt)
  next
    case False
    then have lt: "i < sz" "unat i < unat sz" using less.prems(1) by (simp_all add: word_less_nat_alt)
    then have sub: "unat (sz - i) = unat sz - unat i" by (simp add: unat_sub)
    have add: "unat (i + 4) = unat i + 4" using lt(2) assms(1) by (simp add: unat_word_ariths)
    define d where "d = unat sz - unat i"
    have d: "0 < d" "unat sz = unat i + d" using lt(2) by (simp_all add: d_def)
    obtain v u ws where v: "hw_random E s = (v, u)" "random_words E ((d - 1) div 4) u = (ws, t)" "vs = v # ws"
      using less.prems(3) by (auto simp: d_def [symmetric] words_needed [OF d(1)] split: prod.splits)
    define buf' where "buf' = memcpy_at (unat i) (take d (le_bytes v)) buf"
    have step: "crypto_loop E sz i buf s = crypto_loop E sz (i + 4) buf' u"
      using crypto_step [OF lt(1) v(1)] sub by (simp add: buf'_def d_def)
    show ?thesis
    proof (cases "d \<le> 4")
      case True
      then have "crypto_loop E sz (i + 4) buf' u = Some (buf', u)"
        using add d(2) by (intro crypto_done) (simp add: word_le_nat_alt)
      moreover have "(d - 1) div 4 = 0" using True d(1) by simp
      ultimately show ?thesis
        using step v True d by (simp add: buf'_def memcpy_at_def min_def)
    next
      case False
      then have "crypto_loop E sz (i + 4) buf' u =
          Some (take (unat (i + 4)) buf' @ take (unat sz - unat (i + 4)) (concat (map le_bytes ws)) @ drop (unat sz) buf', t)"
        using less.prems(2) d v(2) add by (intro less.hyps) (auto simp: buf'_def memcpy_at_def)
      moreover have "take (unat i + 4) buf' = take (unat i) buf @ le_bytes v" "drop (unat sz) buf' = drop (unat sz) buf"
        using False less.prems(2) d by (simp_all add: buf'_def memcpy_at_def add.commute)
      ultimately show ?thesis using step v(3) False d add by simp
    qed
  qed
qed

text \<open>
  C21. \<open>jd_crypto_get_random\<close> fills exactly the requested bytes, for every size up
  to \<open>2^32 - 4\<close> that the buffer can hold: the result is the little-endian
  concatenation of as many random words as are needed, cut to size, the rest of
  the buffer is untouched, and 128 oscillator bits are sampled for every word.
\<close>

theorem crypto_random_fills:
  assumes "unat sz \<le> 2 ^ 32 - 4" "unat sz \<le> length buf"
  shows "\<exists>vs t. jd_crypto_get_random E buf sz s = Some (take (unat sz) (concat (map le_bytes vs)) @ drop (unat sz) buf, t) \<and>
    random_words E ((unat sz + 3) div 4) s = (vs, t) \<and>
    count_list (since s t) (Rd ROSC_RANDOMBIT) = 128 * ((unat sz + 3) div 4)"
proof -
  obtain vs t where r: "random_words E ((unat sz + 3) div 4) s = (vs, t)" by (cases "random_words E ((unat sz + 3) div 4) s")
  with random_words_rosc [of E "(unat sz + 3) div 4" s] have
    "count_list (since s t) (Rd ROSC_RANDOMBIT) = 128 * ((unat sz + 3) div 4)" by (auto simp: since_def)
  moreover have "jd_crypto_get_random E buf sz s = Some (take (unat sz) (concat (map le_bytes vs)) @ drop (unat sz) buf, t)"
    using crypto_loop_run [of sz 0 buf E s vs t] assms r by (simp add: jd_crypto_get_random_def)
  ultimately show ?thesis using r by blast
qed

definition mach_demo :: mach where
  "mach_demo = \<lparr>trace = []\<rparr>"

theorem crypto_random_fills_witness:
  "\<exists>bs t. jd_crypto_get_random sample_plat (replicate 8 0) 6 mach_demo = Some (bs @ [0, 0], t) \<and>
     count_list (since mach_demo t) (Rd ROSC_RANDOMBIT) = 256"
proof -
  have tail: "drop 6 (replicate 8 (0::u8)) = [0, 0]" by (simp add: numeral_eq_Suc)
  from crypto_random_fills [of 6 "replicate 8 0" sample_plat mach_demo] obtain vs t where
    "jd_crypto_get_random sample_plat (replicate 8 0) 6 mach_demo = Some (take 6 (concat (map le_bytes vs)) @ drop 6 (replicate 8 0), t)"
    "count_list (since mach_demo t) (Rd ROSC_RANDOMBIT) = 256" by auto
  then show ?thesis unfolding tail by blast
qed

section \<open>A panic ends in a reset\<close>

text \<open>At least \<open>n\<close> microseconds pass between two states, without interrupts being enabled.\<close>

definition passes :: "(call list \<Rightarrow> nat) \<Rightarrow> nat \<Rightarrow> 'a mach_scheme \<Rightarrow> 'a mach_scheme \<Rightarrow> bool" where
  "passes clk n s t \<longleftrightarrow> (\<exists>cs. t = s\<lparr>trace := trace s @ cs\<rparr> \<and> clk (trace s) + n \<le> clk (trace s @ cs) \<and> Cpu Cpsie \<notin> set cs)"

lemma passes_trans: "passes clk m s t \<Longrightarrow> passes clk n t u \<Longrightarrow> passes clk (m + n) s u"
  unfolding passes_def
proof (elim exE conjE)
  fix cs ds
  assume "t = s\<lparr>trace := trace s @ cs\<rparr>" "clk (trace s) + m \<le> clk (trace s @ cs)" "Cpu Cpsie \<notin> set cs"
    "u = t\<lparr>trace := trace t @ ds\<rparr>" "clk (trace t) + n \<le> clk (trace t @ ds)" "Cpu Cpsie \<notin> set ds"
  then show "\<exists>cs. u = s\<lparr>trace := trace s @ cs\<rparr> \<and> clk (trace s) + (m + n) \<le> clk (trace s @ cs) \<and> Cpu Cpsie \<notin> set cs"
    by (intro exI [of _ "cs @ ds"]) simp
qed

lemma passes_calls:
  "clock E clk \<Longrightarrow> Cpu Cpsie \<notin> set cs \<Longrightarrow> passes clk 0 s (s\<lparr>trace := trace s @ cs\<rparr>)"
  using clock_append_mono [of E clk "trace s" cs] by (auto simp: passes_def)

lemma passes_pins:
  assumes "clock E clk"
  shows "passes clk 0 s (pin_set F pin v s)" "passes clk 0 s (pin_setup_output F pin s)"
proof -
  have "\<exists>cs. pin_set F pin v s = s\<lparr>trace := trace s @ cs\<rparr> \<and> Cpu Cpsie \<notin> set cs"
    "\<exists>cs. pin_setup_output F pin s = s\<lparr>trace := trace s @ cs\<rparr> \<and> Cpu Cpsie \<notin> set cs"
    by (auto simp: pin_mode_defs intro: exI [of _ "[]"])
  then show "passes clk 0 s (pin_set F pin v s)" "passes clk 0 s (pin_setup_output F pin s)"
    using passes_calls [OF assms] by metis+
qed

lemma passes_wait:
  assumes "clock E clk" "unat n \<le> 2 ^ 32 - 2 ^ 29"
  shows "\<exists>t. target_wait_us E n s = Some t \<and> passes clk (unat n) s t"
proof -
  let ?L = "Rd TIMER_TIMERAWL"
  obtain k where k: "target_wait_us E n s = Some (s\<lparr>trace := trace s @ replicate (Suc (Suc k)) ?L\<rparr>)"
    "clk (trace s) + unat n \<le> clk (trace s @ replicate (Suc k) ?L)"
    using target_wait_us_returns [OF assms] by blast
  have "clk (trace s @ replicate (Suc k) ?L) \<le> clk (trace s @ replicate (Suc (Suc k)) ?L)"
    using clock_mono [OF assms(1), of "trace s @ replicate (Suc k) ?L" ?L] by (simp add: replicate_append_same)
  with k show ?thesis
    by (intro exI [of _ "s\<lparr>trace := trace s @ replicate (Suc (Suc k)) ?L\<rparr>"])
      (auto simp: passes_def intro!: exI [of _ "replicate (Suc (Suc k)) ?L"] simp del: replicate.simps)
qed

lemma blink_passes:
  assumes "clock E clk"
  shows "\<exists>t. led_panic_blink L E s = Some t \<and> passes clk 140000 s t"
proof -
  have twice: "\<exists>t. (case target_wait_us E 70000 u of None \<Rightarrow> None | Some v \<Rightarrow> target_wait_us E 70000 (pin_set E p x v)) = Some t \<and>
      passes clk 140000 s t" if "passes clk 0 s u" for u p x
  proof -
    obtain v where v: "target_wait_us E 70000 u = Some v" "passes clk 70000 u v"
      using passes_wait [OF assms, of 70000 u] by auto
    obtain t where "target_wait_us E 70000 (pin_set E p x v) = Some t" "passes clk 70000 (pin_set E p x v) t"
      using passes_wait [OF assms, of 70000] by auto
    with v show ?thesis
      using passes_trans [OF passes_trans [OF passes_trans [OF that v(2)] passes_pins(1) [OF assms]]] by fastforce
  qed
  show ?thesis
  proof (cases L)
    case (PIN_LED_R p)
    have "passes clk 0 s (pin_set E p 0 (pin_setup_output E p s))"
      using passes_trans [OF passes_pins(2,1) [OF assms]] by simp
    from twice [OF this] show ?thesis by (simp add: PIN_LED_R)
  next
    case (PIN_LED p g)
    have "passes clk 0 s (pin_set E p 1 (pin_set E g 0 (pin_setup_output E g (pin_setup_output E p s))))"
      using passes_trans [OF passes_trans [OF passes_trans [OF passes_pins(2) [OF assms] passes_pins(2) [OF assms]]
            passes_pins(1) [OF assms]] passes_pins(1) [OF assms]] by simp
    from twice [OF this] show ?thesis by (simp add: PIN_LED)
  next
    case No_panic_led
    then show ?thesis using passes_wait [OF assms, of 140000 s] by simp
  qed
qed

lemma panic_loop_passes:
  assumes "clock E clk"
  shows "\<exists>t. panic_loop L E n s = Some t \<and> passes clk (n * 140000) s t"
proof (induction n arbitrary: s)
  case 0
  show ?case using passes_calls [OF assms, of "[]" s] by simp
next
  case (Suc n)
  obtain u where u: "led_panic_blink L E s = Some u" "passes clk 140000 s u" using blink_passes [OF assms] by blast
  from Suc.IH [of u] obtain t where "panic_loop L E n u = Some t" "passes clk (n * 140000) u t" by blast
  with u passes_trans [OF u(2)] show ?case by fastforce
qed

lemma panic_forever_None: "panic_forever L E s = None"
proof -
  have "panic_forever L E s = Some t \<Longrightarrow> False" for t
    by (erule panic_forever.raw_induct [rotated]) (auto split: option.splits)
  then show ?thesis by (cases "panic_forever L E s") auto
qed

text \<open>
  C22. A panic always ends in a reset of the device, after at least 60 times 140 ms
  in which the panic state is visible, whichever LED the board has. Interrupts are
  disabled throughout: apart from the log line everything happens after interrupts
  were disabled, the blinking takes place in between, and they are never enabled
  again. Built with \<open>JD_INFINITE_PANIC\<close> it never returns, but every blink ends, so the
  LED keeps blinking with interrupts disabled.
\<close>

theorem hw_panic_resets:
  assumes "clock E clk"
  shows "(\<exists>t cs. hw_panic False L E s = Some t \<and>
      trace t = trace s @ [Dmesg ''HW PANIC!'' [], Cpu Cpsid] @ cs @ [Plat Nvic_SystemReset] \<and> Cpu Cpsie \<notin> set cs \<and>
      clk (trace s @ [Dmesg ''HW PANIC!'' [], Cpu Cpsid]) + 60 * 140000 \<le> clk (trace s @ [Dmesg ''HW PANIC!'' [], Cpu Cpsid] @ cs) \<and>
      irq_disabled t = irq_disabled s + 1) \<and>
    hw_panic True L E s = None \<and> hw_panic True L E s = panic_forever L E (panic_start s) \<and>
    trace (panic_start s) = trace s @ [Dmesg ''HW PANIC!'' [], Cpu Cpsid] \<and>
    (\<exists>t. panic_loop L E n (panic_start s) = Some t \<and> passes clk (n * 140000) (panic_start s) t)"
proof -
  let ?s = "panic_start s"
  have s: "trace ?s = trace s @ [Dmesg ''HW PANIC!'' [], Cpu Cpsid]" "irq_disabled ?s = irq_disabled s + 1"
    by (simp_all add: panic_start_def target_disable_irq_def)
  obtain u where u: "panic_loop L E 60 ?s = Some u" "passes clk (60 * 140000) ?s u"
    using panic_loop_passes [OF assms] by blast
  then obtain cs where cs: "u = ?s\<lparr>trace := trace ?s @ cs\<rparr>" "clk (trace ?s) + 60 * 140000 \<le> clk (trace ?s @ cs)" "Cpu Cpsie \<notin> set cs"
    unfolding passes_def by blast
  have "hw_panic False L E s = Some (target_reset u)" using u(1) by (simp add: hw_panic_def)
  moreover have "trace (target_reset u) = trace s @ [Dmesg ''HW PANIC!'' [], Cpu Cpsid] @ cs @ [Plat Nvic_SystemReset]"
    "irq_disabled (target_reset u) = irq_disabled s + 1"
    using cs(1) s by (simp_all add: target_reset_def)
  ultimately show ?thesis
    using cs(2,3) s panic_loop_passes [OF assms] by (auto simp: hw_panic_def panic_forever_None)
qed

theorem hw_panic_resets_witness:
  "\<exists>t. hw_panic False (PIN_LED_R 16) wrap_plat \<lparr>trace = [], irq_disabled = 0\<rparr> = Some t \<and> last (trace t) = Plat Nvic_SystemReset"
proof -
  obtain t cs where "hw_panic False (PIN_LED_R 16) wrap_plat \<lparr>trace = [], irq_disabled = 0\<rparr> = Some t"
    "trace t = [Dmesg ''HW PANIC!'' [], Cpu Cpsid] @ cs @ [Plat Nvic_SystemReset]"
    using hw_panic_resets [OF wrap_clock, of "PIN_LED_R 16" "\<lparr>trace = [], irq_disabled = 0\<rparr>" 0] by auto
  then show ?thesis by simp
qed

end
