(* ===== verification/Main_Loop.thy ===== *)
theory Main_Loop
  imports Platform
begin

text \<open>
  \<open>main.c\<close>: start-up, the pump that moves log text to the log UART, and one turn
  of the main loop. The runtime's own work in a turn
  (\<open>jd_process_everything\<close>), its socket events and the completion callbacks of SPI
  transfers are parameters. The read cursor of the log belongs to the runtime,
  which is only given its address.
\<close>

section \<open>Operations\<close>

definition app_init_services :: "plat \<Rightarrow> 'a platform_scheme \<Rightarrow> 'a platform_scheme" where
  "app_init_services E s =
     (let s = emit (Plat Devs_service_full_init) s;
          s = uart_log_sync_pin E s;
          (r, s) = i2c_init' E s
      in if r = 0 then emit (Plat Jd_scan_all) s else s)"

definition dmesg_to_stdout :: "plat \<Rightarrow> 'a ulog_scheme \<Rightarrow> (bool \<times> 'a ulog_scheme) res" where
  "dmesg_to_stdout E s =
     (if \<not> uart_log_can_write s then Inr (True, s)
      else
       let (len, s) = ask E (Plat (Jd_dmesg_read (dmesg_buf E) 128)) s
       in if (word_of_int len :: u32) \<noteq> 0
          then bindE (uart_log_write E (dmesg_buf E) (word_of_int len) s) (\<lambda>s. Inr (True, s))
          else Inr (False, s))"

text \<open>The end of a turn: log output, or sleep until the next event.\<close>

definition main_idle :: "plat \<Rightarrow> 'a ulog_scheme \<Rightarrow> 'a ulog_scheme res" where
  "main_idle E s =
     bindE (dmesg_to_stdout E s) (\<lambda>(more_work, s).
       if more_work then Inr s
       else let (f, s) = ask E (Plat Jd_rx_has_frame) s
            in Inr (if \<not> truth f then emit (Plat Wfe) s else s))"

definition main_turn ::
  "plat \<Rightarrow> ('a platform_scheme \<Rightarrow> 'a platform_scheme res) \<Rightarrow> 'a platform_ext sock_scheme handler
    \<Rightarrow> (nat \<Rightarrow> 'a platform_scheme \<Rightarrow> 'a platform_scheme res) \<Rightarrow> 'a platform_scheme \<Rightarrow> 'a platform_scheme res" where
  "main_turn E process_everything on_event run s =
     bindE (process_everything s) (\<lambda>s.
     let s = emit (Plat (Jd_set_max_sleep 1000)) s
     in bindE (jd_tcpsock_process E on_event s) (\<lambda>s.
        bindE (jd_spi_process run s) (main_idle E)))"

definition main_start :: "plat \<Rightarrow> 'a platform_scheme \<Rightarrow> 'a platform_scheme res" where
  "main_start E s =
     (let s = uart_log_init E s
      in bindE (platform_init E s) (\<lambda>s. Inr (emit (Plat Jd_init) s)))"

section \<open>Log output and sleep\<close>

lemma log_write_awake:
  "uart_log_write E b n s = Inr t \<Longrightarrow> \<exists>cs. trace t = trace s @ cs \<and> Plat Wfe \<notin> set cs"
  by (auto simp: uart_log_write_def uart_log_init_def dma_set_ch_cb_def bindE_eq_Inr nvic_defs irq_defs split: if_splits)

text \<open>
  C18. The end of every turn keeps the log moving and never sleeps on work: on a
  state in which the log UART keeps its contract it does not fail; while a block
  is being sent nothing is touched, in particular the buffer the DMA reads is
  not refilled; otherwise the text read is handed to the UART as one block; and
  the processor waits for an event exactly when no block is under way, there is
  no log text and no frame has been received.
\<close>

theorem main_idle_pumps_log:
  assumes "ulog_rel a s" "rdc = Plat (Jd_dmesg_read (dmesg_buf E) 128)"
    and "len = (word_of_int (resp E (trace s) rdc) :: u32)" "frame = resp E (trace s @ [rdc]) (Plat Jd_rx_has_frame)"
  shows "\<exists>t. main_idle E s = Inr t \<and>
    (Plat Wfe \<in> set (since s t) \<longleftrightarrow> \<not> busy a \<and> len = 0 \<and> frame = 0) \<and>
    (busy a \<longrightarrow> t = s) \<and>
    (\<not> busy a \<longrightarrow> len \<noteq> 0 \<longrightarrow> ulog_rel (log_spec (Log_write (dmesg_buf E) len) a) t \<and>
      uart_log_write E (dmesg_buf E) len (emit rdc s) = Inr t) \<and>
    (\<not> busy a \<longrightarrow> len = 0 \<longrightarrow> ulog_rel a t \<and> since s t = [rdc, Plat Jd_rx_has_frame] @ (if frame = 0 then [Plat Wfe] else []))"
proof (cases "busy a")
  case True
  with assms(1) show ?thesis by (simp add: main_idle_def dmesg_to_stdout_def uart_log_can_write_def ulog_rel_def since_def)
next
  case False
  let ?s = "emit rdc s"
  have rel: "ulog_rel a (s\<lparr>trace := trace s @ cs\<rparr>)" if "log_sent (log_dmachTx s) cs = []" for cs
    using assms(1) that by (auto simp: ulog_rel_def slot_of_def split: if_splits)
  have can: "uart_log_can_write s" using False assms(1) by (simp add: uart_log_can_write_def ulog_rel_def)
  show ?thesis
  proof (cases "len = 0")
    case True
    with False can assms(2-4) rel [of "[rdc, Plat Jd_rx_has_frame]"] rel [of "[rdc, Plat Jd_rx_has_frame, Plat Wfe]"]
    show ?thesis by (auto simp: main_idle_def dmesg_to_stdout_def since_def log_sent_def)
  next
    case nz: False
    have "ulog_rel a ?s" using rel [of "[rdc]"] assms(2) by (simp add: log_sent_def)
    from log_write_step [OF this False, of E "dmesg_buf E" len] obtain t where
      t: "uart_log_write E (dmesg_buf E) len ?s = Inr t" "ulog_rel (log_spec (Log_write (dmesg_buf E) len) a) t" by blast
    have "main_idle E s = Inr t"
      using t(1) nz False can assms(2,3) by (simp add: main_idle_def dmesg_to_stdout_def)
    moreover have "Plat Wfe \<notin> set (since s t)" using log_write_awake [OF t(1)] assms(2) by (auto simp: since_def)
    ultimately show ?thesis using t nz False by simp
  qed
qed

theorem main_idle_pumps_log_witness:
  "\<exists>t. main_idle sample_plat ulog_demo = Inr t \<and>
     since ulog_demo t = [Plat (Jd_dmesg_read 0x20005000 128), Plat Jd_rx_has_frame, Plat Wfe]"
proof -
  have "ulog_rel \<lparr>enabled = True, busy = False, sent = []\<rparr> ulog_demo"
    by (simp add: ulog_rel_def ulog_demo_def ulog.defs spi_state.defs spi_demo_def log_sent_def slot_of_def)
  from main_idle_pumps_log [OF this refl refl refl, of sample_plat] show ?thesis
    by (auto simp: sample_plat_def)
qed

section \<open>Start-up\<close>

text \<open>What the steps before \<open>uart_init_\<close> leave alone.\<close>

definition boot_same :: "'a platform_scheme \<Rightarrow> 'a platform_scheme \<Rightarrow> bool" where
  "boot_same s t \<longleftrightarrow> exti_ev t = exti_ev s \<and> exti_cb t = exti_cb s \<and> smtx t = smtx s \<and> smrx t = smrx s \<and>
     dmaHandler t = dmaHandler s \<and> log_dmachTx t = log_dmachTx s \<and> in_tx t = in_tx s \<and>
     spi_in_use t = spi_in_use s \<and> spi_done_cb t = spi_done_cb s \<and> dma_claimed t = dma_claimed s"

lemma boot_same_steps:
  "boot_same s (t\<lparr>trace := tr\<rparr>) = boot_same s t" "boot_same s (t\<lparr>adc_inited := b\<rparr>) = boot_same s t"
  "boot_same s (t\<lparr>is_pico_w := w\<rparr>) = boot_same s t" "boot_same s (t\<lparr>device_id := d\<rparr>) = boot_same s t"
  "boot_same s (t\<lparr>cpu_mhz := m\<rparr>) = boot_same s t"
  "boot_same s (pin_set E p x t) = boot_same s t" "boot_same s (pin_setup_output E p t) = boot_same s t"
  "boot_same s (pin_setup_analog_input E p t) = boot_same s t"
  by (simp_all add: boot_same_def pin_mode_defs pin_setup_analog_input_def gpio_set_input_enabled'_def)

lemma boot_same_adc: "boot_same s (snd (adc_read_pin E p t)) = boot_same s t"
  by (simp add: adc_read_pin_def adc_init_once_def boot_same_steps)

lemma boot_same_pico: "boot_same s (pico_w_init E t) = boot_same s t"
proof -
  obtain v u where u: "adc_read_pin E 29 (pin_setup_analog_input E 29 t) = (v, u)" by fastforce
  obtain w x where x: "adc_read_pin E 29 (pin_setup_output E 25 (pin_set E 25 0 u)) = (w, x)" by fastforce
  have "boot_same s u = boot_same s t" "boot_same s x = boot_same s t"
    using boot_same_adc [of s E 29 "pin_setup_analog_input E 29 t"]
      boot_same_adc [of s E 29 "pin_setup_output E 25 (pin_set E 25 0 u)"] by (simp_all add: u x boot_same_steps)
  then show ?thesis by (simp add: pico_w_init_def u x boot_same_steps)
qed

lemma boot_same_random: "boot_same s (snd (hw_random E t)) = boot_same s t"
  using hw_random_run [of E t] by (auto simp: boot_same_steps)

lemma boot_same_tim: "boot_same s (tim_init E t) = boot_same s t"
  by (simp add: tim_init_def nvic_defs boot_same_steps)

text \<open>None of them claims a DMA channel.\<close>

lemma later_adc: "later s (snd (adc_read_pin E p s))"
  by (simp add: adc_read_pin_def adc_init_once_def later_def)

lemma later_random: "later s (snd (hw_random E s))"
  using hw_random_run [of E s] by (auto simp: later_def)

lemma later_tim: "later s (tim_init E s)"
  by (simp add: tim_init_def nvic_defs later_def)

lemma later_pico: "later s (pico_w_init E s)"
proof -
  obtain v u where u: "adc_read_pin E 29 (pin_setup_analog_input E 29 s) = (v, u)" by fastforce
  obtain w x where x: "adc_read_pin E 29 (pin_setup_output E 25 (pin_set E 25 0 u)) = (w, x)" by fastforce
  have "later s (pin_setup_analog_input E 29 s)" by (rule later_pins)
  also have "later (pin_setup_analog_input E 29 s) u" using later_adc u by (metis snd_conv)
  finally have su: "later s u" .
  also have "later u (pin_set E 25 0 u)" by (rule later_pins)
  also have "later (pin_set E 25 0 u) (pin_setup_output E 25 (pin_set E 25 0 u))" by (rule later_pins)
  also have "later (pin_setup_output E 25 (pin_set E 25 0 u)) x" using later_adc x by (metis snd_conv)
  also have "later x (x\<lparr>is_pico_w := w < 3264\<rparr>)" by (simp add: later_def)
  also have "later (x\<lparr>is_pico_w := w < 3264\<rparr>) (pin_setup_analog_input E 25 (x\<lparr>is_pico_w := w < 3264\<rparr>))" by (rule later_pins)
  finally show ?thesis using su by (auto simp: pico_w_init_def u x intro: later_calls)
qed

lemma platform_init_front:
  fixes s :: "'a platform_scheme"
  assumes "SIZEOF_BOARD_ID E = 8"
  shows "\<exists>u. boot_same s u \<and> later s u \<and> platform_init E s = bindE (uart_init' E u) (\<lambda>s. Inr (usb_init s)) \<and>
    (\<exists>h. hw_device_id u = word_rcat (rev (map (outbuf E h (Plat Pico_get_unique_board_id)) [0..<8])))"
proof -
  define a where "a = emit (Dcfg_get_i32 ''led.type'' 0) (emit (Dmesg ''start!'' []) s)"
  define b where "b = (if resp E (trace s @ [Dmesg ''start!'' []]) (Dcfg_get_i32 ''led.type'' 0) = 100 then pico_w_init E a else a)"
  obtain r c where c: "hw_random E b = (r, c)" by fastforce
  define d where "d = emit (Plat Pico_get_unique_board_id) (emit (Plat (Jd_seed_random r)) (emit (Dmesg ''rand %x'' [uint r]) c))"
  define e where "e = d\<lparr>device_id := word_rcat (rev (map (outbuf E (trace c @ [Dmesg ''rand %x'' [uint r], Plat (Jd_seed_random r)])
      (Plat Pico_get_unique_board_id)) [0..<8]))\<rparr>"
  define g where "g = (emit Clock_get_hz_sys e)\<lparr>cpu_mhz := ucast ((word_of_int (resp E (trace e) Clock_get_hz_sys) :: u32) div 1000000)\<rparr>"
  have "boot_same s s" by (simp add: boot_same_def)
  then have "boot_same s b" by (simp add: b_def a_def boot_same_steps boot_same_pico)
  then have "boot_same s c" using boot_same_random [of s E b] c by simp
  then have "boot_same s (tim_init E g)"
    by (simp add: g_def e_def d_def boot_same_steps boot_same_tim)
  moreover have "later s (tim_init E g)"
  proof -
    have "later s a" by (simp add: a_def later_def)
    then have "later s b" unfolding b_def by (auto intro: later_trans [OF _ later_pico])
    also have "later b c" using later_random [of b E] c by simp
    also have "later c g" by (simp add: g_def e_def d_def later_def)
    also have "later g (tim_init E g)" by (rule later_tim)
    finally show ?thesis .
  qed
  moreover have "hw_device_id (tim_init E g) = device_id e"
    by (simp add: hw_device_id_def tim_init_def nvic_defs g_def)
  moreover have "platform_init E s = bindE (uart_init' E (tim_init E g)) (\<lambda>s. Inr (usb_init s))"
    using assms c unfolding b_def a_def
    by (cases "resp E (trace s @ [Dmesg ''start!'' []]) (Dcfg_get_i32 ''led.type'' 0) = 100")
      (simp_all add: platform_init_def d_def e_def g_def)
  ultimately show ?thesis by (intro exI [of _ "tim_init E g"]) (auto simp: e_def)
qed

lemma log_of_more:
  fixes s t :: "'a platform_scheme"
  assumes "uart.more t = uart.more s"
  shows "log_dmachTx t = log_dmachTx s" "in_tx t = in_tx s" "device_id t = device_id s"
    "spi_in_use t = spi_in_use s" "spi_done_cb t = spi_done_cb s" "dma_claimed t = dma_claimed s"
  using assms by (cases s; cases t; simp)+

lemma uart_log_init_frame:
  fixes s :: "'a platform_scheme"
  shows "exti_ev (uart_log_init E s) = exti_ev s" "exti_cb (uart_log_init E s) = exti_cb s"
    "smtx (uart_log_init E s) = smtx s" "smrx (uart_log_init E s) = smrx s" "dmaHandler (uart_log_init E s) = dmaHandler s"
    "in_tx (uart_log_init E s) = in_tx s" "spi_in_use (uart_log_init E s) = spi_in_use s"
    "spi_done_cb (uart_log_init E s) = spi_done_cb s" "dma_claimed (uart_log_init E s) = dma_claimed s"
  by (simp_all add: uart_log_init_def)

lemma uart_log_init_channel:
  fixes s :: "'a ulog_scheme"
  assumes "dma_claims E" "claimed E (trace s) = []"
  defines "l \<equiv> uart_log_init E s"
  shows "log_dmachTx l = -2 \<and> claimed E (trace l) = [] \<or>
    0 \<le> log_dmachTx l \<and> log_dmachTx l < 12 \<and> claimed E (trace l) = [log_dmachTx l]"
proof -
  have "0 \<le> resp E tr claim \<and> resp E tr claim < 12" if "claimed E tr = []" for tr
    using assms(1) that by (auto simp: dma_claims_def)
  then show ?thesis
    using assms(2) unfolding l_def by (auto simp: uart_log_init_def claimed_append)
qed

text \<open>The state at reset: nothing registered or claimed, the tables of the declared sizes.\<close>

definition at_reset :: "plat \<Rightarrow> 'a platform_scheme \<Rightarrow> bool" where
  "at_reset E s \<longleftrightarrow> trace s = [] \<and> length (exti_ev s) = NUM_BANK0_GPIOS E \<and> length (exti_cb s) = NUM_BANK0_GPIOS E \<and>
     smtx s = 0 \<and> smrx s = 1 \<and> dmaHandler s = replicate DMA_CHANNELS \<lparr>cb_context = None, cb_handler = None\<rparr> \<and> \<not> in_tx s \<and>
     \<not> spi_in_use s \<and> spi_done_cb s = None \<and> dma_claimed s = 0"

text \<open>
  The state start-up leaves: an idle link, an idle log (enabled or not), SPI not
  yet configured, no handler registered and only the channels of the link and of
  the log claimed.
\<close>

definition booted :: "plat \<Rightarrow> log_abs \<Rightarrow> 'a ulog_scheme \<Rightarrow> bool" where
  "booted E a t \<longleftrightarrow> uart_inv E t \<and> uart_status t = STATUS_IDLE \<and> ulog_rel a t \<and> \<not> busy a \<and>
     dmaHandler t = replicate DMA_CHANNELS \<lparr>cb_context = None, cb_handler = None\<rparr> \<and>
     \<not> spi_in_use t \<and> spi_done_cb t = None \<and> dma_claimed t = 0 \<and>
     claimed E (trace t) = (if enabled a then [log_dmachTx t] else []) @ [dmachRx t, dmachTx t]"

lemma main_start_ready:
  fixes s :: "'a platform_scheme" and pin :: u8
  assumes "at_reset E s" "dma_claims E" "SIZEOF_BOARD_ID E = 8"
    and "\<And>h. word_of_int (resp E h (Dcfg_get_pin ''jacdac.pin'')) = pin" "uint pin \<noteq> NO_PIN E" "unat pin < NUM_BANK0_GPIOS E"
  shows "\<exists>t a. main_start E s = Inr t \<and> booted E a t \<and>
    (\<exists>h. hw_device_id t = word_rcat (rev (map (outbuf E h (Plat Pico_get_unique_board_id)) [0..<8])))"
proof -
  define l where "l = uart_log_init E s"
  obtain u h where u: "boot_same l u" "later l u" "platform_init E l = bindE (uart_init' E u) (\<lambda>s. Inr (usb_init s))"
    "hw_device_id u = word_rcat (rev (map (outbuf E h (Plat Pico_get_unique_board_id)) [0..<8]))"
    using platform_init_front [OF assms(3)] by blast
  have base: "length (exti_ev u) = NUM_BANK0_GPIOS E" "length (exti_cb u) = length (exti_ev u)" "smtx u = 0" "smrx u = 1"
    "dmaHandler u = replicate DMA_CHANNELS \<lparr>cb_context = None, cb_handler = None\<rparr>" "\<not> in_tx u" "log_dmachTx u = log_dmachTx l"
    "\<not> spi_in_use u" "spi_done_cb u = None" "dma_claimed u = 0"
    using u(1) assms(1) by (simp_all add: boot_same_def l_def uart_log_init_frame at_reset_def)
  have log: "log_dmachTx l = -2 \<and> claimed E (trace u) = [] \<or>
      0 \<le> log_dmachTx l \<and> log_dmachTx l < 12 \<and> claimed E (trace u) = [log_dmachTx l]"
    using uart_log_init_channel [OF assms(2), of s] assms(1) claimed_later [OF u(2), of E] by (simp add: at_reset_def l_def)
  then have "length (claimed E (trace u)) \<le> 3" by auto
  then obtain v where v: "uart_init' E u = Inr v" "uart_inv E v" "uart_status v = STATUS_IDLE" "dmaHandler v = dmaHandler u"
    "uart.more v = uart.more u" "claimed E (trace v) = claimed E (trace u) @ [dmachRx v, dmachTx v]"
    using uart_init_idle [of pin E u] assms(2,4,5,6) base by auto
  define t where "t = emit (Plat Jd_init) (usb_init v)"
  have run: "main_start E s = Inr t" by (simp add: main_start_def l_def [symmetric] u(3) v(1) t_def)
  have "quiet (jacdac_pin v) [Usb Tusb_init, Plat Jd_init]" by (simp add: quiet_def)
  from link_obs_quiet [OF this] have "link_obs t = link_obs v" by (simp add: t_def usb_init_def)
  with link_obs_keeps(3) [OF this] link_obs_eqD(2) [OF this] v(2,3) have link: "uart_inv E t" "uart_status t = STATUS_IDLE" by simp_all
  have ch: "log_dmachTx t = log_dmachTx l" "\<not> in_tx t" "dmaHandler t = dmaHandler u" "device_id t = device_id u"
    "\<not> spi_in_use t" "spi_done_cb t = None" "dma_claimed t = 0"
    using log_of_more [OF v(5)] v(4) base(6-10) by (simp_all add: t_def usb_init_def)
  define a where "a = \<lparr>enabled = (log_dmachTx l \<noteq> -2), busy = False, sent = log_sent (log_dmachTx l) (trace t)\<rparr>"
  have "ulog_rel a t"
    using log ch base(5) by (auto simp: ulog_rel_def a_def slot_of_def)
  moreover have "later v t" by (simp add: later_def t_def usb_init_def)
  then have "claimed E (trace t) = (if enabled a then [log_dmachTx t] else []) @ [dmachRx t, dmachTx t]"
    using log v(6) ch(1) claimed_later [of v t E] by (auto simp: a_def t_def usb_init_def)
  ultimately have "booted E a t" using link ch base(5) by (simp add: booted_def a_def)
  with run u(4) ch(4) show ?thesis by (intro exI [of _ t] exI [of _ a]) (auto simp: hw_device_id_def)
qed

end
