(* ===== verification/Dma_Sharing.thy ===== *)
theory Dma_Sharing
  imports Uart_Log
begin

text \<open>
  Three drivers share the DMA handler table: the single-wire link, SPI and the
  log UART. This theory shows what each of them leaves alone: the link keeps the
  contracts of SPI and the log, SPI those of the link and the log, and the log
  those of the link and SPI, as long as every driver has channels of its own. SPI
  and the log together are an instance of \<open>shared_state\<close>.
\<close>

section \<open>What the link does to the rest of the firmware\<close>

text \<open>
  A call of the link: it delivers no completion callback and starts no transfer
  from a buffer on a channel other than the link's own.
\<close>

definition link_call :: "int \<Rightarrow> call \<Rightarrow> bool" where
  "link_call ch c = (case c of
     Call_cb f \<Rightarrow> False
   | Dma d \<Rightarrow> (case d of Dma_channel_transfer_from_buffer_now ch' b n \<Rightarrow> ch' = ch | _ \<Rightarrow> True)
   | _ \<Rightarrow> True)"

lemma link_call_delivered: "list_all (link_call ch) cs \<Longrightarrow> delivered cs = []"
  by (induction cs) (auto simp: link_call_def split: call.splits)

lemma link_call_log_sent: "list_all (link_call ch) cs \<Longrightarrow> ch' \<noteq> ch \<Longrightarrow> log_sent ch' cs = []"
  by (induction cs) (auto simp: link_call_def log_sent_def split: call.splits dma_call.splits)

definition link_only :: "'a uart_scheme \<Rightarrow> 'a uart_scheme \<Rightarrow> bool" where
  "link_only s t \<longleftrightarrow> uart.more t = uart.more s \<and> dmachTx t = dmachTx s \<and> dmachRx t = dmachRx s \<and>
     length (dmaHandler t) = length (dmaHandler s) \<and>
     (\<forall>ch<length (dmaHandler s). int ch \<noteq> dmachTx s \<longrightarrow> int ch \<noteq> dmachRx s \<longrightarrow> dmaHandler t ! ch = dmaHandler s ! ch) \<and>
     (\<exists>cs. trace t = trace s @ cs \<and> list_all (link_call (dmachTx s)) cs)"

lemma link_only_refl [simp, intro]: "link_only s s"
  by (simp add: link_only_def)

lemma link_only_trans [trans]: "link_only s t \<Longrightarrow> link_only t u \<Longrightarrow> link_only s u"
  by (auto simp: link_only_def)

lemma link_only_calls: "list_all (link_call (dmachTx s)) cs \<Longrightarrow> link_only s (s\<lparr>trace := trace s @ cs\<rparr>)"
  by (simp add: link_only_def)

lemma link_only_pins [intro]:
  "link_only s (pin_set E pin v s)" "link_only s (pin_setup_output E pin s)"
  "link_only s (pin_setup_input E pin pull s)" "link_only s (pin_setup_output_af E pin af s)"
  "link_only s (target_disable_irq s)" "link_only s (target_enable_irq s)"
  by (simp_all add: link_only_def pin_mode_defs irq_defs link_call_def)

lemma link_only_wait: "target_wait_us E n s = Some t \<Longrightarrow> link_only s t"
proof -
  assume "target_wait_us E n s = Some t"
  then obtain k where "t = s\<lparr>trace := trace s @ replicate (Suc k) (Rd TIMER_TIMERAWL)\<rparr>"
    by (auto simp: target_wait_us_def dest!: wait_loop_trace)
  then show ?thesis by (auto simp: link_only_def link_call_def list_all_iff)
qed

lemma link_only_stall: "stall_loop E s = Some t \<Longrightarrow> link_only s t"
  by (auto dest!: stall_loop_trace simp: link_only_def link_call_def list_all_iff)

lemma link_only_tx_arm: "jd_tx_arm_pin E p sm pin s = Inr t \<Longrightarrow> link_only s t"
  by (auto simp: jd_tx_arm_pin_def pio_sm_set_pins_with_mask'_def pio_sm_set_pindirs_with_mask'_def mask_loop_run
      pin_mode_defs link_only_def link_call_def list_all_iff set_calls_def)

lemma link_only_rx_arm: "jd_rx_arm_pin E p sm pin s = Inr t \<Longrightarrow> link_only s t"
  by (auto simp: jd_rx_arm_pin_def set_one_pindir exti_disable_def pin_mode_defs link_only_def link_call_def
      split: if_splits)

text \<open>The link's own slots.\<close>

definition chans_ok :: "'a uart_scheme \<Rightarrow> bool" where
  "chans_ok s \<longleftrightarrow> 0 \<le> dmachTx s \<and> dmachTx s < 12 \<and> 0 \<le> dmachRx s \<and> dmachRx s < 12 \<and> length (dmaHandler s) = DMA_CHANNELS"

lemma chans_ok_link_only: "link_only s t \<Longrightarrow> chans_ok s \<Longrightarrow> chans_ok t"
  by (simp add: chans_ok_def link_only_def)

lemma link_only_register:
  assumes "chans_ok s" "c = dmachTx s \<or> c = dmachRx s" "dma_set_ch_cb E (word_of_int c) f x s = Inr t"
  shows "link_only s t"
proof -
  have "0 \<le> c" "c < 12" "length (dmaHandler s) = DMA_CHANNELS" using assms by (auto simp: chans_ok_def)
  then show ?thesis
    using assms by (auto simp: dma_set_ch_cb_run link_only_def link_call_def nth_list_update split: if_splits)
qed

lemma link_only_disable: "uart_disable E s = Inr t \<Longrightarrow> link_only s t"
  by (auto simp: uart_disable_def exti_enable_def irq_defs pin_mode_defs link_only_def link_call_def split: if_splits)

lemma link_only_start_rx:
  assumes "chans_ok s" "uart_start_rx E data len s = Inr t"
  shows "link_only s t"
proof -
  let ?s = "s\<lparr>uart_status := STATUS_RX\<rparr>"
  obtain u v where u: "jd_rx_arm_pin E pio0 (unat (smrx s)) (ucast (jacdac_pin s)) ?s = Inr u"
    and v: "dma_set_ch_cb E (word_of_int (dmachRx u)) Uart_rx_handler None
      (wr (PIO_IRQ pio0) PIO_BREAK_IRQ (emit (Pio (Pio_sm_set_enabled pio0 (unat (smrx u)) True)) u)) = Inr v"
    and t: "t = emit (Pio (Pio_set_irq0_source_interrupt1 pio0 True)) (emit (Dma (Dma_channel_transfer_to_buffer_now (dmachRx v) data len)) v)"
    using assms(2) by (auto simp: uart_start_rx_def bindE_eq_Inr)
  let ?u = "wr (PIO_IRQ pio0) PIO_BREAK_IRQ (emit (Pio (Pio_sm_set_enabled pio0 (unat (smrx u)) True)) u)"
  have "link_only s ?s" by (simp add: link_only_def)
  also note link_only_rx_arm [OF u]
  also have "link_only u ?u" by (simp add: link_only_def link_call_def)
  finally have su: "link_only s ?u" .
  also have "link_only ?u v"
    using v by (intro link_only_register [OF chans_ok_link_only [OF su assms(1)], of "dmachRx ?u"]) simp_all
  also have "link_only v t" by (simp add: t link_only_def link_call_def)
  finally show ?thesis .
qed

text \<open>What the runtime may do in the callbacks of the link: nothing that concerns the other drivers.\<close>

definition runtime_private :: "'a uart_scheme jdrt \<Rightarrow> bool" where
  "runtime_private R \<longleftrightarrow>
     (\<forall>x s s'. jd_rx_completed R x s = Inr s' \<longrightarrow> link_only s s') \<and>
     (\<forall>x s s'. jd_tx_completed R x s = Inr s' \<longrightarrow> link_only s s')"

lemma link_only_line_falling:
  assumes "runtime_ok E R" "chans_ok s" "jd_line_falling R s = Inr t"
  shows "link_only s t"
  using assms link_only_start_rx [OF assms(2)] link_only_disable unfolding runtime_ok_def by metis

lemma link_only_rx_done:
  assumes "runtime_private R" "rx_done E R s = Inr t"
  shows "link_only s t"
proof (cases "uart_status s AND STATUS_RX \<noteq> 0")
  case True
  let ?s = "s\<lparr>uart_status := uart_status s AND NOT STATUS_RX\<rparr>"
  obtain u where u: "uart_disable E ?s = Inr u" "jd_rx_completed R 0 u = Inr t"
    using assms(2) True by (auto simp: rx_done_def bindE_eq_Inr)
  have "link_only s ?s" by (simp add: link_only_def)
  also note link_only_disable [OF u(1)]
  also have "link_only u t" using assms(1) u(2) by (auto simp: runtime_private_def)
  finally show ?thesis .
qed (use assms(2) in \<open>simp add: rx_done_def\<close>)

lemma link_only_isr_pio:
  assumes "runtime_private R" "isr_pio0_0 E R s = Inr t"
  shows "link_only s t"
proof -
  let ?n = "word_of_int (resp E (trace s) (Rd (PIO_IRQ pio0))) :: u32"
  let ?s = "wr (PIO_IRQ pio0) ?n (emit (Rd (PIO_IRQ pio0)) s)"
  have "link_only s ?s" by (simp add: link_only_def link_call_def)
  also have "link_only ?s t"
    using assms link_only_rx_done [OF assms(1), of E ?s t] by (auto simp: isr_pio0_0_def split: if_splits)
  finally show ?thesis .
qed

lemma link_only_tx_handler:
  assumes "runtime_private R" "tx_handler E R c s = Inr t"
  shows "link_only s t"
proof -
  let ?s1 = "wr (PIO_FDEBUG pio0) (tx_stall_bit E s) s"
  from assms(2) obtain s2 where s2: "stall_loop E ?s1 = Some s2"
    by (cases "stall_loop E ?s1") (auto simp: tx_handler_def)
  let ?p = "uint (jacdac_pin s2)"
  let ?s3 = "pin_setup_output_af E ?p GPIO_FUNC_SIO (pin_setup_output E ?p (pin_set E ?p 1 s2))"
  from assms(2) s2 obtain s4 where s4: "target_wait_us E 1 ?s3 = Some s4"
    by (cases "target_wait_us E 1 ?s3") (auto simp: tx_handler_def)
  from assms(2) s2 s4 obtain s6 where s6: "target_wait_us E 12 (pin_set E ?p 0 s4) = Some s6"
    by (cases "target_wait_us E 12 (pin_set E ?p 0 s4)") (auto simp: tx_handler_def)
  from assms(2) s2 s4 s6 obtain u where u: "uart_disable E (pin_set E ?p 1 s6) = Inr u" "jd_tx_completed R 0 u = Inr t"
    by (auto simp: tx_handler_def bindE_eq_Inr)
  have "link_only s ?s1" by (simp add: link_only_def link_call_def)
  also note link_only_stall [OF s2]
  also have "link_only s2 ?s3"
    by (rule link_only_trans [OF link_only_trans [OF link_only_pins(1,2)] link_only_pins(4)])
  also note link_only_wait [OF s4]
  also have "link_only s4 (pin_set E ?p 0 s4)" by (rule link_only_pins)
  also note link_only_wait [OF s6]
  also have "link_only s6 (pin_set E ?p 1 s6)" by (rule link_only_pins)
  also note link_only_disable [OF u(1)]
  also have "link_only u t" using assms(1) u(2) by (auto simp: runtime_private_def)
  finally show ?thesis .
qed

lemma link_only_probed:
  assumes "exti_disable pin s = Inr s1"
    and "gpio_probe_and_set E m (pin_set E p 0 (s1\<lparr>uart_status := STATUS_TX\<rparr>)) = (q, s3)"
  shows "link_only s s3"
proof -
  have "link_only s s1" using assms(1) by (auto simp: exti_disable_def link_only_def link_call_def split: if_splits)
  also have "link_only s1 (s1\<lparr>uart_status := STATUS_TX\<rparr>)" by (simp add: link_only_def)
  also have "link_only (s1\<lparr>uart_status := STATUS_TX\<rparr>) (pin_set E p 0 (s1\<lparr>uart_status := STATUS_TX\<rparr>))" by (rule link_only_pins)
  also have "link_only (pin_set E p 0 (s1\<lparr>uart_status := STATUS_TX\<rparr>)) s3"
    using assms(2) by (auto simp: gpio_probe_and_set_def link_only_def link_call_def)
  finally show ?thesis .
qed

lemma link_only_start_tx:
  assumes "runtime_ok E R" "runtime_private R" "chans_ok s" "uart_start_tx E R data len s = Inr (r, t)"
  shows "link_only s t"
proof (cases "uint (jacdac_pin s) = NO_PIN E")
  case True
  then show ?thesis using assms(2,4) by (auto simp: uart_start_tx_def runtime_private_def bindE_eq_Inr)
next
  case False
  from assms(4) False show ?thesis
  proof (cases rule: uart_start_tx_cases)
    case receiving
    then show ?thesis by (auto simp: exti_disable_def link_only_def link_call_def split: if_splits)
  next
    case (taken s1 s3 u)
    have l4: "link_only s (target_disable_irq s3)"
      using link_only_probed [OF taken(1,3)] link_only_pins(5) link_only_trans by blast
    also have "link_only (target_disable_irq s3) u"
      by (rule link_only_line_falling [OF assms(1) chans_ok_link_only [OF l4 assms(3)] taken(4)])
    also have "link_only u t" unfolding taken(5) by (rule link_only_pins)
    finally show ?thesis .
  next
    case (sent s1 q s3 s4 s6 s7 u)
    let ?s8 = "emit (Pio (Pio_sm_set_enabled pio0 (unat (smtx s7)) True)) s7"
    note link_only_probed [OF sent(1,3)]
    also note link_only_wait [OF sent(4)]
    also have "link_only s4 (pin_set E (uint (jacdac_pin s)) 1 s4)" by (rule link_only_pins)
    also note link_only_wait [OF sent(5)]
    also note link_only_tx_arm [OF sent(6)]
    also have "link_only s7 ?s8" by (simp add: link_only_def link_call_def)
    finally have l8: "link_only s ?s8" .
    also have "link_only ?s8 u"
      using sent(7) by (intro link_only_register [OF chans_ok_link_only [OF l8 assms(3)], of "dmachTx ?s8"]) simp_all
    also have "link_only u t" unfolding sent(8) by (simp add: link_only_def link_call_def)
    finally show ?thesis .
  qed
qed

section \<open>The drivers on one table\<close>

text \<open>
  Every driver has channels of its own, and only they have handlers registered.
  \<open>share\<close> is the joint state: the invariant of the link and the contracts of SPI
  and the log hold together.
\<close>

definition dma_shared :: "'a ulog_scheme \<Rightarrow> bool" where
  "dma_shared s \<longleftrightarrow>
     uint (dma_tx s) \<notin> {dmachTx s, dmachRx s} \<and> uint (dma_rx s) \<notin> {dmachTx s, dmachRx s} \<and>
     log_dmachTx s \<notin> {dmachTx s, dmachRx s, uint (dma_tx s), uint (dma_rx s)} \<and>
     (\<forall>ch<DMA_CHANNELS. cb_handler (dmaHandler s ! ch) \<noteq> None \<longrightarrow>
        int ch \<in> {dmachTx s, dmachRx s, uint (dma_tx s), uint (dma_rx s), log_dmachTx s})"

definition share :: "plat \<Rightarrow> spi_phase \<times> nat list \<Rightarrow> log_abs \<Rightarrow> 'a ulog_scheme \<Rightarrow> bool" where
  "share E a b s \<longleftrightarrow> uart_inv E s \<and> spi_rel a s \<and> ulog_rel b s \<and> dma_shared s"

lemma share_chans: "share E a b s \<Longrightarrow> chans_ok s"
  by (simp add: share_def uart_inv_def uart_cfg_def chans_ok_def)

lemma share_length: "share E a b s \<Longrightarrow> length (dmaHandler s) = DMA_CHANNELS"
  by (simp add: share_def ulog_rel_def)

lemma upper_fields:
  fixes s t :: "'a ulog_scheme"
  assumes "uart.more t = uart.more s"
  shows "dma_tx t = dma_tx s" "dma_rx t = dma_rx s" "spi_in_use t = spi_in_use s" "spi_done_cb t = spi_done_cb s"
    "spi t = spi s" "log_dmachTx t = log_dmachTx s" "in_tx t = in_tx s"
  using assms by (cases s; cases t; simp)+

lemma spi_chans_range: "spi_rel a s \<Longrightarrow> unat (dma_tx s) < DMA_CHANNELS \<and> unat (dma_rx s) < DMA_CHANNELS"
  by (simp add: spi_rel_def unat_less_12)

lemma link_only_spi:
  assumes "link_only s t" "spi_rel a s" "dma_shared s"
  shows "spi_rel a t"
proof -
  obtain cs where cs: "trace t = trace s @ cs" "list_all (link_call (dmachTx s)) cs"
    and more: "uart.more t = uart.more s" and len: "length (dmaHandler t) = length (dmaHandler s)"
    and same: "\<And>ch. ch < length (dmaHandler s) \<Longrightarrow> int ch \<noteq> dmachTx s \<Longrightarrow> int ch \<noteq> dmachRx s \<Longrightarrow> dmaHandler t ! ch = dmaHandler s ! ch"
    using assms(1) by (auto simp: link_only_def)
  note f = upper_fields [OF more]
  have l: "length (dmaHandler s) = DMA_CHANNELS" using assms(2) by (simp add: spi_rel_def dma_inv_def)
  have "dmaHandler t ! unat (dma_tx s) = dmaHandler s ! unat (dma_tx s)"
    "dmaHandler t ! unat (dma_rx s) = dmaHandler s ! unat (dma_rx s)"
    using same [of "unat (dma_tx s)"] same [of "unat (dma_rx s)"] spi_chans_range [OF assms(2)] assms(3) l
    by (auto simp: dma_shared_def)
  then have "dma_armed (dma_tx s) t = dma_armed (dma_tx s) s" "dma_armed (dma_rx s) t = dma_armed (dma_rx s) s"
    by (simp_all add: dma_armed_def)
  moreover from this have "dma_armed (spi_ch b s) t = dma_armed (spi_ch b s) s" for b by (simp add: spi_ch_def)
  moreover have "spi_ch b t = spi_ch b s" for b by (simp add: spi_ch_def f)
  ultimately show ?thesis
    using assms(2) link_call_delivered [OF cs(2)] l len
    by (cases "fst a") (simp_all add: spi_rel_def f cs(1) dma_inv_def)
qed

lemma link_only_ulog:
  assumes "link_only s t" "ulog_rel b s" "dma_shared s"
  shows "ulog_rel b t"
proof -
  obtain cs where cs: "trace t = trace s @ cs" "list_all (link_call (dmachTx s)) cs"
    and more: "uart.more t = uart.more s" and len: "length (dmaHandler t) = length (dmaHandler s)"
    and same: "\<And>ch. ch < length (dmaHandler s) \<Longrightarrow> int ch \<noteq> dmachTx s \<Longrightarrow> int ch \<noteq> dmachRx s \<Longrightarrow> dmaHandler t ! ch = dmaHandler s ! ch"
    using assms(1) by (auto simp: link_only_def)
  note f = upper_fields [OF more]
  show ?thesis
  proof (cases "enabled b")
    case True
    then have c: "0 \<le> log_dmachTx s" "log_dmachTx s < 12" "length (dmaHandler s) = DMA_CHANNELS"
      using assms(2) by (simp_all add: ulog_rel_def)
    then have "slot_of (log_dmachTx s) t = slot_of (log_dmachTx s) s"
      using same [of "nat (log_dmachTx s)"] assms(3) by (simp add: slot_of_def dma_shared_def)
    moreover have "log_sent (log_dmachTx s) cs = []"
      using assms(3) by (intro link_call_log_sent [OF cs(2)]) (simp add: dma_shared_def)
    ultimately show ?thesis
      using assms(2) True len by (simp add: ulog_rel_def f cs(1))
  next
    case False
    then show ?thesis using assms(2) len by (simp add: ulog_rel_def f)
  qed
qed

lemma link_only_shared:
  fixes s t :: "'a ulog_scheme"
  assumes "link_only s t" "dma_shared s" "length (dmaHandler s) = DMA_CHANNELS"
  shows "dma_shared t"
proof -
  have "uart.more t = uart.more s" using assms(1) by (simp add: link_only_def)
  note f = upper_fields [OF this]
  have "int ch \<in> {dmachTx s, dmachRx s, uint (dma_tx s), uint (dma_rx s), log_dmachTx s}"
    if "ch < DMA_CHANNELS" "cb_handler (dmaHandler t ! ch) \<noteq> None" for ch
  proof (cases "int ch = dmachTx s \<or> int ch = dmachRx s")
    case False
    then have "dmaHandler t ! ch = dmaHandler s ! ch"
      using assms(1,3) that(1) unfolding link_only_def by metis
    then show ?thesis using assms(2) that unfolding dma_shared_def by metis
  qed auto
  then show ?thesis using assms(1,2) unfolding dma_shared_def f by (simp add: link_only_def)
qed

lemma link_step_share:
  assumes "share E a b s" "link_only s t" "uart_inv E t"
  shows "share E a b t"
  using assms link_only_spi link_only_ulog link_only_shared share_length unfolding share_def by blast

section \<open>SPI leaves the others alone\<close>

text \<open>A step that touches the table only on the channels \<open>cs\<close> and registers no handler but \<open>h\<close>.\<close>

definition table_only :: "int set \<Rightarrow> dma_cb \<Rightarrow> 'a uart_scheme \<Rightarrow> 'a uart_scheme \<Rightarrow> bool" where
  "table_only cs h s t \<longleftrightarrow> length (dmaHandler t) = length (dmaHandler s) \<and>
     link_obs (t\<lparr>dmaHandler := dmaHandler s\<rparr>) = link_obs s \<and>
     (\<forall>ch<length (dmaHandler s). dmaHandler t ! ch = dmaHandler s ! ch \<or>
        (int ch \<in> cs \<and> cb_handler (dmaHandler t ! ch) \<in> {None, Some h}))"

lemma table_only_chans: "table_only cs h s t \<Longrightarrow> dmachTx t = dmachTx s \<and> dmachRx t = dmachRx s"
proof -
  assume "table_only cs h s t"
  then have "link_obs (t\<lparr>dmaHandler := dmaHandler s\<rparr>) = link_obs s" by (simp add: table_only_def)
  from link_obs_eqD(6,7) [OF this] show ?thesis by simp
qed

lemma table_only_inv:
  assumes "uart_inv E s" "table_only cs h s t" "dmachTx s \<notin> cs" "dmachRx s \<notin> cs"
    and "h \<noteq> Uart_tx_handler" "h \<noteq> Uart_rx_handler"
  shows "uart_inv E t"
proof -
  have "foreign s t"
    using assms unfolding foreign_def table_only_def by (intro conjI allI impI) auto
  then show ?thesis by (rule foreign_inv [OF assms(1)])
qed

lemma table_only_nth:
  assumes "table_only cs h s t" "length (dmaHandler s) = DMA_CHANNELS" "ch < DMA_CHANNELS" "int ch \<notin> cs"
  shows "dmaHandler t ! ch = dmaHandler s ! ch"
  using assms unfolding table_only_def by metis

lemma table_only_shared:
  fixes s t :: "'a ulog_scheme"
  assumes "table_only cs h s t" "dma_shared s" "length (dmaHandler s) = DMA_CHANNELS"
    and "dma_tx t = dma_tx s" "dma_rx t = dma_rx s" "log_dmachTx t = log_dmachTx s"
    and "dmachTx t = dmachTx s" "dmachRx t = dmachRx s" "cs \<subseteq> {uint (dma_tx s), uint (dma_rx s), log_dmachTx s}"
  shows "dma_shared t"
proof -
  have "int ch \<in> {dmachTx s, dmachRx s, uint (dma_tx s), uint (dma_rx s), log_dmachTx s}"
    if "ch < DMA_CHANNELS" "cb_handler (dmaHandler t ! ch) \<noteq> None" for ch
    using that table_only_nth [OF assms(1,3)] assms(2,9) unfolding dma_shared_def by (cases "int ch \<in> cs") auto
  then show ?thesis using assms(2) unfolding dma_shared_def assms(4-8) by blast
qed

definition spi_only :: "'a ulog_scheme \<Rightarrow> 'a ulog_scheme \<Rightarrow> bool" where
  "spi_only s t \<longleftrightarrow> spi_state.more t = spi_state.more s \<and> dma_tx t = dma_tx s \<and> dma_rx t = dma_rx s \<and>
     (\<exists>cs. trace t = trace s @ cs \<and> (\<forall>c. log_sent c cs = [])) \<and>
     table_only {uint (dma_tx s), uint (dma_rx s)} Spi_dma_cb s t"

lemma spi_only_keeps:
  assumes "uart_inv E s" "dma_shared s" "ulog_rel b s" "spi_only s t"
  shows "uart_inv E t \<and> dma_shared t \<and> ulog_rel b t"
proof -
  obtain cs where cs: "trace t = trace s @ cs" "\<And>c. log_sent c cs = []"
    using assms(4) by (auto simp: spi_only_def)
  have more: "spi_state.more t = spi_state.more s" and ch: "dma_tx t = dma_tx s" "dma_rx t = dma_rx s"
    and tbl: "table_only {uint (dma_tx s), uint (dma_rx s)} Spi_dma_cb s t"
    using assms(4) by (simp_all add: spi_only_def)
  have f: "log_dmachTx t = log_dmachTx s" "in_tx t = in_tx s" using more by (cases s; cases t; simp)+
  have l: "length (dmaHandler s) = DMA_CHANNELS" "length (dmaHandler t) = DMA_CHANNELS"
    using assms(3) tbl by (simp_all add: ulog_rel_def table_only_def)
  have "dmachTx s \<notin> {uint (dma_tx s), uint (dma_rx s)}" "dmachRx s \<notin> {uint (dma_tx s), uint (dma_rx s)}"
    using assms(2) by (auto simp: dma_shared_def)
  from table_only_inv [OF assms(1) tbl this] have lk: "uart_inv E t" "dmachTx t = dmachTx s" "dmachRx t = dmachRx s"
    using table_only_chans [OF tbl] by simp_all
  have "slot_of (log_dmachTx s) t = slot_of (log_dmachTx s) s" if "enabled b"
    using table_only_nth [OF tbl l(1), of "nat (log_dmachTx s)"] assms(2,3) that
    by (auto simp: slot_of_def dma_shared_def ulog_rel_def)
  then have "ulog_rel b t" using assms(3) cs l by (simp add: ulog_rel_def f)
  with lk table_only_shared [OF tbl assms(2) l(1) ch f(1) lk(2,3)] show ?thesis by blast
qed

lemma setup_log_sent: "list_all setup_call cs \<Longrightarrow> log_sent c cs = []"
  by (induction cs) (auto simp: setup_call_def log_sent_def split: call.splits dma_call.splits)

lemma setup_quiet: "list_all setup_call cs \<Longrightarrow> fold (link_step pin) cs l = l"
  by (induction cs) (auto simp: setup_call_def split: call.splits)

lemma spi_only_xfer:
  assumes "spi_rel a s" "jd_spi_xfer E tx rx n (Some f) s = Inr (r, t)"
  shows "spi_only s t"
proof (cases "jd_spi_is_ready s \<and> 0 < n \<and> n \<le> 4096 \<and> (tx \<noteq> None \<or> rx \<noteq> None)")
  case False
  then have "t = s"
    using assms(2) by (auto simp: jd_spi_xfer_def BLOCK_SIZE_def word_gt_0 not_less split: if_splits)
  then show ?thesis by (auto simp: spi_only_def table_only_def log_sent_def)
next
  case True
  let ?c = "spi_ch (rx \<noteq> None) s"
  obtain cs m where cs: "list_all setup_call cs" and run: "jd_spi_xfer E tx rx n (Some f) s =
      bindE (dma_set_ch_cb E ?c Spi_dma_cb (Some f) (s\<lparr>trace := trace s @ cs, spi_in_use := True\<rparr>))
        (\<lambda>u. Inr (0, emit (Dma (Dma_start_channel_mask m)) u))"
    using jd_spi_xfer_ready True by blast
  have c: "0 \<le> uint ?c" "uint ?c < 12" "length (dmaHandler s) = DMA_CHANNELS"
    using spi_rel_cfg [OF assms(1), of "rx \<noteq> None"] by (auto simp: dma_inv_def word_less_def)
  let ?s = "s\<lparr>trace := trace s @ cs, spi_in_use := True\<rparr>"
  have "dma_set_ch_cb E (word_of_int (uint ?c)) Spi_dma_cb (Some f) ?s = dma_set_ch_cb E ?c Spi_dma_cb (Some f) ?s" by simp
  then obtain ds where ds: "t = s\<lparr>spi_in_use := True, dmaHandler := (dmaHandler s)[unat ?c := \<lparr>cb_context = Some f, cb_handler = Some Spi_dma_cb\<rparr>],
      trace := trace s @ cs @ ds\<rparr>" "list_all (\<lambda>d. \<not> (\<exists>ch b n. d = Dma (Dma_channel_transfer_from_buffer_now ch b n))) ds"
      "\<And>l. fold (link_step (jacdac_pin s)) ds l = l"
    using assms(2) run dma_set_ch_cb_run [OF c(1,2), of ?s E Spi_dma_cb "Some f"] c(3)
    by (auto split: if_splits)
  have "log_sent e ds = []" for e
    using ds(2) by (induction ds) (auto simp: log_sent_def split: call.splits dma_call.splits)
  then show ?thesis
    using ds setup_log_sent [OF cs] setup_quiet [OF cs] c(3)
    by (auto simp: spi_only_def table_only_def link_obs_def nth_list_update_cases spi_ch_def split: if_splits)
qed

lemma spi_only_complete:
  assumes "spi_rel a s" "spi_do E other (Complete c) s = Inr t"
  shows "spi_only s t"
proof (cases "dma_armed (spi_ch c s) s")
  case None
  then have "cb_handler (dmaHandler s ! unat (spi_ch c s)) = None" by (simp add: dma_armed_def)
  then have "t = s" using assms(2) by (simp add: isr_dma_channel_def split: if_splits)
  then show ?thesis by (auto simp: spi_only_def table_only_def log_sent_def)
next
  case (Some h)
  obtain ph d where sp: "a = (ph, d)" by (cases a)
  obtain f where "h = (Spi_dma_cb, Some f)" "spi_done_cb s = None"
    using assms(1) Some unfolding sp by (cases ph; cases c) (auto simp: spi_rel_def spi_ch_def split: if_splits)
  then have h: "cb_handler (dmaHandler s ! unat (spi_ch c s)) = Some Spi_dma_cb" "spi_done_cb s = None"
    using Some by (auto simp: dma_armed_def)
  have len: "unat (spi_ch c s) < length (dmaHandler s)" "unat (spi_ch c s) < 32"
    using spi_rel_cfg [OF assms(1), of c] by (auto simp: dma_inv_def unat_less_12)
  have "t = (dma_take (unat (spi_ch c s)) s)\<lparr>spi_done_cb := cb_context (dmaHandler (dma_take (unat (spi_ch c s)) s) ! unat (spi_ch c s))\<rparr>"
    using assms(2) h len by (auto simp: isr_dma_channel_def and_bit32_eq_0_iff bit_simps spi_dma_run_def spi_dma_cb_def
        dma_take_def split: if_splits)
  then show ?thesis
    using len by (cases c) (auto simp: spi_only_def table_only_def dma_take_def log_sent_def link_obs_def spi_ch_def nth_list_update)
qed

lemma spi_only_process: "spi_do E other Process s = Inr t \<Longrightarrow> spi_only s t"
  by (auto simp: jd_spi_process_def spi_only_def table_only_def link_obs_def log_sent_def split: option.splits)

lemma spi_do_only:
  assumes "spi_rel a s" "spi_do E other e s = Inr t"
  shows "spi_only s t"
proof (cases e)
  case (Xfer tx rx n f)
  then show ?thesis using assms(2) spi_only_xfer [OF assms(1)] by (auto simp: bindE_eq_Inr)
next
  case (Complete c)
  then show ?thesis using assms(2) spi_only_complete [OF assms(1)] by blast
next
  case Process
  then show ?thesis using assms(2) spi_only_process by blast
qed

section \<open>The log leaves the others alone\<close>

definition log_only :: "'a ulog_scheme \<Rightarrow> 'a ulog_scheme \<Rightarrow> bool" where
  "log_only s t \<longleftrightarrow> dma_tx t = dma_tx s \<and> dma_rx t = dma_rx s \<and> spi_in_use t = spi_in_use s \<and>
     spi_done_cb t = spi_done_cb s \<and> spi t = spi s \<and> log_dmachTx t = log_dmachTx s \<and>
     (\<exists>cs. trace t = trace s @ cs \<and> delivered cs = []) \<and> table_only {log_dmachTx s} Log_tx_handler s t"

lemma log_only_keeps:
  assumes "uart_inv E s" "dma_shared s" "spi_rel a s" "log_only s t"
  shows "uart_inv E t \<and> dma_shared t \<and> spi_rel a t"
proof -
  obtain cs where cs: "trace t = trace s @ cs" "delivered cs = []"
    using assms(4) by (auto simp: log_only_def)
  have f: "dma_tx t = dma_tx s" "dma_rx t = dma_rx s" "spi_in_use t = spi_in_use s" "spi_done_cb t = spi_done_cb s"
      "spi t = spi s" "log_dmachTx t = log_dmachTx s" and tbl: "table_only {log_dmachTx s} Log_tx_handler s t"
    using assms(4) by (simp_all add: log_only_def)
  have l: "length (dmaHandler s) = DMA_CHANNELS" "length (dmaHandler t) = DMA_CHANNELS"
    using assms(3) tbl by (simp_all add: spi_rel_def dma_inv_def table_only_def)
  have "dmachTx s \<notin> {log_dmachTx s}" "dmachRx s \<notin> {log_dmachTx s}"
    using assms(2) by (auto simp: dma_shared_def)
  from table_only_inv [OF assms(1) tbl this] have lk: "uart_inv E t" "dmachTx t = dmachTx s" "dmachRx t = dmachRx s"
    using table_only_chans [OF tbl] by simp_all
  have "dmaHandler t ! unat (dma_tx s) = dmaHandler s ! unat (dma_tx s)"
    "dmaHandler t ! unat (dma_rx s) = dmaHandler s ! unat (dma_rx s)"
    using table_only_nth [OF tbl l(1)] spi_chans_range [OF assms(3)] assms(2) by (auto simp: dma_shared_def)
  then have "dma_armed (spi_ch c s) t = dma_armed (spi_ch c s) s"
    "dma_armed (dma_tx s) t = dma_armed (dma_tx s) s" "dma_armed (dma_rx s) t = dma_armed (dma_rx s) s" for c
    by (simp_all add: dma_armed_def spi_ch_def)
  moreover have "spi_ch c t = spi_ch c s" for c by (simp add: spi_ch_def f)
  ultimately have "spi_rel a t"
    using assms(3) cs l by (cases "fst a") (simp_all add: spi_rel_def f dma_inv_def)
  with lk table_only_shared [OF tbl assms(2) l(1) f(1,2,6) lk(2,3)] show ?thesis by blast
qed

lemma log_only_complete:
  assumes "ulog_rel b s" "log_do E other Log_complete s = Inr t"
  shows "log_only s t"
proof (cases "enabled b \<and> busy b")
  case True
  then have c: "0 \<le> log_dmachTx s" "nat (log_dmachTx s) < 12" "length (dmaHandler s) = DMA_CHANNELS"
    "cb_handler (dmaHandler s ! nat (log_dmachTx s)) = Some Log_tx_handler"
    using assms(1) by (auto simp: ulog_rel_def slot_of_def)
  then have "t = (dma_take (nat (log_dmachTx s)) s)\<lparr>in_tx := False\<rparr>"
    using assms(2) by (simp add: isr_dma_channel_def and_bit32_eq_0_iff bit_simps log_dma_run_def log_tx_handler_def)
  then show ?thesis
    using c by (auto simp: log_only_def table_only_def dma_take_def link_obs_def nth_list_update_cases)
next
  case False
  then have "t = s"
    using assms by (cases "enabled b") (auto simp: ulog_rel_def isr_dma_channel_def slot_of_def split: if_splits)
  then show ?thesis by (auto simp: log_only_def table_only_def)
qed

lemma log_only_write:
  assumes "ulog_rel b s" "uart_log_write E buf n s = Inr t"
  shows "log_only s t"
proof (cases "enabled b")
  case True
  then have c: "0 \<le> log_dmachTx s" "log_dmachTx s < 12" "length (dmaHandler s) = DMA_CHANNELS"
    using assms(1) by (simp_all add: ulog_rel_def)
  then show ?thesis
    using assms(2)
    by (auto simp: uart_log_write_def dma_set_ch_cb_run log_only_def table_only_def link_obs_def
        bindE_eq_Inr nth_list_update_cases jd_assert_def split: if_splits)
next
  case False
  then have "t = s" using assms by (auto simp: ulog_rel_def uart_log_write_def)
  then show ?thesis by (auto simp: log_only_def table_only_def)
qed

lemma log_do_only: "ulog_rel b s \<Longrightarrow> log_do E other e s = Inr t \<Longrightarrow> log_only s t"
  using log_only_write log_only_complete by (cases e) auto

text \<open>The two contracts hold side by side, with the link undisturbed by either.\<close>

interpretation spi_log: shared_state spi_spec "spi_do E other" "\<lambda>e _. spi_ev_ok e" spi_rel
    log_spec "log_do E other" log_ok ulog_rel "\<lambda>s. uart_inv E s \<and> dma_shared s" for E other
proof
  fix a b e and s t :: "'a ulog_scheme"
  assume "spi_rel a s" "ulog_rel b s" "uart_inv E s \<and> dma_shared s" "spi_do E other e s = Inr t"
  then show "ulog_rel b t \<and> uart_inv E t \<and> dma_shared t"
    using spi_only_keeps [OF _ _ _ spi_do_only] by blast
next
  fix a b e and s t :: "'a ulog_scheme"
  assume "spi_rel a s" "ulog_rel b s" "uart_inv E s \<and> dma_shared s" "log_do E other e s = Inr t"
  then show "spi_rel a t \<and> uart_inv E t \<and> dma_shared t"
    using log_only_keeps [OF _ _ _ log_do_only] by blast
qed

lemma spi_do_share:
  assumes "share E a b s" "spi_ev_ok e"
  shows "\<exists>t. spi_do E other e s = Inr t \<and> share E (spi_spec e a) b t"
  using spi_log.left_step [of a s b E e other] assms unfolding share_def by blast

lemma log_do_share:
  assumes "share E a b s" "log_ok e b"
  shows "\<exists>t. log_do E other e s = Inr t \<and> share E a (log_spec e b) t"
  using spi_log.right_step [of a s b E e other] assms unfolding share_def by blast

end
