(* ===== verification/Drivers.thy ===== *)
theory Drivers
  imports Main_Loop Dma_Sharing
begin

text \<open>
  The drivers together: requests of the runtime, the end of main-loop turns (log
  output or sleep) and interrupts in any order, with one DMA interrupt that serves the channels of all
  drivers. The last section shows that start-up and the configuration of SPI lead
  to the joint state this begins with.
\<close>

section \<open>The drivers together\<close>

text \<open>The DMA interrupt of the whole firmware calls the handler of whichever driver owns the channel.\<close>

definition sys_dma_run :: "plat \<Rightarrow> 'a ulog_scheme jdrt \<Rightarrow> dma_cb \<Rightarrow> nat option \<Rightarrow> 'a ulog_scheme \<Rightarrow> 'a ulog_scheme res" where
  "sys_dma_run E R f c s =
     (case f of Uart_rx_handler \<Rightarrow> rx_handler E R c s
      | Uart_tx_handler \<Rightarrow> tx_handler E R c s
      | Spi_dma_cb \<Rightarrow> spi_dma_cb c s
      | Log_tx_handler \<Rightarrow> log_tx_handler c s)"

datatype sys_ev =
    Spi_request "nat option" "nat option" u32 nat
  | Spi_poll
  | Main_idle
  | Send nat u32
  | Line_falls
  | Pio_irq
  | Dma_irq

fun sys_do :: "plat \<Rightarrow> 'a ulog_scheme jdrt \<Rightarrow> sys_ev \<Rightarrow> 'a ulog_scheme \<Rightarrow> 'a ulog_scheme res" where
  "sys_do E R (Spi_request tx rx n f) s = bindE (jd_spi_xfer E tx rx n (Some f) s) (\<lambda>(r, s). Inr s)"
| "sys_do E R Spi_poll s = jd_spi_process (\<lambda>f s. Inr (emit (Call_cb f) s)) s"
| "sys_do E R Main_idle s = main_idle E s"
| "sys_do E R (Send data len) s = bindE (uart_start_tx E R data len s) (\<lambda>(r, s). Inr s)"
| "sys_do E R Line_falls s = (if exti_on (link_of (jacdac_pin s) (trace s)) then jd_line_falling R s else Inr s)"
| "sys_do E R Pio_irq s = isr_pio0_0 E R s"
| "sys_do E R Dma_irq s = isr_dma_0 E (sys_dma_run E R) s"

text \<open>What a step of the firmware is for SPI and for the log.\<close>

definition chan_spi :: "u32 \<Rightarrow> 'a ulog_scheme \<Rightarrow> nat \<Rightarrow> spi_ev list" where
  "chan_spi m s ch =
     (if \<not> bit m ch then [] else if ch = unat (dma_tx s) then [Complete False]
      else if ch = unat (dma_rx s) then [Complete True] else [])"

definition chan_log :: "u32 \<Rightarrow> 'a ulog_scheme \<Rightarrow> nat \<Rightarrow> log_ev list" where
  "chan_log m s ch = (if bit m ch \<and> int ch = log_dmachTx s then [Log_complete] else [])"

fun spi_evs :: "plat \<Rightarrow> sys_ev \<Rightarrow> 'a ulog_scheme \<Rightarrow> spi_ev list" where
  "spi_evs E (Spi_request tx rx n f) s = [Xfer tx rx n f]"
| "spi_evs E Spi_poll s = [Process]"
| "spi_evs E Dma_irq s = concat (map (chan_spi (word_of_int (resp E (trace s) (Rd DMA_INTS0))) s) [0..<DMA_CHANNELS])"
| "spi_evs E _ s = []"

fun log_evs :: "plat \<Rightarrow> sys_ev \<Rightarrow> 'a ulog_scheme \<Rightarrow> log_ev list" where
  "log_evs E Main_idle s =
     (let len = word_of_int (resp E (trace s) (Plat (Jd_dmesg_read (dmesg_buf E) 128)))
      in if \<not> in_tx s \<and> len \<noteq> 0 then [Log_write (dmesg_buf E) len] else [])"
| "log_evs E Dma_irq s = concat (map (chan_log (word_of_int (resp E (trace s) (Rd DMA_INTS0))) s) [0..<DMA_CHANNELS])"
| "log_evs E _ s = []"

inductive sys_run ::
  "plat \<Rightarrow> 'a ulog_scheme jdrt \<Rightarrow> 'a ulog_scheme \<Rightarrow> spi_ev list \<Rightarrow> log_ev list \<Rightarrow> 'a ulog_scheme \<Rightarrow> bool"
  for E R where
  stop: "sys_run E R s [] [] s"
| step: "sys_do E R ev s = Inr t \<Longrightarrow> sys_run E R t es fs u \<Longrightarrow>
    sys_run E R s (spi_evs E ev s @ es) (log_evs E ev s @ fs) u"

subsection \<open>The shared interrupt\<close>

lemma isr_dma_channel_mask:
  "ch < 32 \<Longrightarrow> isr_dma_channel run m ch s = (if bit m ch then isr_dma_channel run (bit32 ch) ch s else Inr s)"
  by (simp add: isr_dma_channel_def and_bit32_eq_0_iff bit_simps)

lemma sys_dma_run_spi: "spi_dma_run (sys_dma_run E R) = sys_dma_run E R"
  by (intro ext) (simp add: spi_dma_run_def sys_dma_run_def)

lemma sys_dma_run_log: "log_dma_run (sys_dma_run E R) = sys_dma_run E R"
  by (intro ext) (simp add: log_dma_run_def sys_dma_run_def)

definition same_chans :: "'a ulog_scheme \<Rightarrow> 'a ulog_scheme \<Rightarrow> bool" where
  "same_chans s t \<longleftrightarrow> dma_tx t = dma_tx s \<and> dma_rx t = dma_rx s \<and> log_dmachTx t = log_dmachTx s \<and>
     dmachTx t = dmachTx s \<and> dmachRx t = dmachRx s"

lemma spi_only_chans:
  assumes "spi_only s t"
  shows "same_chans s t"
proof -
  have "log_dmachTx t = log_dmachTx s" using assms by (cases s; cases t) (simp add: spi_only_def)
  then show ?thesis using assms table_only_chans by (auto simp: spi_only_def same_chans_def)
qed

lemma log_only_chans: "log_only s t \<Longrightarrow> same_chans s t"
  using table_only_chans by (auto simp: log_only_def same_chans_def)

lemma link_channel_share:
  assumes "share E a b s" "runtime_ok E R" "runtime_private R" "ch < DMA_CHANNELS"
    and "int ch = dmachTx s \<or> int ch = dmachRx s" "isr_dma_channel (sys_dma_run E R) m ch s = Inr t"
  shows "share E a b t \<and> same_chans s t"
proof (cases "cb_handler (dmaHandler s ! ch) = None \<or> \<not> bit m ch")
  case True
  then have "t = s" using assms(4,6) by (auto simp: isr_dma_channel_def and_bit32_eq_0_iff split: if_splits)
  then show ?thesis using assms(1) by (simp add: same_chans_def)
next
  case False
  then obtain f where f: "cb_handler (dmaHandler s ! ch) = Some f" by auto
  have inv: "uart_inv E s" using assms(1) by (simp add: share_def)
  have "f = Uart_tx_handler \<or> f = Uart_rx_handler"
  proof -
    have "slot_of (int ch) s = Some f" using f by (simp add: slot_of_def)
    moreover have "slot_of (dmachTx s) s \<in> {None, Some Uart_tx_handler}" "slot_of (dmachRx s) s \<in> {None, Some Uart_rx_handler}"
      using inv by (simp_all add: uart_inv_def owners_def)
    ultimately show ?thesis using assms(5) by (elim disjE) auto
  qed
  moreover have run: "sys_dma_run E R f (cb_context (dmaHandler (dma_take ch s) ! ch)) (dma_take ch s) = Inr t"
    using assms(4,6) f False by (auto simp: isr_dma_channel_def and_bit32_eq_0_iff split: if_splits)
  ultimately have eq: "isr_dma_channel (uart_dma_run E R (\<lambda>_ _ _. Inl Panic)) m ch s = Inr t"
    and tail: "link_only (dma_take ch s) t"
    using assms(3,4) f False link_only_tx_handler link_only_rx_done
    by (auto simp: isr_dma_channel_def and_bit32_eq_0_iff uart_dma_run_def sys_dma_run_def rx_handler_def)
  have "others_ok (\<lambda>_ _ _. Inl Panic)" by (simp add: others_ok_def)
  then have "uart_inv E t" by (rule isr_dma_channel_inv [OF inv assms(2) _ assms(4) eq])
  moreover have "link_only s (dma_take ch s)"
    using assms(5) by (auto simp: link_only_def dma_take_def link_call_def)
  then have lo: "link_only s t" using tail by (rule link_only_trans)
  moreover have "same_chans s t"
    using upper_fields [of t s] lo by (simp add: same_chans_def link_only_def)
  ultimately show ?thesis using link_step_share [OF assms(1)] by blast
qed

lemma spi_channel_share:
  assumes "share E a b s" "ch = unat (spi_ch c s)" "isr_dma_channel (sys_dma_run E R) (bit32 ch) ch s = Inr t"
  shows "share E (spi_spec (Complete c) a) b t \<and> same_chans s t"
proof -
  have run: "spi_do E (sys_dma_run E R) (Complete c) s = Inr t"
    using assms(2,3) by (simp add: sys_dma_run_spi)
  from spi_do_share [OF assms(1), of "Complete c" "sys_dma_run E R"] run have "share E (spi_spec (Complete c) a) b t" by auto
  moreover have "spi_only s t"
    using assms(1) by (intro spi_do_only [where a = a, OF _ run]) (simp add: share_def)
  ultimately show ?thesis using spi_only_chans by blast
qed

lemma log_channel_share:
  assumes "share E a b s" "int ch = log_dmachTx s" "isr_dma_channel (sys_dma_run E R) (bit32 ch) ch s = Inr t"
  shows "share E a (log_spec Log_complete b) t \<and> same_chans s t"
proof -
  have "nat (log_dmachTx s) = ch" "\<not> log_dmachTx s < 0" using assms(2) by auto
  then have run: "log_do E (sys_dma_run E R) Log_complete s = Inr t"
    using assms(3) by (simp add: sys_dma_run_log)
  from log_do_share [OF assms(1), of Log_complete "sys_dma_run E R"] run have "share E a (log_spec Log_complete b) t" by auto
  moreover have "log_only s t"
    using assms(1) by (intro log_do_only [where b = b, OF _ run]) (simp add: share_def)
  ultimately show ?thesis using log_only_chans by blast
qed

lemma channel_cases:
  assumes "dma_shared s" "ch < DMA_CHANNELS"
  obtains (tx) "ch = unat (spi_ch False s)" | (rx) "ch = unat (spi_ch True s)" | (log) "int ch = log_dmachTx s"
    | (link) "int ch = dmachTx s \<or> int ch = dmachRx s"
    | (none) "cb_handler (dmaHandler s ! ch) = None" "ch \<noteq> unat (dma_tx s)" "ch \<noteq> unat (dma_rx s)" "int ch \<noteq> log_dmachTx s"
proof -
  have "int ch = uint w \<Longrightarrow> ch = unat w" for w :: u8 by (metis nat_int nat_uint_eq)
  then have "cb_handler (dmaHandler s ! ch) = None \<or> int ch = dmachTx s \<or> int ch = dmachRx s \<or>
      ch = unat (dma_tx s) \<or> ch = unat (dma_rx s) \<or> int ch = log_dmachTx s"
    using assms unfolding dma_shared_def by blast
  then show thesis using that by (auto simp: spi_ch_def)
qed

lemma channel_share:
  assumes "share E a b s" "runtime_ok E R" "runtime_private R" "ch < DMA_CHANNELS"
    and "isr_dma_channel (sys_dma_run E R) m ch s = Inr t"
  shows "share E (fold spi_spec (chan_spi m s ch) a) (fold log_spec (chan_log m s ch) b) t \<and> same_chans s t"
proof (cases "bit m ch")
  case False
  then show ?thesis
    using assms by (simp add: isr_dma_channel_mask chan_spi_def chan_log_def same_chans_def)
next
  case True
  then have run: "isr_dma_channel (sys_dma_run E R) (bit32 ch) ch s = Inr t"
    using assms(4,5) isr_dma_channel_mask [of ch "sys_dma_run E R" m s] by simp
  have sh: "dma_shared s" and spi: "spi_rel a s" using assms(1) by (simp_all add: share_def)
  have ne: "unat (dma_rx s) \<noteq> unat (dma_tx s)" using spi unfolding spi_rel_def by (metis unat_u8_eq_iff)
  from sh assms(4) show ?thesis
  proof (cases rule: channel_cases)
    case tx
    then have "chan_spi m s ch = [Complete False]" "chan_log m s ch = []"
      using sh True by (auto simp: chan_spi_def chan_log_def dma_shared_def spi_ch_def)
    then show ?thesis using spi_channel_share [OF assms(1) tx run] by simp
  next
    case rx
    then have "chan_spi m s ch = [Complete True]" "chan_log m s ch = []"
      using sh True ne by (auto simp: chan_spi_def chan_log_def dma_shared_def spi_ch_def)
    then show ?thesis using spi_channel_share [OF assms(1) rx run] by simp
  next
    case log
    then have "chan_spi m s ch = []" "chan_log m s ch = [Log_complete]"
      using sh True by (auto simp: chan_spi_def chan_log_def dma_shared_def)
    then show ?thesis using log_channel_share [OF assms(1) log run] by simp
  next
    case link
    then have "chan_spi m s ch = []" "chan_log m s ch = []"
      using sh by (auto simp: chan_spi_def chan_log_def dma_shared_def)
    then show ?thesis using link_channel_share [OF assms(1-4) link assms(5)] by simp
  next
    case none
    then have "t = s" using assms(5) by (simp add: isr_dma_channel_def split: if_splits)
    then show ?thesis using none assms(1) by (simp add: chan_spi_def chan_log_def same_chans_def)
  qed
qed

text \<open>A completion on a channel of SPI or the log never fails.\<close>

lemma channel_runs:
  assumes "share E a b s" "ch < DMA_CHANNELS" "bit m ch \<Longrightarrow> int ch \<noteq> dmachTx s \<and> int ch \<noteq> dmachRx s"
  shows "\<exists>t. isr_dma_channel (sys_dma_run E R) m ch s = Inr t"
proof (cases "bit m ch")
  case True
  then have mask: "isr_dma_channel (sys_dma_run E R) m ch s = isr_dma_channel (sys_dma_run E R) (bit32 ch) ch s"
    using assms(2) by (simp add: isr_dma_channel_mask [of ch _ m])
  have "dma_shared s" using assms(1) by (simp add: share_def)
  then show ?thesis
    using assms(2)
  proof (cases rule: channel_cases)
    case tx
    then show ?thesis
      using spi_do_share [OF assms(1), of "Complete False" "sys_dma_run E R"] mask by (auto simp: sys_dma_run_spi)
  next
    case rx
    then show ?thesis
      using spi_do_share [OF assms(1), of "Complete True" "sys_dma_run E R"] mask by (auto simp: sys_dma_run_spi)
  next
    case log
    then have "nat (log_dmachTx s) = ch" "\<not> log_dmachTx s < 0" by auto
    then show ?thesis
      using log_do_share [OF assms(1), of Log_complete "sys_dma_run E R"] mask by (auto simp: sys_dma_run_log)
  next
    case link
    then show ?thesis using assms(3) True by blast
  next
    case none
    then show ?thesis by (simp add: isr_dma_channel_def)
  qed
next
  case False
  then show ?thesis using assms(2) by (simp add: isr_dma_channel_def and_bit32_eq_0_iff)
qed

lemma loop_runs:
  assumes "share E a b s" "runtime_ok E R" "runtime_private R" "set chs \<subseteq> {..<DMA_CHANNELS}"
    and "\<And>ch. bit m ch \<Longrightarrow> int ch \<noteq> dmachTx s \<and> int ch \<noteq> dmachRx s"
  shows "\<exists>t. isr_dma_loop (sys_dma_run E R) m chs s = Inr t"
  using assms(1,4,5)
proof (induction chs arbitrary: a b s)
  case (Cons ch chs)
  then have ch: "ch < DMA_CHANNELS" by simp
  from channel_runs [OF Cons.prems(1) ch Cons.prems(3)] obtain u where u: "isr_dma_channel (sys_dma_run E R) m ch s = Inr u" by blast
  from channel_share [OF Cons.prems(1) assms(2,3) ch u]
  have sh: "share E (fold spi_spec (chan_spi m s ch) a) (fold log_spec (chan_log m s ch) b) u" and "same_chans s u" by blast+
  then have "\<And>ch. bit m ch \<Longrightarrow> int ch \<noteq> dmachTx u \<and> int ch \<noteq> dmachRx u"
    using Cons.prems(3) by (simp add: same_chans_def)
  with Cons.IH [OF sh] Cons.prems(2) u show ?case by simp
qed simp

lemma loop_share:
  assumes "share E a b s" "runtime_ok E R" "runtime_private R" "set chs \<subseteq> {..<DMA_CHANNELS}"
    and "isr_dma_loop (sys_dma_run E R) m chs s = Inr t"
  shows "share E (fold spi_spec (concat (map (chan_spi m s) chs)) a) (fold log_spec (concat (map (chan_log m s) chs)) b) t"
  using assms(1,4,5)
proof (induction chs arbitrary: a b s)
  case (Cons ch chs)
  then obtain u where u: "isr_dma_channel (sys_dma_run E R) m ch s = Inr u" "isr_dma_loop (sys_dma_run E R) m chs u = Inr t"
    by (auto simp: bindE_eq_Inr)
  have ch: "ch < DMA_CHANNELS" using Cons.prems(2) by simp
  from channel_share [OF Cons.prems(1) assms(2,3) ch u(1)]
  have sh: "share E (fold spi_spec (chan_spi m s ch) a) (fold log_spec (chan_log m s ch) b) u" and "same_chans s u" by blast+
  then have eq: "chan_spi m u = chan_spi m s" "chan_log m u = chan_log m s"
    by (intro ext; simp add: chan_spi_def chan_log_def same_chans_def)+
  from Cons.IH [OF sh _ u(2)] Cons.prems(2) show ?case by (simp add: eq)
qed simp

lemma isr_dma_entry:
  fixes m :: u32
  assumes "share E a b s" "m = word_of_int (resp E (trace s) (Rd DMA_INTS0))"
  obtains u where "isr_dma_0 E (sys_dma_run E R) s = isr_dma_loop (sys_dma_run E R) m [0..<DMA_CHANNELS] u"
    "share E a b u" "same_chans s u"
proof
  let ?s = "wr DMA_INTS0 m (emit (Rd DMA_INTS0) s)"
  have "link_only s ?s" by (simp add: link_only_def link_call_def)
  moreover have "link_obs ?s = link_obs s" by (simp add: link_obs_def)
  then have "uart_inv E ?s" using link_obs_keeps(3) assms(1) unfolding share_def by blast
  ultimately show "share E a b ?s" using link_step_share [OF assms(1)] by blast
  show "isr_dma_0 E (sys_dma_run E R) s = isr_dma_loop (sys_dma_run E R) m [0..<DMA_CHANNELS] ?s"
    by (simp only: isr_dma_0_def Let_def rd_def prod.case assms(2))
  show "same_chans s ?s" by (simp add: same_chans_def)
qed

lemma channels_subset: "set [0..<DMA_CHANNELS] \<subseteq> {..<DMA_CHANNELS}"
  by auto

lemma isr_dma_share:
  assumes "share E a b s" "runtime_ok E R" "runtime_private R" "isr_dma_0 E (sys_dma_run E R) s = Inr t"
  shows "share E (fold spi_spec (spi_evs E Dma_irq s) a) (fold log_spec (log_evs E Dma_irq s) b) t"
proof -
  define m :: u32 where "m = word_of_int (resp E (trace s) (Rd DMA_INTS0))"
  obtain u where u: "isr_dma_0 E (sys_dma_run E R) s = isr_dma_loop (sys_dma_run E R) m [0..<DMA_CHANNELS] u"
    "share E a b u" "same_chans s u" using isr_dma_entry [OF assms(1) m_def] by blast
  have "chan_spi m u = chan_spi m s" "chan_log m u = chan_log m s"
    using u(3) by (intro ext; simp add: chan_spi_def chan_log_def same_chans_def)+
  moreover have "isr_dma_loop (sys_dma_run E R) m [0..<DMA_CHANNELS] u = Inr t" using assms(4) u(1) by simp
  note loop_share [OF u(2) assms(2,3) channels_subset this]
  ultimately show ?thesis by (simp only: spi_evs.simps log_evs.simps m_def [symmetric])
qed

lemma isr_dma_runs:
  fixes m :: u32
  assumes "share E a b s" "runtime_ok E R" "runtime_private R" "m = word_of_int (resp E (trace s) (Rd DMA_INTS0))"
    and "\<And>ch. bit m ch \<Longrightarrow> int ch \<noteq> dmachTx s \<and> int ch \<noteq> dmachRx s"
  shows "\<exists>t. isr_dma_0 E (sys_dma_run E R) s = Inr t"
proof -
  obtain u where u: "isr_dma_0 E (sys_dma_run E R) s = isr_dma_loop (sys_dma_run E R) m [0..<DMA_CHANNELS] u"
    "share E a b u" "same_chans s u" using isr_dma_entry [OF assms(1,4)] by blast
  then show ?thesis
    using loop_runs [OF u(2) assms(2,3) channels_subset, of m] assms(5) by (simp add: same_chans_def)
qed

lemma quiet_share:
  assumes "share E a b s" "c = Plat d"
  shows "share E a b (emit c s)"
proof -
  have "link_only s (emit c s)" by (simp add: link_only_def link_call_def assms(2))
  moreover have "link_obs (emit c s) = link_obs s" by (simp add: link_obs_def assms(2))
  then have "uart_inv E (emit c s)" using link_obs_keeps(3) assms(1) unfolding share_def by blast
  ultimately show ?thesis using link_step_share [OF assms(1)] by blast
qed

lemma idle_share:
  assumes "share E a b s"
  shows "\<exists>t. main_idle E s = Inr t \<and> share E a (fold log_spec (log_evs E Main_idle s) b) t"
proof -
  let ?rd = "Plat (Jd_dmesg_read (dmesg_buf E) 128)"
  define len :: u32 where "len = word_of_int (resp E (trace s) ?rd)"
  have tx: "in_tx s = busy b" using assms by (simp add: share_def ulog_rel_def)
  have sh: "share E a b (emit ?rd s)" by (rule quiet_share [OF assms refl])
  show ?thesis
  proof (cases "\<not> busy b \<and> len \<noteq> 0")
    case True
    with log_do_share [OF sh, of "Log_write (dmesg_buf E) len" "\<lambda>_ _ _. Inl Panic"] tx show ?thesis
      by (auto simp: main_idle_def dmesg_to_stdout_def uart_log_can_write_def len_def)
  next
    case False
    then show ?thesis
      using tx assms quiet_share [OF sh refl, of Jd_rx_has_frame] quiet_share [OF quiet_share [OF sh refl, of Jd_rx_has_frame] refl, of Wfe]
      by (auto simp: main_idle_def dmesg_to_stdout_def uart_log_can_write_def len_def)
  qed
qed

lemma log_evs_ok: "share E a b s \<Longrightarrow> oks log_ok log_spec (log_evs E ev s) b"
proof -
  have "list_all (\<lambda>e. e = Log_complete) fs \<Longrightarrow> oks log_ok log_spec fs b'" for fs b'
    by (induction fs arbitrary: b') auto
  moreover have "list_all (\<lambda>e. e = Log_complete) (concat (map (chan_log m s) chs))" for m chs
    by (induction chs) (simp_all add: chan_log_def)
  ultimately show "share E a b s \<Longrightarrow> oks log_ok log_spec (log_evs E ev s) b"
    by (cases ev) (simp_all add: share_def ulog_rel_def)
qed

lemma sys_step_share:
  assumes "share E a b s" "runtime_ok E R" "runtime_private R" "list_all spi_ev_ok (spi_evs E ev s)" "sys_do E R ev s = Inr t"
  shows "share E (fold spi_spec (spi_evs E ev s) a) (fold log_spec (log_evs E ev s) b) t"
proof -
  have link: "share E a b u" if "link_only s u" "link_trans E R (\<lambda>_ _ _. Inl Panic) s u" for u
    using that assms(1,2) link_step_share [OF assms(1)] link_trans_inv by (metis others_ok_def share_def sum.distinct(1))
  show ?thesis
  proof (cases ev)
    case (Spi_request tx rx n f)
    then show ?thesis using spi_do_share [OF assms(1), of "Xfer tx rx n f"] assms(4,5) by auto
  next
    case Spi_poll
    then show ?thesis using spi_do_share [OF assms(1), of Process] assms(5) by auto
  next
    case Main_idle
    then show ?thesis using idle_share [OF assms(1)] assms(5) by auto
  next
    case (Send data len)
    then obtain r where "uart_start_tx E R data len s = Inr (r, t)" using assms(5) by (auto simp: bindE_eq_Inr)
    then have "share E a b t"
      using link link_only_start_tx [OF assms(2,3) share_chans [OF assms(1)]] link_trans.send by blast
    then show ?thesis by (simp add: Send)
  next
    case Line_falls
    show ?thesis
    proof (cases "exti_on (link_of (jacdac_pin s) (trace s))")
      case True
      then have "jd_line_falling R s = Inr t" using Line_falls assms(5) by simp
      then have "share E a b t"
        using True link link_only_line_falling [OF assms(2) share_chans [OF assms(1)]] link_trans.edge by blast
      then show ?thesis by (simp add: Line_falls)
    next
      case False
      then show ?thesis using Line_falls assms(1,5) by simp
    qed
  next
    case Pio_irq
    then have "isr_pio0_0 E R s = Inr t" using assms(5) by simp
    then have "share E a b t" using link link_only_isr_pio [OF assms(3)] link_trans.pio_irq by blast
    then show ?thesis by (simp add: Pio_irq)
  next
    case Dma_irq
    then show ?thesis using isr_dma_share [OF assms(1-3)] assms(5) by simp
  qed
qed

lemma sys_run_share:
  assumes "sys_run E R s es fs t" "share E a b s" "runtime_ok E R" "runtime_private R" "list_all spi_ev_ok es"
  shows "share E (fold spi_spec es a) (fold log_spec fs b) t \<and> oks log_ok log_spec fs b"
  using assms
proof (induction arbitrary: a b rule: sys_run.induct)
  case (step ev s t es fs u)
  then have "share E (fold spi_spec (spi_evs E ev s) a) (fold log_spec (log_evs E ev s) b) t"
    using sys_step_share by (metis list_all_append)
  from step.IH [OF this] step.prems log_evs_ok [OF step.prems(1), of ev] show ?case
    by (simp add: oks_append)
qed simp

text \<open>
  C3. Three drivers share the DMA handler table and one interrupt, and none
  disturbs another: for every interleaving of SPI requests and polls, ends of
  main-loop turns (\<open>main_idle\<close>: log output or sleep), frames sent and received on
  the link and interrupts (in which several channels of different drivers may
  complete at once), the link stays consistent, every accepted SPI transfer is
  completed and delivered once and in order, every block of log text is sent once
  and in order and never while another one is being sent, and the next SPI
  request, SPI poll or end of a turn runs without a failed assertion.
\<close>

theorem drivers_share_dma:
  assumes "sys_run E R s es fs t" "share E a b s" "runtime_ok E R" "runtime_private R" "list_all spi_ev_ok es"
  shows "uart_inv E t \<and> spi_rel (fold spi_spec es a) t \<and> ulog_rel (fold log_spec fs b) t \<and> oks log_ok log_spec fs b \<and>
    (\<exists>u. sys_do E R (Spi_request (Some p) q n f) t = Inr u) \<and> (\<exists>u. sys_do E R (Spi_request q (Some p) n f) t = Inr u) \<and>
    (\<exists>u. sys_do E R Spi_poll t = Inr u) \<and> (\<exists>u. sys_do E R Main_idle t = Inr u) \<and>
    ((\<forall>ch. bit (word_of_int (resp E (trace t) (Rd DMA_INTS0)) :: u32) ch \<longrightarrow> int ch \<noteq> dmachTx t \<and> int ch \<noteq> dmachRx t) \<longrightarrow>
      (\<exists>u. sys_do E R Dma_irq t = Inr u))"
proof -
  from sys_run_share [OF assms] have sh: "share E (fold spi_spec es a) (fold log_spec fs b) t"
    and ok: "oks log_ok log_spec fs b" by blast+
  have spi: "\<exists>u. spi_do E (\<lambda>_ _ _. Inl Panic) e t = Inr u" if "spi_ev_ok e" for e
    using spi_do_share [OF sh that] by blast
  have "(\<exists>u. sys_do E R (Spi_request (Some p) q n f) t = Inr u) \<and> (\<exists>u. sys_do E R (Spi_request q (Some p) n f) t = Inr u) \<and>
    (\<exists>u. sys_do E R Spi_poll t = Inr u) \<and> (\<exists>u. sys_do E R Main_idle t = Inr u)"
    using spi [of "Xfer (Some p) q n f"] spi [of "Xfer q (Some p) n f"] spi [of Process] idle_share [OF sh] by auto
  moreover have "(\<forall>ch. bit (word_of_int (resp E (trace t) (Rd DMA_INTS0)) :: u32) ch \<longrightarrow> int ch \<noteq> dmachTx t \<and> int ch \<noteq> dmachRx t) \<longrightarrow>
      (\<exists>u. sys_do E R Dma_irq t = Inr u)"
    using isr_dma_runs [OF sh assms(3,4) refl] by auto
  ultimately show ?thesis using sh ok unfolding share_def by blast
qed

definition drivers_plat :: plat where
  "drivers_plat = answering (\<lambda>_ c. if c = Rd DMA_INTS0 then 0x28 else if c = Plat (Jd_dmesg_read 0x20005000 128) then 4 else 0)"

definition drivers_demo :: ulog where
  "drivers_demo = ulog_demo\<lparr>trace := [Gpio (Gpio_set_irq_enabled 9 4 True)], dmachTx := 1, dmachRx := 0, jacdac_pin := 9\<rparr>"

definition drivers_runtime :: "ulog jdrt" where
  "drivers_runtime = \<lparr>jd_line_falling = uart_start_rx drivers_plat 0 16, jd_rx_completed = (\<lambda>_. Inr), jd_tx_completed = (\<lambda>_. Inr)\<rparr>"

lemma drivers_demo_share: "share drivers_plat (Ready, []) \<lparr>enabled = True, busy = False, sent = []\<rparr> drivers_demo"
proof -
  have free: "\<And>n. n < 12 \<Longrightarrow> cb_handler (dmaHandler drivers_demo ! n) = None"
    using slot_free by (simp add: drivers_demo_def ulog_demo_def spi_state.defs spi_demo_def)
  have f: "trace drivers_demo = [Gpio (Gpio_set_irq_enabled 9 4 True)]" "dmachTx drivers_demo = 1" "dmachRx drivers_demo = 0"
    "jacdac_pin drivers_demo = 9" "smtx drivers_demo = 0" "smrx drivers_demo = 1" "length (exti_ev drivers_demo) = 30"
    "length (dmaHandler drivers_demo) = 12" "uart_status drivers_demo = STATUS_IDLE" "dma_tx drivers_demo = 2" "dma_rx drivers_demo = 3"
    "log_dmachTx drivers_demo = 5" "\<not> in_tx drivers_demo" "\<not> spi_in_use drivers_demo" "spi_done_cb drivers_demo = None" "spi drivers_demo = Some spi0"
    by (simp_all add: drivers_demo_def ulog_demo_def spi_state.defs spi_demo_def status_defs)
  have "uart_inv drivers_plat drivers_demo"
    using free by (simp add: uart_inv_def uart_cfg_def owners_def f slot_of_def drivers_plat_def link_of_def)
      (simp add: status_defs)
  moreover have "spi_rel (Ready, []) drivers_demo"
    using free [of 2] free [of 3] by (simp add: spi_rel_def f dma_inv_def dma_armed_def)
  moreover have "ulog_rel \<lparr>enabled = True, busy = False, sent = []\<rparr> drivers_demo"
    using free [of 5] by (simp add: ulog_rel_def f slot_of_def log_sent_def)
  moreover have "dma_shared drivers_demo"
    using free by (simp add: dma_shared_def f)
  ultimately show ?thesis by (simp add: share_def)
qed

lemma drivers_demo_chans: "dma_tx drivers_demo = 2" "dma_rx drivers_demo = 3" "log_dmachTx drivers_demo = 5"
  "dmachTx drivers_demo = 1" "dmachRx drivers_demo = 0"
  by (simp_all add: drivers_demo_def ulog_demo_def spi_state.defs spi_demo_def)

lemma drivers_runtime_ok: "runtime_ok drivers_plat drivers_runtime" "runtime_private drivers_runtime"
  by (auto simp: runtime_ok_def runtime_private_def drivers_runtime_def)

lemma drivers_demo_run:
  "\<exists>t. sys_run drivers_plat drivers_runtime drivers_demo [Xfer (Some 0) (Some 64) 16 7, Complete True, Process]
     [Log_complete, Log_write 0x20005000 4] t"
proof -
  let ?E = drivers_plat and ?R = drivers_runtime and ?b = "\<lparr>enabled = True, busy = False, sent = []\<rparr>"
  obtain t1 where t1: "sys_do ?E ?R (Spi_request (Some 0) (Some 64) 16 7) drivers_demo = Inr t1" "share ?E (Busy True 7, []) ?b t1"
    using spi_do_share [OF drivers_demo_share, of "Xfer (Some 0) (Some 64) 16 7"] by auto
  have "spi_only drivers_demo t1"
    using t1(1) drivers_demo_share by (intro spi_do_only [of "(Ready, [])" _ ?E "\<lambda>_ _ _. Inl Panic" "Xfer (Some 0) (Some 64) 16 7"]) (auto simp: share_def)
  then have "same_chans drivers_demo t1" by (rule spi_only_chans)
  then have ch: "dma_tx t1 = 2" "dma_rx t1 = 3" "log_dmachTx t1 = 5" "dmachTx t1 = 1" "dmachRx t1 = 0"
    using drivers_demo_chans by (simp_all add: same_chans_def)
  have m: "resp ?E h (Rd DMA_INTS0) = 0x28" for h by (simp add: drivers_plat_def)
  have upt: "[0..<DMA_CHANNELS] = [0, 1, 2, 3, 4, 5, 6, 7, 8, 9, 10, 11]" by (simp add: upt_rec)
  have "(0x28 :: u32) = push_bit 3 1 OR push_bit 5 1" by simp
  then have bits: "bit (0x28 :: u32) n \<longleftrightarrow> n = 3 \<or> n = 5" for n
    by (simp only: bit_or_iff bit_push_bit_iff) (auto simp: bit_1_iff)
  have "int n \<noteq> dmachTx t1 \<and> int n \<noteq> dmachRx t1" if "bit (0x28 :: u32) n" for n
    using that unfolding bits ch by auto
  then obtain t2 where t2: "sys_do ?E ?R Dma_irq t1 = Inr t2"
    using isr_dma_runs [OF t1(2) drivers_runtime_ok, of "0x28"] m by auto
  have ev: "spi_evs ?E Dma_irq t1 = [Complete True]" "log_evs ?E Dma_irq t1 = [Log_complete]"
    unfolding spi_evs.simps log_evs.simps m upt by (simp_all add: chan_spi_def chan_log_def bits ch)
  have s2: "share ?E (Done 7, []) ?b t2"
    using isr_dma_share [OF t1(2) drivers_runtime_ok] t2 ev by simp
  obtain t3 where t3: "sys_do ?E ?R Spi_poll t2 = Inr t3" "share ?E (Ready, [7]) ?b t3"
    using spi_do_share [OF s2, of Process] by auto
  obtain t4 where t4: "sys_do ?E ?R Main_idle t3 = Inr t4" using idle_share [OF t3(2)] by auto
  have "log_evs ?E Main_idle t3 = [Log_write 0x20005000 4]"
    using t3(2) by (simp add: share_def ulog_rel_def drivers_plat_def)
  with sys_run.step [OF t4 sys_run.stop] have "sys_run ?E ?R t3 [] [Log_write 0x20005000 4] t4" by simp
  from sys_run.step [OF t3(1) this] have "sys_run ?E ?R t2 [Process] [Log_write 0x20005000 4] t4" by simp
  from sys_run.step [OF t2 this] ev have "sys_run ?E ?R t1 [Complete True, Process] [Log_complete, Log_write 0x20005000 4] t4" by simp
  from sys_run.step [OF t1(1) this] show ?thesis by auto
qed

theorem drivers_share_dma_witness:
  "\<exists>t. uart_inv drivers_plat t \<and> spi_rel (Ready, [7]) t \<and>
     ulog_rel \<lparr>enabled = True, busy = True, sent = [(0x20005000, 4)]\<rparr> (t :: ulog)"
proof -
  obtain t where "sys_run drivers_plat drivers_runtime drivers_demo [Xfer (Some 0) (Some 64) 16 7, Complete True, Process]
     [Log_complete, Log_write 0x20005000 4] t" using drivers_demo_run by blast
  from drivers_share_dma [OF this drivers_demo_share drivers_runtime_ok, of 0 None 0 0] show ?thesis by auto
qed

section \<open>From reset to the drivers together\<close>

text \<open>
  Start-up establishes the joint state: the channels the link, the log and SPI
  claim are different ones, because the library returns unused channels.
\<close>

lemma spi_setup_log: "list_all spi_setup_call cs \<Longrightarrow> log_sent ch cs = []"
  by (induction cs) (auto simp: log_sent_def split: call.splits dma_call.splits)

text \<open>What \<open>jd_spi_init\<close> leaves of the other drivers, and the two channels it claims.\<close>

lemma jd_spi_init_claims:
  fixes t :: "'a ulog_scheme"
  assumes "\<not> spi_in_use t" "dma_claimed t = 0" "first_pin E [cfg_sck cfg, cfg_miso cfg, cfg_mosi cfg] \<noteq> NO_PIN E"
    and "dma_claims E" "length (claimed E (trace t)) \<le> 3"
  shows "\<exists>u. jd_spi_init E cfg t = (0, u) \<and> claimed E (trace u) = claimed E (trace t) @ [uint (dma_tx u), uint (dma_rx u)] \<and>
    link_obs u = link_obs t \<and> log_dmachTx u = log_dmachTx t \<and> in_tx u = in_tx t \<and>
    log_sent (log_dmachTx t) (trace u) = log_sent (log_dmachTx t) (trace t) \<and>
    spi_in_use u = spi_in_use t \<and> spi_done_cb u = spi_done_cb t \<and> spi u \<noteq> None"
proof -
  let ?i = "spi_inst_of E cfg"
  obtain cs where cs: "list_all spi_setup_call cs"
    "jd_spi_init E cfg t = (0, jd_spi_init_dma E ?i (t\<lparr>spi := Some ?i, trace := trace t @ cs\<rparr>))"
    using jd_spi_init_run [OF assms(1,3)] by blast
  define w where "w = t\<lparr>spi := Some ?i, trace := trace t @ cs\<rparr>"
  define v where "v = spi_claim E w"
  obtain ds where ds: "list_all spi_setup_call ds" "jd_spi_init_dma E ?i w = v\<lparr>trace := trace v @ ds\<rparr>"
    using jd_spi_init_dma_claim unfolding v_def by blast
  note quiet = spi_setup_calls [OF cs(1)] spi_setup_calls [OF ds(1)]
  have cw: "claimed E (trace w) = claimed E (trace t)" using quiet(1) by (simp add: w_def claimed_none)
  then have "claimed E (trace v @ ds) = claimed E (trace t) @ [uint (dma_tx v), uint (dma_rx v)]"
    using spi_claim_channels [OF assms(4), of w] quiet(2) assms(2,5) by (simp add: v_def w_def claimed_none)
  moreover have "link_obs (v\<lparr>trace := trace v @ ds\<rparr>) = link_obs t"
    using quiet assms(2) by (simp add: v_def w_def spi_claim_def link_obs_def quiet_def)
  moreover have "log_sent (log_dmachTx t) (trace v @ ds) = log_sent (log_dmachTx t) (trace t)"
    using spi_setup_log [OF cs(1)] spi_setup_log [OF ds(1)] by (simp add: v_def w_def spi_claim_def log_sent_def)
  ultimately show ?thesis
    using cs(2) ds(2) by (intro exI [of _ "v\<lparr>trace := trace v @ ds\<rparr>"]) (simp add: w_def [symmetric]; simp add: v_def w_def spi_claim_def)
qed

lemma jd_spi_init_share:
  fixes t :: "'a ulog_scheme"
  assumes "booted E b t" "dma_claims E" "first_pin E [cfg_sck cfg, cfg_miso cfg, cfg_mosi cfg] \<noteq> NO_PIN E"
  shows "\<exists>u. jd_spi_init E cfg t = (0, u) \<and> share E (Ready, delivered (trace u)) b u"
proof -
  have init: "uart_inv E t" "ulog_rel b t" "dmaHandler t = replicate DMA_CHANNELS \<lparr>cb_context = None, cb_handler = None\<rparr>"
    "\<not> spi_in_use t" "spi_done_cb t = None" "dma_claimed t = 0" "\<not> busy b"
    and cl: "claimed E (trace t) = (if enabled b then [log_dmachTx t] else []) @ [dmachRx t, dmachTx t]"
    using assms(1) by (auto simp: booted_def)
  have "length (claimed E (trace t)) \<le> 3" unfolding cl by simp
  then obtain u where u: "jd_spi_init E cfg t = (0, u)" "claimed E (trace u) = claimed E (trace t) @ [uint (dma_tx u), uint (dma_rx u)]"
    "link_obs u = link_obs t" "log_dmachTx u = log_dmachTx t" "in_tx u = in_tx t"
    "log_sent (log_dmachTx t) (trace u) = log_sent (log_dmachTx t) (trace t)" "\<not> spi_in_use u" "spi_done_cb u = None" "spi u \<noteq> None"
    using jd_spi_init_claims [OF init(4,6) assms(3,2)] init(4,5) by metis
  have obs: "dmachTx u = dmachTx t" "dmachRx u = dmachRx t" "dmaHandler u = dmaHandler t"
    using u(3) by (simp_all add: link_obs_def)
  have ch: "distinct (claimed E (trace u))" "set (claimed E (trace u)) \<subseteq> {0..<12}"
    using claimed_distinct [OF assms(2), of "trace u"] u(2) cl by auto
  then have "dma_tx u < 12" "dma_rx u < 12" using u(2) by (auto simp: word_less_def)
  moreover have free: "cb_handler (dmaHandler u ! n) = None" if "n < 12" for n using that by (simp add: obs init(3))
  moreover have "dma_tx u \<noteq> dma_rx u" using ch(1) u(2) by auto
  ultimately have "spi_rel (Ready, delivered (trace u)) u"
    using u(7-9) by (simp add: spi_rel_def obs(3) init(3) dma_inv_def dma_armed_def unat_less_12)
  moreover have "slot_of c u = slot_of c t" for c by (simp add: slot_of_def obs)
  then have "ulog_rel b u" using init(2) u(4-6) by (simp add: ulog_rel_def obs(3))
  moreover have "dma_shared u"
  proof (cases "enabled b")
    case True
    then have "claimed E (trace u) = [log_dmachTx t, dmachRx t, dmachTx t, uint (dma_tx u), uint (dma_rx u)]" using cl u(2) by simp
    with ch(1) u(4) free show ?thesis by (auto simp: dma_shared_def obs)
  next
    case False
    then have "claimed E (trace u) = [dmachRx t, dmachTx t, uint (dma_tx u), uint (dma_rx u)]" "log_dmachTx u = -2"
      using cl u(2,4) init(2) by (simp_all add: ulog_rel_def)
    moreover have "uint (dma_tx u) \<noteq> -2" "uint (dma_rx u) \<noteq> -2"
      using uint_ge_0 [of "dma_tx u"] uint_ge_0 [of "dma_rx u"] by linarith+
    ultimately show ?thesis using ch free by (auto simp: dma_shared_def obs)
  qed
  ultimately show ?thesis
    using u(1) link_obs_keeps(3) [OF u(3)] init(1) by (auto simp: share_def)
qed

end
