(* ===== verification/Firmware.thy ===== *)
theory Firmware
  imports Drivers
begin

text \<open>
  The whole firmware in operation: the drivers of \<open>Drivers\<close> and the socket of
  \<open>Lwip_Sock\<close> on one state. A run is any sequence of driver steps (requests of the
  runtime and interrupts) and socket events; the runtime reacts to the latter with
  calls of the socket module, nested to any depth. The turns of the main loop
  are such runs, so the contracts of the drivers hold throughout the endless
  loop of \<open>main\<close>.
\<close>

section \<open>Runs of the firmware\<close>

inductive fw_run ::
  "plat \<Rightarrow> 'a platform_scheme jdrt \<Rightarrow> 'a platform_scheme handler \<Rightarrow> 'a platform_scheme
    \<Rightarrow> spi_ev list \<Rightarrow> log_ev list \<Rightarrow> 'a platform_scheme \<Rightarrow> bool"
  for E R on_event where
  stop: "fw_run E R on_event s [] [] s"
| driver: "sys_do E R ev s = Inr t \<Longrightarrow> fw_run E R on_event t es fs u \<Longrightarrow>
    fw_run E R on_event s (spi_evs E ev s @ es) (log_evs E ev s @ fs) u"
| socket: "sock_ev_ok e \<Longrightarrow> sock_do E on_event e s = Inr t \<Longrightarrow> fw_run E R on_event t es fs u \<Longrightarrow>
    fw_run E R on_event s es fs u"
| own: "fw_run E R on_event (emit (Plat d) s) es fs u \<Longrightarrow> fw_run E R on_event s es fs u"

lemma fw_run_append:
  "fw_run E R on_event s es fs t \<Longrightarrow> fw_run E R on_event t es' fs' u \<Longrightarrow> fw_run E R on_event s (es @ es') (fs @ fs') u"
proof (induction rule: fw_run.induct)
  case (driver ev s t es fs v)
  then show ?case using fw_run.driver [OF driver.hyps(1)] by simp
qed (auto intro: fw_run.socket fw_run.own)

text \<open>The socket's calls do not concern the drivers.\<close>

lemma sock_made_calls:
  "list_all sock_made cs \<Longrightarrow> quiet pin cs \<and> delivered cs = [] \<and> log_sent ch cs = []"
  by (induction cs) (auto simp: sock_made_def quiet_def delivered_def log_sent_def split: call.splits plat_call.splits)

lemma sock_only_share:
  fixes s t :: "'a sock_scheme"
  assumes "sock_only s t" "share E a b s"
  shows "share E a b t"
proof -
  obtain cs st where t: "t = s\<lparr>trace := trace s @ cs, sock_state := st\<rparr>" "list_all sock_made cs"
    using assms(1) by (auto simp: sock_only_def)
  note calls = sock_made_calls [OF t(2)]
  have "link_obs t = link_obs s" using calls by (simp add: t(1) link_obs_def quiet_def)
  then have "uart_inv E t" using assms(2) link_obs_keeps(3) unfolding share_def by blast
  moreover have "spi_ch c t = spi_ch c s" for c by (simp add: t(1) spi_ch_def)
  then have "spi_rel a t \<longleftrightarrow> spi_rel a s"
    using calls by (cases "fst a") (simp_all add: spi_rel_def, simp_all add: t(1) dma_inv_def dma_armed_def)
  moreover have "ulog_rel b t \<longleftrightarrow> ulog_rel b s" using calls by (simp add: t(1) ulog_rel_def slot_of_def)
  moreover have "dma_shared t \<longleftrightarrow> dma_shared s" by (simp add: t(1) dma_shared_def)
  ultimately show ?thesis using assms(2) by (simp add: share_def)
qed

lemma sock_do_share:
  assumes "share E a b s" "sock_ev_ok e" "sock_do E (runtime E react n) e s = Inr t"
  shows "share E a b t"
proof -
  have "\<not> null_answer e" using assms(3) by (auto simp: host_found_def elim!: null_answer.elims)
  with assms(2) have "steps E s (sock_do E (runtime E react n) e s)" by (rule fr.sock_do_steps)
  then have "sock_only s t" using assms(3) by (simp add: steps_def evolves_def)
  then show ?thesis using assms(1) by (rule sock_only_share)
qed

lemma fw_run_share:
  assumes "fw_run E R (runtime E react n) s es fs t" "share E a b s" "runtime_ok E R" "runtime_private R" "list_all spi_ev_ok es"
  shows "share E (fold spi_spec es a) (fold log_spec fs b) t \<and> oks log_ok log_spec fs b"
  using assms
proof (induction arbitrary: a b rule: fw_run.induct)
  case (driver ev s t es fs u)
  then have "share E (fold spi_spec (spi_evs E ev s) a) (fold log_spec (log_evs E ev s) b) t"
    using sys_step_share by (metis list_all_append)
  from driver.IH [OF this] driver.prems log_evs_ok [OF driver.prems(1), of ev] show ?case
    by (simp add: oks_append)
next
  case (socket e s t es fs u)
  then show ?case using sock_do_share by blast
next
  case (own d s es fs u)
  then show ?case using quiet_share [OF own.prems(1) refl] by blast
qed simp

section \<open>Turns of the main loop\<close>

text \<open>
  The runtime's own work in a turn: begun in a state in which the drivers keep their
  contracts, it ends, and what it does to the firmware is a run.
\<close>

definition process_ok ::
  "plat \<Rightarrow> 'a platform_scheme jdrt \<Rightarrow> 'a platform_scheme handler \<Rightarrow> ('a platform_scheme \<Rightarrow> 'a platform_scheme res) \<Rightarrow> bool" where
  "process_ok E R on_event pe \<longleftrightarrow> (\<forall>a b s. share E a b s \<longrightarrow>
     (\<exists>es fs t. pe s = Inr t \<and> fw_run E R on_event s es fs t \<and> list_all spi_ev_ok es))"

definition call_done :: "nat \<Rightarrow> 'a mach_scheme \<Rightarrow> 'a mach_scheme res" where
  "call_done f s = Inr (emit (Call_cb f) s)"

lemma main_turn_run:
  fixes s :: "'a platform_scheme"
  assumes "share E a b s" "runtime_ok E R" "runtime_private R" "process_ok E R (runtime E react n) pe"
  shows "\<exists>es fs t. main_turn E pe (runtime E react n) call_done s = Inr t \<and>
    fw_run E R (runtime E react n) s es fs t \<and> list_all spi_ev_ok es"
proof -
  let ?h = "runtime E react n :: 'a platform_scheme handler"
  obtain es fs u where u: "pe s = Inr u" "fw_run E R ?h s es fs u" "list_all spi_ev_ok es"
    using assms(1,4) unfolding process_ok_def by blast
  define v where "v = emit (Plat (Jd_set_max_sleep 1000)) u"
  have "share E (fold spi_spec es a) (fold log_spec fs b) u" using fw_run_share [OF u(2) assms(1-3) u(3)] by blast
  then have v: "share E (fold spi_spec es a) (fold log_spec fs b) v" unfolding v_def by (rule quiet_share) simp
  have "steps E v (sock_do E ?h Sk_process v)" by (rule fr.sock_do_steps) simp_all
  then obtain w where w: "sock_do E ?h Sk_process v = Inr w" by (auto simp: steps_def)
  have "share E (fold spi_spec es a) (fold log_spec fs b) w" by (intro sock_do_share [OF v _ w]) simp
  from spi_do_share [OF this, of Process] obtain x where
    x: "sys_do E R Spi_poll w = Inr x" "share E (spi_spec Process (fold spi_spec es a)) (fold log_spec fs b) x" by auto
  obtain y where y: "sys_do E R Main_idle x = Inr y" using idle_share [OF x(2)] by auto
  have "fw_run E R ?h x [] (log_evs E Main_idle x) y"
    using fw_run.driver [OF y fw_run.stop] by simp
  from fw_run.driver [OF x(1) this] have "fw_run E R ?h w [Process] (log_evs E Main_idle x) y" by simp
  with w have "fw_run E R ?h v [Process] (log_evs E Main_idle x) y" by (auto intro: fw_run.socket [where e = Sk_process])
  then have "fw_run E R ?h u [Process] (log_evs E Main_idle x) y" unfolding v_def by (rule fw_run.own)
  from fw_run_append [OF u(2) this] have "fw_run E R ?h s (es @ [Process]) (fs @ log_evs E Main_idle x) y" .
  moreover have "main_turn E pe ?h call_done s = Inr y"
    using u(1) w x(1) y by (simp add: main_turn_def v_def call_done_def [abs_def])
  ultimately show ?thesis using u(3) by fastforce
qed

text \<open>Any number of turns.\<close>

lemma main_turns_run:
  fixes s :: "'a platform_scheme"
  assumes "share E a b s" "runtime_ok E R" "runtime_private R" "list_all (process_ok E R (runtime E react n)) pes"
  shows "\<exists>es fs t. run_res (\<lambda>pe. main_turn E pe (runtime E react n) call_done) pes s = Inr t \<and>
    fw_run E R (runtime E react n) s es fs t \<and> list_all spi_ev_ok es"
  using assms(1,4)
proof (induction pes arbitrary: a b s)
  case Nil
  show ?case using fw_run.stop by fastforce
next
  case (Cons pe pes)
  obtain es fs t where t: "main_turn E pe (runtime E react n) call_done s = Inr t"
    "fw_run E R (runtime E react n) s es fs t" "list_all spi_ev_ok es"
    using main_turn_run [OF Cons.prems(1) assms(2,3), of react n pe] Cons.prems(2) by force
  have "share E (fold spi_spec es a) (fold log_spec fs b) t" using fw_run_share [OF t(2) Cons.prems(1) assms(2,3) t(3)] by blast
  from Cons.IH [OF this] Cons.prems(2) obtain es' fs' u where
    "run_res (\<lambda>pe. main_turn E pe (runtime E react n) call_done) pes t = Inr u"
    "fw_run E R (runtime E react n) t es' fs' u" "list_all spi_ev_ok es'" by auto
  with t fw_run_append [OF t(2)] show ?case by (intro exI [of _ "es @ es'"] exI [of _ "fs @ fs'"] exI [of _ u]) simp
qed

section \<open>Channels\<close>

text \<open>The DMA channels in use: the log's (when it has one), the link's and those of SPI.\<close>

definition channels :: "bool \<Rightarrow> 'a ulog_scheme \<Rightarrow> int list" where
  "channels on s = (if on then [log_dmachTx s] else []) @ [dmachTx s, dmachRx s, uint (dma_tx s), uint (dma_rx s)]"

lemma log_spec_enabled: "enabled (fold log_spec fs b) = enabled b"
proof -
  have "enabled (log_spec e b) = enabled b" for e b by (cases e) simp_all
  then show ?thesis by (induction fs arbitrary: b) simp_all
qed

lemma share_channels:
  assumes "share E a b s"
  shows "distinct (channels (enabled b) s) \<and> set (channels (enabled b) s) \<subseteq> {0..<12}"
proof -
  have spi: "dma_tx s < 12" "dma_rx s < 12" "dma_tx s \<noteq> dma_rx s" using assms by (simp_all add: share_def spi_rel_def)
  then have "uint (dma_tx s) < 12" "uint (dma_rx s) < 12" by (simp_all add: word_less_def)
  moreover have "uint (dma_tx s) \<noteq> uint (dma_rx s)" using spi(3) unfolding word_uint_eq_iff .
  moreover have "0 \<le> dmachTx s" "dmachTx s < 12" "0 \<le> dmachRx s" "dmachRx s < 12" "dmachTx s \<noteq> dmachRx s"
    using assms by (simp_all add: share_def uart_inv_def uart_cfg_def)
  moreover have "enabled b \<longrightarrow> 0 \<le> log_dmachTx s \<and> log_dmachTx s < 12" using assms by (simp add: share_def ulog_rel_def)
  moreover have "uint (dma_tx s) \<notin> {dmachTx s, dmachRx s}" "uint (dma_rx s) \<notin> {dmachTx s, dmachRx s}"
    "log_dmachTx s \<notin> {dmachTx s, dmachRx s, uint (dma_tx s), uint (dma_rx s)}"
    using assms unfolding share_def dma_shared_def by blast+
  ultimately show ?thesis by (simp add: channels_def) (metis uint_ge_0)
qed

section \<open>What holds in every run\<close>

lemma fw_run_safe:
  fixes s :: "'a platform_scheme"
  assumes "fw_run E R (runtime E react n) s es fs w" "share E a b s" "runtime_ok E R" "runtime_private R" "list_all spi_ev_ok es"
  shows "uart_inv E w" "spi_rel (fold spi_spec es a) w" "ulog_rel (fold log_spec fs b) w" "oks log_ok log_spec fs b"
    "distinct (channels (enabled b) w)" "set (channels (enabled b) w) \<subseteq> {0..<12}"
    "\<exists>x. sys_do E R (Spi_request (Some p) q k f) w = Inr x" "\<exists>x. sys_do E R (Spi_request q (Some p) k f) w = Inr x"
    "list_all (process_ok E R (runtime E react n)) pes \<Longrightarrow>
      \<exists>es' fs' x. run_res (\<lambda>pe. main_turn E pe (runtime E react n) call_done) pes w = Inr x \<and>
        fw_run E R (runtime E react n) w es' fs' x \<and> list_all spi_ev_ok es'"
proof -
  from fw_run_share [OF assms] have sh: "share E (fold spi_spec es a) (fold log_spec fs b) w" by blast
  show "uart_inv E w" "spi_rel (fold spi_spec es a) w" "ulog_rel (fold log_spec fs b) w" using sh by (simp_all add: share_def)
  show "oks log_ok log_spec fs b" using fw_run_share [OF assms] by blast
  show "distinct (channels (enabled b) w)" "set (channels (enabled b) w) \<subseteq> {0..<12}"
    using share_channels [OF sh] by (simp_all add: log_spec_enabled)
  have "\<exists>x. spi_do E (\<lambda>_ _ _. Inl Panic) e w = Inr x" if "spi_ev_ok e" for e using spi_do_share [OF sh that] by blast
  from this [of "Xfer (Some p) q k f"] this [of "Xfer q (Some p) k f"]
  show "\<exists>x. sys_do E R (Spi_request (Some p) q k f) w = Inr x" "\<exists>x. sys_do E R (Spi_request q (Some p) k f) w = Inr x" by auto
qed (use fw_run_share [OF assms] main_turns_run [OF _ assms(3,4)] in blast)

lemma socket_runs:
  assumes "sock_ev_ok e" "\<not> null_answer e"
  shows "\<exists>x. sock_do E (runtime E react n) e w = Inr x"
proof -
  have "steps E w (sock_do E (runtime E react n) e w)" using assms by (rule fr.sock_do_steps)
  then show ?thesis by (auto simp: steps_def)
qed

end
