(* ===== verification/Usb_Descriptors.thy ===== *)
theory Usb_Descriptors
  imports Hid
begin

text \<open>
  \<open>usb_descriptors.c\<close> and the interface numbers of \<open>tusb_config.h\<close>: the descriptors
  the device presents to a USB host. The configuration descriptor is written
  with macros of TinyUSB; it is the list of these macro calls with their
  arguments. The report descriptors of keyboard and mouse come from TinyUSB
  too; the one of the gamepad is spelled out in the source, byte by byte.
\<close>

section \<open>Constants\<close>

definition USB_VID :: u16 where "USB_VID = 0x2E8A"

definition USB_PID :: u16 where "USB_PID = 0x420a"

definition USB_MAX_POWER_MA :: nat where "USB_MAX_POWER_MA = 500"

definition HID_ITF_OFF :: nat where "HID_ITF_OFF = 2"

definition USB_ITF_CDC :: nat where "USB_ITF_CDC = 0"

definition USB_ITF_MAX :: nat where "USB_ITF_MAX = HID_ITF_OFF + HID_ITF_TOTAL"

definition USB_CDC_EP_CMD :: nat where "USB_CDC_EP_CMD = 0x81"

definition USB_CDC_EP_OUT :: nat where "USB_CDC_EP_OUT = 0x02"

definition USB_CDC_EP_IN :: nat where "USB_CDC_EP_IN = 0x82"

definition USB_CDC_CMD_MAX_SIZE :: nat where "USB_CDC_CMD_MAX_SIZE = 8"

definition USB_CDC_IN_OUT_MAX_SIZE :: nat where "USB_CDC_IN_OUT_MAX_SIZE = 64"

definition HID_EPNUM_OFF :: nat where "HID_EPNUM_OFF = 0x83"

definition USB_STR_0 :: nat where "USB_STR_0 = 0"

definition USB_STR_MANUF :: nat where "USB_STR_MANUF = 1"

definition USB_STR_PRODUCT :: nat where "USB_STR_PRODUCT = 2"

definition USB_STR_SERIAL :: nat where "USB_STR_SERIAL = 3"

definition USB_STR_CDC :: nat where "USB_STR_CDC = 4"

definition USB_STR_HID :: nat where "USB_STR_HID = 5"

definition CFG_TUD_HID_EP_BUFSIZE :: nat where "CFG_TUD_HID_EP_BUFSIZE = 16"

lemmas usb_consts = USB_MAX_POWER_MA_def HID_ITF_OFF_def USB_ITF_CDC_def USB_ITF_MAX_def USB_CDC_EP_CMD_def USB_CDC_EP_OUT_def
  USB_CDC_EP_IN_def USB_CDC_CMD_MAX_SIZE_def USB_CDC_IN_OUT_MAX_SIZE_def HID_EPNUM_OFF_def USB_STR_0_def USB_STR_MANUF_def
  USB_STR_PRODUCT_def USB_STR_SERIAL_def USB_STR_CDC_def USB_STR_HID_def CFG_TUD_HID_EP_BUFSIZE_def

definition USB_DESC_LEN :: "plat \<Rightarrow> nat" where
  "USB_DESC_LEN E = TUD_CONFIG_DESC_LEN E + TUD_CDC_DESC_LEN E + TUD_HID_DESC_LEN E * HID_ITF_TOTAL"

section \<open>Descriptors\<close>

record tusb_desc_device_t =
  bLength :: u8
  bDescriptorType :: u8
  bcdUSB :: u16
  bDeviceClass :: u8
  bDeviceSubClass :: u8
  bDeviceProtocol :: u8
  bMaxPacketSize0 :: u8
  idVendor :: u16
  idProduct :: u16
  bcdDevice :: u16
  iManufacturer :: nat
  iProduct :: nat
  iSerialNumber :: nat
  bNumConfigurations :: nat

definition desc_device :: "plat \<Rightarrow> tusb_desc_device_t" where
  "desc_device E =
     \<lparr>bLength = SIZEOF_DEVICE_DESC E, bDescriptorType = TUSB_DESC_DEVICE E, bcdUSB = 0x0200,
      bDeviceClass = TUSB_CLASS_MISC E, bDeviceSubClass = MISC_SUBCLASS_COMMON E, bDeviceProtocol = MISC_PROTOCOL_IAD E,
      bMaxPacketSize0 = CFG_TUD_ENDPOINT0_SIZE E, idVendor = USB_VID, idProduct = USB_PID, bcdDevice = 0x0100,
      iManufacturer = USB_STR_MANUF, iProduct = USB_STR_PRODUCT, iSerialNumber = USB_STR_SERIAL,
      bNumConfigurations = 1\<rparr>"

definition desc_hid_KEYBOARD :: "plat \<Rightarrow> u8 list" where
  "desc_hid_KEYBOARD E = TUD_HID_REPORT_DESC_KEYBOARD E"

definition desc_hid_MOUSE :: "plat \<Rightarrow> u8 list" where
  "desc_hid_MOUSE E = TUD_HID_REPORT_DESC_MOUSE E"

definition desc_hid_GAMEPAD :: "u8 list" where
  "desc_hid_GAMEPAD =
    [0x05, 0x01,
     0x09, 0x05,
     0xa1, 0x01,
     0x05, 0x02,
     0x09, 0xbb,
     0x15, 0x00,
     0x25, 0x1f,
     0x75, 0x08,
     0x95, 0x01,
     0x81, 0x02,
     0x05, 0x02,
     0x09, 0xb0,
     0x15, 0x00,
     0x25, 0x1f,
     0x75, 0x08,
     0x95, 0x01,
     0x81, 0x02,
     0x05, 0x01,
     0xa1, 0x00,
     0x09, 0x30,
     0x09, 0x31,
     0x09, 0x32,
     0x09, 0x35,
     0x15, 0x81,
     0x25, 0x7f,
     0x75, 0x08,
     0x95, 0x04,
     0x81, 0x02,
     0x05, 0x09,
     0x19, 0x01,
     0x29, 0x10,
     0x15, 0x00,
     0x25, 0x01,
     0x75, 0x01,
     0x95, 0x10,
     0x81, 0x02,
     0xc0,
     0xc0]"

text \<open>An array with designated initialisers: position and value.\<close>

definition hid_descs :: "plat \<Rightarrow> (nat \<times> u8 list) list" where
  "hid_descs E =
     [(HID_ITF_KEYBOARD, desc_hid_KEYBOARD E), (HID_ITF_MOUSE, desc_hid_MOUSE E), (HID_ITF_GAMEPAD, desc_hid_GAMEPAD)]"

datatype cfg_item =
    TUD_CONFIG_DESCRIPTOR nat nat nat nat nat nat
  | TUD_CDC_DESCRIPTOR nat nat nat nat nat nat nat
  | TUD_HID_DESCRIPTOR nat nat u8 nat nat nat nat

definition HID_DESC :: "nat \<Rightarrow> u8 list \<Rightarrow> u8 \<Rightarrow> cfg_item" where
  "HID_DESC itf desc proto =
     TUD_HID_DESCRIPTOR (HID_ITF_OFF + itf) (USB_STR_HID + itf) proto (length desc) (HID_EPNUM_OFF + itf)
       CFG_TUD_HID_EP_BUFSIZE 10"

definition desc_cfg :: "plat \<Rightarrow> cfg_item list" where
  "desc_cfg E =
     [TUD_CONFIG_DESCRIPTOR 1 USB_ITF_MAX USB_STR_0 (USB_DESC_LEN E) 0 USB_MAX_POWER_MA,
      TUD_CDC_DESCRIPTOR USB_ITF_CDC USB_STR_CDC USB_CDC_EP_CMD USB_CDC_CMD_MAX_SIZE USB_CDC_EP_OUT USB_CDC_EP_IN
        USB_CDC_IN_OUT_MAX_SIZE,
      HID_DESC HID_ITF_GAMEPAD desc_hid_GAMEPAD (HID_ITF_PROTOCOL_NONE E),
      HID_DESC HID_ITF_KEYBOARD (desc_hid_KEYBOARD E) (HID_ITF_PROTOCOL_KEYBOARD E),
      HID_DESC HID_ITF_MOUSE (desc_hid_MOUSE E) (HID_ITF_PROTOCOL_MOUSE E)]"

section \<open>State and callbacks\<close>

record usb_desc = hid +
  serial_str :: "u8 list"
  desc_str :: "u16 list"

abbreviation ascii :: "string \<Rightarrow> u8 list" where
  "ascii str \<equiv> map of_char str"

definition string_descriptors :: "u8 list \<Rightarrow> (nat \<times> u8 list) list" where
  "string_descriptors serial =
     [(USB_STR_MANUF, ascii ''Raspberry Pi'' @ [0]), (USB_STR_PRODUCT, ascii ''RP2040'' @ [0]), (USB_STR_SERIAL, serial),
      (USB_STR_CDC, ascii ''Jacdac CDC'' @ [0]), (USB_STR_HID + HID_ITF_KEYBOARD, ascii ''Jacdac Keyboard'' @ [0]),
      (USB_STR_HID + HID_ITF_MOUSE, ascii ''Jacdac Mouse'' @ [0]), (USB_STR_HID + HID_ITF_GAMEPAD, ascii ''Jacdac Gamepad'' @ [0])]"

text \<open>The number of elements of the array: one more than the highest position.\<close>

definition num_strings :: nat where
  "num_strings = Suc (Max (fst ` set (string_descriptors [])))"

definition tud_descriptor_device_cb :: "plat \<Rightarrow> tusb_desc_device_t" where
  "tud_descriptor_device_cb E = desc_device E"

definition tud_descriptor_configuration_cb :: "plat \<Rightarrow> u8 \<Rightarrow> cfg_item list" where
  "tud_descriptor_configuration_cb E index = desc_cfg E"

text \<open>The serial number is filled in when it is first needed; \<open>jd_to_hex\<close> writes 16 digits and a zero byte.\<close>

definition assign_serial :: "plat \<Rightarrow> 'a usb_desc_scheme \<Rightarrow> 'a usb_desc_scheme" where
  "assign_serial E s =
     (if serial_str s ! 0 = 0
      then let (devid, s) = ask E (Usb Jd_device_id) s;
               hex = Usb (Jd_to_hex (word_of_int devid) 8);
               s = s\<lparr>serial_str := (serial_str s)[0 := of_char (CHR ''J'')]\<rparr>;
               s = s\<lparr>serial_str := (serial_str s)[1 := of_char (CHR ''D'')]\<rparr>;
               digits = map (outbuf E (trace s) hex) [0..<17];
               s = emit hex s
           in s\<lparr>serial_str := take 2 (serial_str s) @ digits @ drop 19 (serial_str s)\<rparr>
      else s)"

text \<open>Copying a C string to the descriptor; the read past the end of the string's array is a fault.\<close>

function copy_str :: "u8 list \<Rightarrow> nat \<Rightarrow> u16 list \<Rightarrow> (nat \<times> u16 list) res" where
  "copy_str str len d =
     (if len < 31
      then if length str \<le> len then Inl Out_of_bounds
           else if str ! len \<noteq> 0 then copy_str str (Suc len) (d[1 + len := ucast (str ! len)])
           else Inr (len, d)
      else Inr (len, d))"
  by pat_completeness auto
termination by (relation "measure (\<lambda>(str, len, d). 31 - len)") auto

declare copy_str.simps [simp del]

definition tud_descriptor_string_cb ::
  "plat \<Rightarrow> u8 \<Rightarrow> u16 \<Rightarrow> 'a usb_desc_scheme \<Rightarrow> (u16 list option \<times> 'a usb_desc_scheme) res" where
  "tud_descriptor_string_cb E index langid s =
     (let s = assign_serial E s;
          finish = (\<lambda>len d s. let d = d[0 := push_bit 8 (TUSB_DESC_STRING E) OR of_nat (2 * len + 2)]
                              in Inr (Some d, s\<lparr>desc_str := d\<rparr>))
      in if index = 0 then finish (1::nat) ((desc_str s)[1 := 0x0409]) s
         else if num_strings \<le> unat index then Inr (None, s)
         else case map_of (string_descriptors (serial_str s)) (unat index) of
                None \<Rightarrow> Inr (None, s)
              | Some str \<Rightarrow> bindE (copy_str str 0 (desc_str s)) (\<lambda>(len, d). finish len d s))"

definition tud_hid_descriptor_report_cb :: "plat \<Rightarrow> u8 \<Rightarrow> u8 list option" where
  "tud_hid_descriptor_report_cb E inst = (if unat inst < HID_ITF_TOTAL then map_of (hid_descs E) (unat inst) else None)"

section \<open>String descriptors\<close>

text \<open>Reading a string descriptor the way a host does: type, and as many units as the length byte says.\<close>

definition usb_decode :: "u16 list \<Rightarrow> u16 \<times> u16 list" where
  "usb_decode d = (drop_bit 8 (d ! 0), take ((unat (d ! 0 AND 0xff) - 2) div 2) (tl d))"

text \<open>The text of a string, up to the terminating zero.\<close>

definition c_text :: "u8 list \<Rightarrow> u8 list" where
  "c_text str = takeWhile (\<lambda>c. c \<noteq> 0) str"

lemma header_word:
  assumes "n < 32"
  defines "w \<equiv> push_bit 8 3 OR of_nat (2 * n + 2) :: u16"
  shows "drop_bit 8 w = 3" "(unat (w AND 0xff) - 2) div 2 = n"
proof -
  define x where "x = (of_nat (2 * n + 2) :: u16)"
  have w: "w = push_bit 8 3 OR x" by (simp only: w_def x_def)
  have x: "unat x = 2 * n + 2" using assms(1) by (simp add: x_def unat_of_nat del: of_nat_Suc of_nat_add of_nat_mult)
  then have "unat (drop_bit 8 x) = 0" using assms(1) by (simp only: unat_drop_bit_eq) (simp add: drop_bit_nat_def)
  then have "drop_bit 8 x = 0" by (simp add: unat_eq_0)
  then show "drop_bit 8 w = 3" by (simp add: w)
  have ff: "(0xff :: u16) = Bit_Operations.mask 8" by (simp add: mask_eq_exp_minus_1)
  have "unat (x AND 0xff) = 2 * n + 2"
    using assms(1) x unfolding ff by (simp add: take_bit_eq_mask [symmetric] unsigned_take_bit_eq take_bit_nat_eq_self)
  moreover have "w AND 0xff = x AND 0xff" by (simp add: w bit.conj_disj_distrib2)
  ultimately show "(unat (w AND 0xff) - 2) div 2 = n" by simp
qed

lemma c_text_end:
  assumes "0 \<in> set str"
  shows "length (c_text str) < length str" "str ! length (c_text str) = 0"
    "n < length (c_text str) \<Longrightarrow> str ! n = c_text str ! n \<and> str ! n \<noteq> 0"
proof -
  show len: "length (c_text str) < length str"
    unfolding c_text_def using assms by (induction str) auto
  show "str ! length (c_text str) = 0"
    using nth_length_takeWhile [of "\<lambda>c. c \<noteq> 0" str] len by (simp add: c_text_def)
  show "str ! n = c_text str ! n \<and> str ! n \<noteq> 0" if "n < length (c_text str)"
    using takeWhile_nth [of n "\<lambda>c. c \<noteq> 0" str] set_takeWhileD [of "c_text str ! n" "\<lambda>c. c \<noteq> 0" str] nth_mem [OF that] that
    by (simp add: c_text_def)
qed

lemma copy_str_run:
  assumes "0 \<in> set str" "length (c_text str) < 31" "length d = 32" "n \<le> length (c_text str)"
  shows "copy_str str n d = Inr (length (c_text str),
    take (Suc n) d @ map ucast (drop n (c_text str)) @ drop (Suc (length (c_text str))) d)"
  using assms(3,4)
proof (induction "31 - n" arbitrary: n d)
  case 0
  with assms(2) show ?case by simp
next
  case (Suc k)
  note ends = c_text_end [OF assms(1)]
  show ?case
  proof (cases "n = length (c_text str)")
    case True
    with ends assms(2) Suc.prems show ?thesis by (subst copy_str.simps) simp
  next
    case False
    with Suc.prems have n: "n < length (c_text str)" by simp
    let ?d = "d[Suc n := ucast (str ! n)]"
    have step: "copy_str str n d = copy_str str (Suc n) ?d"
      using ends(1) ends(3) [OF n] n assms(2) by (subst copy_str.simps) auto
    have IH: "copy_str str (Suc n) ?d = Inr (length (c_text str),
        take (Suc (Suc n)) ?d @ map ucast (drop (Suc n) (c_text str)) @ drop (Suc (length (c_text str))) ?d)"
      using Suc.hyps(2) Suc.prems n by (intro Suc.hyps(1)) auto
    have "take (Suc (Suc n)) ?d = take (Suc n) d @ [ucast (str ! n)]"
      using n assms(2) Suc.prems by (simp add: take_Suc_conv_app_nth [of "Suc n"])
    moreover have "drop (Suc (length (c_text str))) ?d = drop (Suc (length (c_text str))) d" using n by simp
    moreover have "drop n (c_text str) = str ! n # drop (Suc n) (c_text str)"
      using n ends(3) [OF n] by (simp add: Cons_nth_drop_Suc)
    ultimately show ?thesis by (simp add: step IH)
  qed
qed

text \<open>The serial number buffer is empty or holds \<open>JD\<close> and 16 digits.\<close>

definition hex_law :: "plat \<Rightarrow> bool" where
  "hex_law E \<longleftrightarrow> (\<forall>h v i. (outbuf E h (Usb (Jd_to_hex v 8)) i = 0) = (i = 16))"

definition serial_ok :: "u8 list \<Rightarrow> bool" where
  "serial_ok sn \<longleftrightarrow> length sn = 19 \<and> 0 \<in> set sn \<and> length (c_text sn) = 18"

definition desc_inv :: "'a usb_desc_scheme \<Rightarrow> bool" where
  "desc_inv s \<longleftrightarrow> length (desc_str s) = 32 \<and> (serial_str s = replicate 19 0 \<or> serial_ok (serial_str s))"

lemma upt_17: "[0..<17] = [0..<16] @ [16]"
  by (simp add: upt_conv_Cons)

lemma serial_ok_nonzero: "serial_ok sn \<Longrightarrow> sn ! 0 \<noteq> 0"
  using c_text_end(3) [of sn 0] by (auto simp: serial_ok_def)

lemma assign_serial_ok:
  assumes "desc_inv s" "hex_law E"
  shows "serial_ok (serial_str (assign_serial E s)) \<and> desc_str (assign_serial E s) = desc_str s"
proof (cases "serial_str s = replicate 19 0")
  case True
  obtain h v where sn: "serial_str (assign_serial E s) = of_char (CHR ''J'') # of_char (CHR ''D'') #
      map (outbuf E h (Usb (Jd_to_hex v 8))) [0..<17]" and d: "desc_str (assign_serial E s) = desc_str s"
    using True by (simp add: assign_serial_def numeral_eq_Suc)
  define dig where "dig = map (outbuf E h (Usb (Jd_to_hex v 8))) [0..<16]"
  have dig: "map (outbuf E h (Usb (Jd_to_hex v 8))) [0..<17] = dig @ [0]" "\<And>c. c \<in> set dig \<Longrightarrow> c \<noteq> 0" "length dig = 16"
    using assms(2) by (auto simp: upt_17 dig_def hex_law_def)
  have "takeWhile (\<lambda>c. c \<noteq> 0) (dig @ [0]) = dig" using dig(2) by (subst takeWhile_append2) auto
  then show ?thesis using sn d dig by (simp add: serial_ok_def c_text_def)
next
  case False
  with assms(1) have "serial_ok (serial_str s)" by (simp add: desc_inv_def)
  with serial_ok_nonzero show ?thesis by (simp add: assign_serial_def)
qed

lemma num_strings_8 [simp]: "num_strings = 8"
  by (simp add: num_strings_def string_descriptors_def usb_consts hid_itf_defs)

lemma c_text_short: "length (c_text str) \<le> length str"
  by (simp add: c_text_def length_takeWhile_le)

lemma strings_ok:
  assumes "serial_ok sn" "0 < i" "i < 8"
  shows "\<exists>str. map_of (string_descriptors sn) i = Some str \<and> 0 \<in> set str \<and> length (c_text str) < 31"
proof -
  have short: "length (c_text (ascii x @ [0])) < 31" if "length x < 30" for x
    using c_text_short [of "ascii x @ [0]"] that by simp
  have sn: "0 \<in> set sn" "length (c_text sn) < 31" using assms(1) by (simp_all add: serial_ok_def)
  from assms(2,3) consider "i = 1" | "i = 2" | "i = 3" | "i = 4" | "i = 5" | "i = 6" | "i = 7" by linarith
  then show ?thesis
    by cases (simp_all add: string_descriptors_def usb_consts hid_itf_defs sn short del: list.map)
qed

text \<open>
  C12. Every string descriptor reads back as the string it was made from: for
  each string index of the device the callback returns a descriptor of type
  string whose length byte and 16-bit units decode to exactly the text of that
  string (for index 0 the language identifier), without an access outside the
  buffer or the string; every other index is refused. The serial number is
  assigned on first use and well formed afterwards.
\<close>

theorem usb_string_roundtrip:
  assumes "desc_inv s" "hex_law E" "TUSB_DESC_STRING E = 3"
  shows "\<exists>r t. tud_descriptor_string_cb E index langid s = Inr (r, t) \<and> desc_inv t \<and> serial_ok (serial_str t) \<and>
    (case r of None \<Rightarrow> 8 \<le> index
     | Some d \<Rightarrow> index < 8 \<and> usb_decode d = (3, if index = 0 then [0x0409]
         else map ucast (c_text (the (map_of (string_descriptors (serial_str t)) (unat index))))))"
proof -
  define u where "u = assign_serial E s"
  have sn: "serial_ok (serial_str u)" and len: "length (desc_str u) = 32"
    using assign_serial_ok [OF assms(1,2)] assms(1) by (simp_all add: u_def desc_inv_def)
  consider "index = 0" | "8 \<le> unat index" | "0 < unat index" "unat index < 8" by (metis linorder_not_le unat_eq_0 neq0_conv)
  then show ?thesis
  proof cases
    case 1
    have "usb_decode ((desc_str u)[Suc 0 := 0x0409, 0 := push_bit 8 3 OR of_nat (2 * 1 + 2)]) = (3, [0x0409])"
      using header_word [of 1] len by (simp add: usb_decode_def) (simp add: take_Suc_conv_app_nth nth_tl)
    with 1 sn len assms(3) show ?thesis
      by (simp add: tud_descriptor_string_cb_def u_def [symmetric] desc_inv_def)
  next
    case 2
    then show ?thesis
      using sn len by (simp add: tud_descriptor_string_cb_def u_def [symmetric] desc_inv_def word_le_nat_alt) (auto simp: unat_eq_0)
  next
    case 3
    from strings_ok [OF sn 3] obtain str where str: "map_of (string_descriptors (serial_str u)) (unat index) = Some str"
      "0 \<in> set str" "length (c_text str) < 31" by blast
    let ?n = "length (c_text str)"
    let ?d = "take 1 (desc_str u) @ map ucast (c_text str) @ drop (Suc ?n) (desc_str u)"
    let ?w = "push_bit 8 3 OR of_nat (2 * ?n + 2) :: u16"
    have "copy_str str 0 (desc_str u) = Inr (?n, ?d)"
      using copy_str_run [OF str(2,3) len, of 0] by simp
    then have run: "tud_descriptor_string_cb E index langid s = Inr (Some (?d[0 := ?w]), u\<lparr>desc_str := ?d[0 := ?w]\<rparr>)"
      using 3 str(1) assms(3) by (auto simp: tud_descriptor_string_cb_def u_def [symmetric] unat_eq_0)
    have "usb_decode (?d[0 := ?w]) = (3, map ucast (c_text str))"
      using header_word [of ?n] str(3) len by (cases "desc_str u") (simp_all add: usb_decode_def)
    with run 3 sn str len show ?thesis by (simp add: desc_inv_def word_less_nat_alt) (auto simp: unat_eq_0)
  qed
qed

definition desc_demo :: usb_desc where
  "desc_demo = hid.extend hid_demo \<lparr>serial_str = replicate 19 0, desc_str = replicate 32 0\<rparr>"

definition hex_plat :: plat where
  "hex_plat = sample_plat\<lparr>outbuf := (\<lambda>h c i. if i = 16 then 0 else 48)\<rparr>"

theorem usb_string_roundtrip_witness:
  "\<exists>d t. tud_descriptor_string_cb hex_plat 2 0x0409 desc_demo = Inr (Some d, t) \<and>
     usb_decode d = (3, map ucast (c_text (ascii ''RP2040'' @ [0])))"
proof -
  have "desc_inv desc_demo" "hex_law hex_plat" "TUSB_DESC_STRING hex_plat = 3"
    by (simp_all add: desc_inv_def desc_demo_def hid.defs hex_law_def hex_plat_def)
  from usb_string_roundtrip [OF this, of 2 "0x0409"] show ?thesis
    by (auto simp: string_descriptors_def usb_consts hid_itf_defs split: option.splits)
qed

section \<open>Consistency of the descriptors\<close>

text \<open>What an item of the configuration descriptor claims: interfaces, endpoints, strings, length.\<close>

fun item_itfs :: "cfg_item \<Rightarrow> nat list" where
  "item_itfs (TUD_CONFIG_DESCRIPTOR n itfs str len att ma) = []"
| "item_itfs (TUD_CDC_DESCRIPTOR itf str cmd cmdsz epout epin sz) = [itf, Suc itf]"
| "item_itfs (TUD_HID_DESCRIPTOR itf str proto len ep sz ms) = [itf]"

fun item_eps :: "cfg_item \<Rightarrow> nat list" where
  "item_eps (TUD_CONFIG_DESCRIPTOR n itfs str len att ma) = []"
| "item_eps (TUD_CDC_DESCRIPTOR itf str cmd cmdsz epout epin sz) = [cmd, epout, epin]"
| "item_eps (TUD_HID_DESCRIPTOR itf str proto len ep sz ms) = [ep]"

fun item_str :: "cfg_item \<Rightarrow> nat" where
  "item_str (TUD_CONFIG_DESCRIPTOR n itfs str len att ma) = str"
| "item_str (TUD_CDC_DESCRIPTOR itf str cmd cmdsz epout epin sz) = str"
| "item_str (TUD_HID_DESCRIPTOR itf str proto len ep sz ms) = str"

fun item_len :: "plat \<Rightarrow> cfg_item \<Rightarrow> nat" where
  "item_len E (TUD_CONFIG_DESCRIPTOR n itfs str len att ma) = TUD_CONFIG_DESC_LEN E"
| "item_len E (TUD_CDC_DESCRIPTOR itf str cmd cmdsz epout epin sz) = TUD_CDC_DESC_LEN E"
| "item_len E (TUD_HID_DESCRIPTOR itf str proto len ep sz ms) = TUD_HID_DESC_LEN E"

fun report_len_ok :: "plat \<Rightarrow> cfg_item \<Rightarrow> bool" where
  "report_len_ok E (TUD_HID_DESCRIPTOR itf str proto len ep sz ms) =
     (map_option length (tud_hid_descriptor_report_cb E (of_nat (itf - HID_ITF_OFF))) = Some len)"
| "report_len_ok E _ = True"

text \<open>
  Reading a HID report descriptor: short items with a prefix byte (kind and
  number of data bytes) and data; report size and count give the bits of each
  input item; collections must be closed. The result is the number of input
  bits.
\<close>

definition item_size :: "u8 \<Rightarrow> nat" where
  "item_size b = (if b AND 3 = 3 then 4 else unat (b AND 3))"

record hid_parse =
  rep_size :: nat
  rep_count :: nat
  nesting :: nat
  input_bits :: nat

definition le_value :: "u8 list \<Rightarrow> nat" where
  "le_value ds = foldr (\<lambda>d n. unat d + 256 * n) ds 0"

definition hid_item :: "u8 \<Rightarrow> u8 list \<Rightarrow> hid_parse \<Rightarrow> hid_parse option" where
  "hid_item b ds p =
     (let k = b AND 0xfc in
      if k = 0x74 then Some (p\<lparr>rep_size := le_value ds\<rparr>)
      else if k = 0x94 then Some (p\<lparr>rep_count := le_value ds\<rparr>)
      else if k = 0x80 then Some (p\<lparr>input_bits := input_bits p + rep_size p * rep_count p\<rparr>)
      else if k = 0xa0 then Some (p\<lparr>nesting := Suc (nesting p)\<rparr>)
      else if k = 0xc0 then (if nesting p = 0 then None else Some (p\<lparr>nesting := nesting p - 1\<rparr>))
      else Some p)"

function hid_read :: "u8 list \<Rightarrow> hid_parse \<Rightarrow> nat option" where
  "hid_read [] p = (if nesting p = 0 then Some (input_bits p) else None)"
| "hid_read (b # bs) p =
     (if length bs < item_size b then None
      else case hid_item b (take (item_size b) bs) p of None \<Rightarrow> None | Some q \<Rightarrow> hid_read (drop (item_size b) bs) q)"
  by pat_completeness auto
termination by (relation "measure (\<lambda>(bs, p). length bs)") auto

definition hid_input_bits :: "u8 list \<Rightarrow> nat option" where
  "hid_input_bits bs = hid_read bs \<lparr>rep_size = 0, rep_count = 0, nesting = 0, input_bits = 0\<rparr>"

lemma gamepad_bits: "hid_input_bits desc_hid_GAMEPAD = Some 64"
  by (simp add: hid_input_bits_def desc_hid_GAMEPAD_def item_size_def hid_item_def le_value_def)

lemma cfg_interfaces: "concat (map item_itfs (desc_cfg E)) = [0..<USB_ITF_MAX]"
  by (simp add: desc_cfg_def HID_DESC_def usb_consts hid_itf_defs upt_conv_Cons)

lemma cfg_endpoints: "distinct (concat (map item_eps (desc_cfg E)))" "list_all (\<lambda>e. e mod 128 \<in> {1..15}) (concat (map item_eps (desc_cfg E)))"
  by (simp_all add: desc_cfg_def HID_DESC_def usb_consts hid_itf_defs)

lemma cfg_strings:
  "list_all (\<lambda>k. k \<in> {0} \<union> dom (map_of (string_descriptors sn)))
     (map item_str (desc_cfg E) @ [iManufacturer (desc_device E), iProduct (desc_device E), iSerialNumber (desc_device E)])"
  by (simp add: desc_cfg_def HID_DESC_def usb_consts hid_itf_defs string_descriptors_def desc_device_def)

lemma cfg_reports: "list_all (report_len_ok E) (desc_cfg E)"
  by (simp add: desc_cfg_def HID_DESC_def tud_hid_descriptor_report_cb_def hid_descs_def usb_consts hid_itf_defs)

fun hid_itf :: "cfg_item \<Rightarrow> nat list" where
  "hid_itf (TUD_HID_DESCRIPTOR itf str proto len ep sz ms) = [itf]"
| "hid_itf _ = []"

text \<open>The items after the header of the configuration descriptor.\<close>

definition cfg_items :: "plat \<Rightarrow> cfg_item list" where
  "cfg_items E = tl (desc_cfg E)"

lemma cfg_header:
  "desc_cfg E = TUD_CONFIG_DESCRIPTOR 1 (length (concat (map item_itfs (cfg_items E)))) 0
     (TUD_CONFIG_DESC_LEN E + sum_list (map (item_len E) (cfg_items E))) 0 500 # cfg_items E"
  by (simp add: cfg_items_def desc_cfg_def HID_DESC_def USB_DESC_LEN_def usb_consts hid_itf_defs)

lemma hid_served: "(tud_hid_descriptor_report_cb E inst \<noteq> None) = (HID_ITF_OFF + unat inst \<in> set (concat (map hid_itf (cfg_items E))))"
proof -
  have "unat inst < 3 \<longleftrightarrow> unat inst = 0 \<or> unat inst = 1 \<or> unat inst = 2" by auto
  then show ?thesis
    by (auto simp: cfg_items_def desc_cfg_def HID_DESC_def tud_hid_descriptor_report_cb_def hid_descs_def usb_consts hid_itf_defs)
qed

lemma cfg_items_ok:
  "concat (map item_itfs (cfg_items E)) = [0..<length (concat (map item_itfs (cfg_items E)))]"
  "distinct (concat (map item_eps (cfg_items E)))"
  "list_all (\<lambda>e. e mod 128 \<in> {1..15}) (concat (map item_eps (cfg_items E)))"
  "list_all (\<lambda>k. k \<in> {0} \<union> dom (map_of (string_descriptors sn)))
     (map item_str (cfg_items E) @ [iManufacturer (desc_device E), iProduct (desc_device E), iSerialNumber (desc_device E)])"
  "list_all (report_len_ok E) (cfg_items E)"
  using cfg_interfaces [of E] cfg_endpoints [of E] cfg_strings [of sn E] cfg_reports [of E]
  by (simp_all add: cfg_items_def desc_cfg_def HID_DESC_def usb_consts hid_itf_defs upt_rec)

text \<open>
  C26. What the configuration descriptor advertises is what follows it. The header
  gives exactly the number of interfaces and the total length of all items; the
  interfaces are numbered from 0 without a gap or repetition, no endpoint address
  is used twice and none is the control endpoint, and every string index has a
  string. For every instance number, a report descriptor is served exactly if an
  interface with that number is advertised, and with the advertised length; the
  gamepad's is well formed and describes a 64-bit report, which fits the endpoint's
  buffer.
\<close>

theorem usb_descriptors_consistent:
  "\<exists>n len items. tud_descriptor_configuration_cb E i = TUD_CONFIG_DESCRIPTOR (bNumConfigurations (tud_descriptor_device_cb E)) n 0 len 0 500 # items \<and>
     len = TUD_CONFIG_DESC_LEN E + sum_list (map (item_len E) items) \<and>
     concat (map item_itfs items) = [0..<n] \<and>
     distinct (concat (map item_eps items)) \<and> list_all (\<lambda>e. e mod 128 \<in> {1..15}) (concat (map item_eps items)) \<and>
     list_all (\<lambda>k. k \<in> {0} \<union> dom (map_of (string_descriptors sn)))
       (map item_str items @ [iManufacturer (tud_descriptor_device_cb E), iProduct (tud_descriptor_device_cb E),
          iSerialNumber (tud_descriptor_device_cb E)]) \<and>
     (\<forall>inst. (tud_hid_descriptor_report_cb E inst \<noteq> None) = (HID_ITF_OFF + unat inst \<in> set (concat (map hid_itf items)))) \<and>
     list_all (report_len_ok E) items \<and>
     tud_hid_descriptor_report_cb E (of_nat HID_ITF_GAMEPAD) = Some desc_hid_GAMEPAD \<and>
     hid_input_bits desc_hid_GAMEPAD = Some 64 \<and> 64 \<le> 8 * CFG_TUD_HID_EP_BUFSIZE"
proof -
  have "tud_hid_descriptor_report_cb E (of_nat HID_ITF_GAMEPAD) = Some desc_hid_GAMEPAD"
    by (simp add: tud_hid_descriptor_report_cb_def hid_descs_def hid_itf_defs)
  moreover have "bNumConfigurations (desc_device E) = 1" by (simp add: desc_device_def)
  ultimately show ?thesis
    using cfg_header [of E] cfg_items_ok(1,2,3,5) [of E] cfg_items_ok(4) [where E = E and sn = sn] hid_served [of E] gamepad_bits
    unfolding tud_descriptor_configuration_cb_def tud_descriptor_device_cb_def
    by (intro exI [of _ "length (concat (map item_itfs (cfg_items E)))"] exI [of _ "TUD_CONFIG_DESC_LEN E + sum_list (map (item_len E) (cfg_items E))"]
        exI [of _ "cfg_items E"] conjI) (simp_all add: usb_consts)
qed

end
