(* ===== verification/Flash.thy ===== *)
theory Flash
  imports Irq
begin

text \<open>
  \<open>flash.c\<close>: programming of the settings area of the flash through a one-page
  write-back buffer. Addresses are 32-bit words with their wrap-around; the
  flash chip itself is the other side (\<open>xip\<close> and the two SDK calls), and what is
  documented of it is the predicate \<open>flash_chip\<close>. The abstract view of the
  component is the array of bytes a reader sees once the buffer is written back.
\<close>

section \<open>Constants of \<open>jd_user_config.h\<close>\<close>

definition JD_FLASH_PAGE_SIZE :: u32 where
  "JD_FLASH_PAGE_SIZE = 4096"

definition JD_FSTOR_TOTAL_SIZE :: u32 where
  "JD_FSTOR_TOTAL_SIZE = 128 * 1024"

definition SPI_FLASH_MEGS :: u32 where
  "SPI_FLASH_MEGS = 1"

definition SPI_STORAGE_SIZE :: u32 where
  "SPI_STORAGE_SIZE = JD_FSTOR_TOTAL_SIZE"

definition SPI_STORAGE_OFFSET :: u32 where
  "SPI_STORAGE_OFFSET = SPI_FLASH_MEGS * 1024 * 1024 - SPI_STORAGE_SIZE"

definition JD_FSTOR_BASE_ADDR :: u32 where
  "JD_FSTOR_BASE_ADDR = 0x10000000 + SPI_STORAGE_OFFSET"

definition JD_DCFG_BASE_ADDR :: u32 where
  "JD_DCFG_BASE_ADDR = JD_FSTOR_BASE_ADDR - 16 * 1024"

lemmas storage_consts = JD_FLASH_PAGE_SIZE_def JD_FSTOR_TOTAL_SIZE_def SPI_FLASH_MEGS_def
  SPI_STORAGE_SIZE_def SPI_STORAGE_OFFSET_def

section \<open>State and operations\<close>

record flash = irq +
  last_page_addr :: u32
  flash_page_buf :: "u8 list"

abbreviation PAGE_MASK :: "plat \<Rightarrow> u32" where
  "PAGE_MASK E \<equiv> FLASH_PAGE_SIZE E - 1"

definition flash_sync :: "'a flash_scheme \<Rightarrow> 'a flash_scheme" where
  "flash_sync s =
     (if last_page_addr s \<noteq> 0
      then (let s = target_disable_irq s;
                s = emit (Flash (Flash_range_program (last_page_addr s) (flash_page_buf s))) s;
                s = target_enable_irq s
            in s\<lparr>last_page_addr := 0\<rparr>)
      else s)"

text \<open>A buffer pointer is the function from offsets to bytes.\<close>

fun page_copy_loop :: "plat \<Rightarrow> u32 \<Rightarrow> u32 \<Rightarrow> (nat \<Rightarrow> u8) \<Rightarrow> nat list \<Rightarrow> 'a flash_scheme \<Rightarrow> 'a flash_scheme res" where
  "page_copy_loop E dst dp src [] s = Inr s"
| "page_copy_loop E dst dp src (i # is) s =
     bindE (jd_assert (xip E (trace s) (dst + (dp + of_nat i)) = 0xff) s) (\<lambda>s.
       if length (flash_page_buf s) \<le> unat (dp + of_nat i) then Inl Out_of_bounds
       else page_copy_loop E dst dp src is
              (s\<lparr>flash_page_buf := (flash_page_buf s)[unat (dp + of_nat i) := src i]\<rparr>))"

definition flash_program_page :: "plat \<Rightarrow> u32 \<Rightarrow> (nat \<Rightarrow> u8) \<Rightarrow> u32 \<Rightarrow> 'a flash_scheme \<Rightarrow> 'a flash_scheme res" where
  "flash_program_page E addr src len s =
     bindE (jd_assert (len < FLASH_PAGE_SIZE E) s) (\<lambda>s.
     bindE (jd_assert (addr div FLASH_PAGE_SIZE E = (addr + len - 1) div FLASH_PAGE_SIZE E) s) (\<lambda>s.
       let page_addr = addr AND NOT (PAGE_MASK E);
           dst = XIP_BASE E + page_addr;
           s = (if last_page_addr s \<noteq> page_addr
                then (let s = flash_sync s;
                          s = s\<lparr>last_page_addr := page_addr\<rparr>
                      in s\<lparr>flash_page_buf :=
                            map (\<lambda>i. xip E (trace s) (dst + of_nat i)) [0..<unat (FLASH_PAGE_SIZE E)]\<rparr>)
                else s);
           dp = addr AND PAGE_MASK E
       in page_copy_loop E dst dp src [0..<unat len] s))"

partial_function (option) flash_program_loop ::
  "plat \<Rightarrow> u32 \<Rightarrow> (nat \<Rightarrow> u8) \<Rightarrow> u32 \<Rightarrow> 'a flash_scheme \<Rightarrow> 'a flash_scheme res option" where
  "flash_program_loop E off src len s =
     (if 0 < len
      then let n = FLASH_PAGE_SIZE E - (off AND PAGE_MASK E);
               n = (if len < n then len else n)
           in case flash_program_page E off src n s of
                Inl e \<Rightarrow> Some (Inl e)
              | Inr s \<Rightarrow> flash_program_loop E (off + n) (\<lambda>i. src (unat n + i)) (len - n) s
      else Some (Inr s))"

definition flash_program :: "plat \<Rightarrow> u32 \<Rightarrow> (nat \<Rightarrow> u8) \<Rightarrow> u32 \<Rightarrow> 'a flash_scheme \<Rightarrow> 'a flash_scheme res" where
  "flash_program E dst src len s =
     (let diff = dst - XIP_BASE E - SPI_STORAGE_OFFSET in
      bindE (jd_assert (0 \<le> sint diff \<and> diff + len \<le> SPI_STORAGE_SIZE) s) (\<lambda>s.
      bindE (jd_assert (diff AND (8 - 1) = 0) s) (\<lambda>s.
        bindE (of_loop (flash_program_loop E (diff + SPI_STORAGE_OFFSET) src len s)) (\<lambda>r. r))))"

definition flash_erase :: "plat \<Rightarrow> u32 \<Rightarrow> 'a flash_scheme \<Rightarrow> 'a flash_scheme res" where
  "flash_erase E page_addr s =
     (let diff = page_addr - XIP_BASE E - SPI_STORAGE_OFFSET in
      bindE (jd_assert (0 \<le> sint diff \<and> sint diff \<le> sint (SPI_STORAGE_SIZE - JD_FLASH_PAGE_SIZE)) s) (\<lambda>s.
      bindE (jd_assert (diff AND (JD_FLASH_PAGE_SIZE - 1) = 0) s) (\<lambda>s.
        let s = target_disable_irq s;
            s = emit (Flash (Flash_range_erase (diff + SPI_STORAGE_OFFSET) JD_FLASH_PAGE_SIZE)) s
        in Inr (target_enable_irq s))))"

section \<open>The program and the configuration are out of reach\<close>

lemma sint_below:
  fixes a b :: u32
  assumes "unat a < unat b" "unat b \<le> unat a + 2 ^ 31"
  shows "sint (a - b) < 0"
proof -
  define m where "m = 2 ^ 32 + unat a - unat b"
  have "(of_nat m :: u32) = of_nat (2 ^ 32 + unat a) - of_nat (unat b)"
    unfolding m_def using assms(2) by (intro of_nat_diff) simp
  then have "a - b = of_nat m" by simp
  moreover have "2 ^ 31 \<le> m" "m < 2 ^ 32" using assms by (simp_all add: m_def)
  then have "m div 2 ^ 31 = 1" by (intro div_nat_eqI) simp_all
  then have "bit m 31" by (simp add: bit_iff_odd)
  ultimately have "bit (a - b) 31" by (simp add: bit_of_nat_iff possible_bit_word)
  then show ?thesis using bit_last_iff [of "a - b"] by simp
qed

text \<open>
  \<open>flash_program\<close> and \<open>flash_erase\<close> refuse every address of the flash below the
  storage area, so neither the firmware nor the device configuration, which lies
  directly below it, can be overwritten through them.
\<close>

lemma below_storage_refused:
  assumes "XIP_BASE E = 0x10000000" "0x10000000 \<le> dst" "dst < JD_FSTOR_BASE_ADDR"
  shows "flash_program E dst src len s = Inl Assert_failed" "flash_erase E dst s = Inl Assert_failed"
proof -
  let ?d = "dst - XIP_BASE E - SPI_STORAGE_OFFSET"
  have "?d = dst - JD_FSTOR_BASE_ADDR" by (simp add: assms(1) JD_FSTOR_BASE_ADDR_def)
  moreover have "sint (dst - JD_FSTOR_BASE_ADDR) < 0"
    using assms(2,3) by (intro sint_below) (simp_all add: JD_FSTOR_BASE_ADDR_def storage_consts word_le_nat_alt word_less_nat_alt)
  ultimately have "\<not> 0 \<le> sint ?d" by (simp only: not_le)
  then have "\<not> (0 \<le> sint ?d \<and> P)" for P by blast
  then show "flash_program E dst src len s = Inl Assert_failed" "flash_erase E dst s = Inl Assert_failed"
    by (simp_all only: flash_program_def flash_erase_def Let_def jd_assert_def if_False bindE_Inl)
qed

lemma dcfg_below_storage: "0x10000000 \<le> JD_DCFG_BASE_ADDR" "JD_DCFG_BASE_ADDR < JD_FSTOR_BASE_ADDR"
  by (simp_all add: JD_DCFG_BASE_ADDR_def JD_FSTOR_BASE_ADDR_def storage_consts)

section \<open>The flash chip\<close>

text \<open>
  Documented behaviour of the chip and of the two SDK calls: programming can
  only clear bits, erasing sets every bit of the range, nothing else changes
  the contents.
\<close>

definition flash_chip :: "plat \<Rightarrow> bool" where
  "flash_chip E \<longleftrightarrow> FLASH_PAGE_SIZE E = 256 \<and> XIP_BASE E = 0x10000000 \<and>
     (\<forall>tr a bs x. xip E (tr @ [Flash (Flash_range_program a bs)]) (XIP_BASE E + x) =
        (if unat (x - a) < length bs then xip E tr (XIP_BASE E + x) AND bs ! unat (x - a)
         else xip E tr (XIP_BASE E + x))) \<and>
     (\<forall>tr a n x. xip E (tr @ [Flash (Flash_range_erase a n)]) (XIP_BASE E + x) =
        (if x - a < n then 0xff else xip E tr (XIP_BASE E + x))) \<and>
     (\<forall>tr c x. (\<forall>f. c \<noteq> Flash f) \<longrightarrow> xip E (tr @ [c]) x = xip E tr x)"

definition chip :: "plat \<Rightarrow> 'a flash_scheme \<Rightarrow> u32 \<Rightarrow> u8" where
  "chip E s x = xip E (trace s) (XIP_BASE E + x)"

text \<open>What a reader sees at offset \<open>x\<close> once the buffer is written back.\<close>

definition flash_view :: "plat \<Rightarrow> 'a flash_scheme \<Rightarrow> u32 \<Rightarrow> u8" where
  "flash_view E s x =
     (if last_page_addr s \<noteq> 0 \<and> unat (x - last_page_addr s) < 256
      then flash_page_buf s ! unat (x - last_page_addr s) else chip E s x)"

text \<open>The buffer holds a page of the chip, changed at erased bytes only.\<close>

definition flash_inv :: "plat \<Rightarrow> 'a flash_scheme \<Rightarrow> bool" where
  "flash_inv E s \<longleftrightarrow> flash_chip E \<and>
     (last_page_addr s \<noteq> 0 \<longrightarrow> length (flash_page_buf s) = 256 \<and>
        (\<forall>x. unat (x - last_page_addr s) < 256 \<longrightarrow> chip E s x = 0xff \<or> flash_view E s x = chip E s x))"

lemma flash_chip_consts: "flash_chip E \<Longrightarrow> FLASH_PAGE_SIZE E = 256" "flash_chip E \<Longrightarrow> XIP_BASE E = 0x10000000"
  by (simp_all add: flash_chip_def)

lemma xip_program: "flash_chip E \<Longrightarrow>
    xip E (tr @ [Flash (Flash_range_program a bs)]) (XIP_BASE E + x) =
      (if unat (x - a) < length bs then xip E tr (XIP_BASE E + x) AND bs ! unat (x - a)
       else xip E tr (XIP_BASE E + x))"
  unfolding flash_chip_def by blast

lemma xip_erase: "flash_chip E \<Longrightarrow>
    xip E (tr @ [Flash (Flash_range_erase a n)]) (XIP_BASE E + x) =
      (if x - a < n then 0xff else xip E tr (XIP_BASE E + x))"
  unfolding flash_chip_def by blast

lemma xip_Cpu: "flash_chip E \<Longrightarrow> xip E (tr @ [Cpu i]) x = xip E tr x"
  by (simp add: flash_chip_def)

lemma chip_target_disable_irq: "flash_chip E \<Longrightarrow> chip E (target_disable_irq s) x = chip E s x"
  by (simp add: chip_def target_disable_irq_def xip_Cpu)

lemma chip_target_enable_irq: "flash_chip E \<Longrightarrow> chip E (target_enable_irq s) x = chip E s x"
  by (simp add: chip_def target_enable_irq_def xip_Cpu)

lemma irq_keeps_flash [simp]:
  "last_page_addr (target_disable_irq s) = last_page_addr s"
  "flash_page_buf (target_disable_irq s) = flash_page_buf s"
  "last_page_addr (target_enable_irq s) = last_page_addr s"
  "flash_page_buf (target_enable_irq s) = flash_page_buf s"
  by (simp_all add: irq_defs)

lemma chip_update [simp]:
  "chip E (s\<lparr>last_page_addr := a\<rparr>) = chip E s" "chip E (s\<lparr>flash_page_buf := b\<rparr>) = chip E s"
  by (simp_all add: chip_def fun_eq_iff)

lemma chip_emit_program: "flash_chip E \<Longrightarrow>
    chip E (s\<lparr>trace := trace s @ [Flash (Flash_range_program a bs)]\<rparr>) x =
      (if unat (x - a) < length bs then chip E s x AND bs ! unat (x - a) else chip E s x)"
  by (simp add: chip_def xip_program)

lemma chip_emit_erase: "flash_chip E \<Longrightarrow>
    chip E (s\<lparr>trace := trace s @ [Flash (Flash_range_erase a n)]\<rparr>) x =
      (if x - a < n then 0xff else chip E s x)"
  by (simp add: chip_def xip_erase)

lemmas chip_simps = chip_target_disable_irq chip_target_enable_irq chip_emit_program chip_emit_erase

section \<open>Writing the buffer back\<close>

lemma last_page_addr_sync [simp]: "last_page_addr (flash_sync s) = 0"
  by (simp add: flash_sync_def)

lemma ff_and: "0xff AND b = b" for b :: u8
proof -
  have "(0xff :: u8) = - 1" by simp
  then show ?thesis by (simp only: and.left_neutral)
qed

lemma chip_flash_sync:
  assumes "flash_inv E s"
  shows "chip E (flash_sync s) x = flash_view E s x"
proof -
  have fc: "flash_chip E" using assms by (simp add: flash_inv_def)
  show ?thesis
  proof (cases "last_page_addr s \<noteq> 0 \<and> unat (x - last_page_addr s) < 256")
    case True
    then have "chip E s x = 0xff \<or> flash_view E s x = chip E s x" and len: "length (flash_page_buf s) = 256"
      using assms by (auto simp: flash_inv_def)
    then have "chip E s x AND flash_view E s x = flash_view E s x"
      by (auto simp: ff_and)
    with True len fc show ?thesis
      by (simp add: flash_sync_def flash_view_def chip_simps)
  next
    case False
    with fc assms show ?thesis
      by (auto simp: flash_sync_def flash_view_def chip_simps flash_inv_def)
  qed
qed

lemma flash_inv_sync: "flash_inv E s \<Longrightarrow> flash_inv E (flash_sync s)"
  by (simp add: flash_inv_def)

lemma flash_view_sync: "flash_inv E s \<Longrightarrow> flash_view E (flash_sync s) x = flash_view E s x"
  by (simp add: flash_view_def [of _ "flash_sync s"] chip_flash_sync)

section \<open>Programming within one page\<close>

lemma page_split: "(a AND NOT 255) + (a AND 255) = a" for a :: u32
proof -
  have "(a AND NOT 255) + (a AND 255) = (a AND NOT 255) OR (a AND 255)"
    by (rule disjunctive_add_eq_or, rule bit_word_eqI) (auto simp: bit_simps)
  also have "\<dots> = a"
    by (rule bit_word_eqI) (auto simp: bit_simps)
  finally show ?thesis .
qed

lemma unat_page_offset: "unat (a AND 255) = unat a mod 256" for a :: u32
proof -
  have "a AND 255 = a mod 256"
    using word_mod_2p_is_mask [of 8 a] by (simp add: mask_eq_exp_minus_1)
  then show ?thesis by (simp add: unat_mod_distrib)
qed

text \<open>A range of less than a page that starts and ends in the same page fits its buffer.\<close>

lemma same_page_fits:
  fixes a l :: u32
  assumes "0 < l" "unat a + unat l \<le> 2 ^ 31" "a div 256 = (a + l - 1) div 256"
  shows "unat (a AND 255) + unat l \<le> 256"
proof -
  have "0 < unat l" using assms(1) by (simp add: word_less_nat_alt)
  then have "a + l - 1 = of_nat (unat a + unat l - 1)"
    by (simp add: of_nat_diff)
  then have "unat (a + l - 1) = unat a + unat l - 1"
    using assms(2) by (simp add: unsigned_of_nat take_bit_nat_eq_self del: of_nat_diff)
  then have "unat a div 256 = (unat a + unat l - 1) div 256"
    using arg_cong [OF assms(3), of unat] by (simp add: unat_div_distrib)
  with \<open>0 < unat l\<close> show ?thesis
    unfolding unat_page_offset
    using dividend_less_times_div [of 256 "unat a + unat l - 1"] mult_div_mod_eq [of 256 "unat a"]
    by linarith
qed

lemma page_copy_loop_run:
  assumes "length (flash_page_buf s) = 256" "unat dp + n \<le> 256"
    and "\<And>j. i \<le> j \<Longrightarrow> j < n \<Longrightarrow> xip E (trace s) (dst + (dp + of_nat j)) = 0xff"
  shows "page_copy_loop E dst dp src [i..<n] s =
    Inr (s\<lparr>flash_page_buf := map (\<lambda>k. if unat dp + i \<le> k \<and> k < unat dp + n then src (k - unat dp)
       else flash_page_buf s ! k) [0..<256]\<rparr>)"
  using assms
proof (induction "n - i" arbitrary: i s)
  case 0
  have "map (\<lambda>k. if unat dp + i \<le> k \<and> k < unat dp + n then src (k - unat dp) else flash_page_buf s ! k) [0..<256]
      = flash_page_buf s"
    using 0 by (intro nth_equalityI) auto
  then show ?case
    using 0 by simp
next
  case (Suc m)
  let ?s = "s\<lparr>flash_page_buf := (flash_page_buf s)[unat dp + i := src i]\<rparr>"
  have i: "i < n" using Suc.hyps(2) by simp
  have idx: "unat (dp + of_nat i) = unat dp + i"
    using Suc.prems(2) i by (simp add: unat_word_ariths unsigned_of_nat take_bit_nat_eq_self)
  have "page_copy_loop E dst dp src [i..<n] s = page_copy_loop E dst dp src [Suc i..<n] ?s"
    using i Suc.prems by (simp add: upt_conv_Cons idx)
  also have "\<dots> = Inr (?s\<lparr>flash_page_buf := map (\<lambda>k. if unat dp + Suc i \<le> k \<and> k < unat dp + n
      then src (k - unat dp) else flash_page_buf ?s ! k) [0..<256]\<rparr>)"
    using Suc.hyps(2) Suc.prems by (intro Suc.hyps(1)) auto
  also have "\<dots> = Inr (s\<lparr>flash_page_buf := map (\<lambda>k. if unat dp + i \<le> k \<and> k < unat dp + n
      then src (k - unat dp) else flash_page_buf s ! k) [0..<256]\<rparr>)"
    using i Suc.prems(1,2) by (auto simp: nth_list_update)
  finally show ?case .
qed

text \<open>
  What programming a range means on the array of bytes: the range takes the
  data, nothing else changes.
\<close>

definition overwrite :: "u32 \<Rightarrow> nat \<Rightarrow> (nat \<Rightarrow> u8) \<Rightarrow> (u32 \<Rightarrow> u8) \<Rightarrow> u32 \<Rightarrow> u8" where
  "overwrite a n src v x = (if unat (x - a) < n then src (unat (x - a)) else v x)"

text \<open>Loading the buffer with a page.\<close>

definition load_page :: "plat \<Rightarrow> u32 \<Rightarrow> 'a flash_scheme \<Rightarrow> 'a flash_scheme" where
  "load_page E p s =
     (if last_page_addr s \<noteq> p
      then (let s = flash_sync s; s = s\<lparr>last_page_addr := p\<rparr>
            in s\<lparr>flash_page_buf := map (\<lambda>i. xip E (trace s) (XIP_BASE E + p + of_nat i)) [0..<256]\<rparr>)
      else s)"

lemma load_page_view:
  assumes "flash_inv E s" "p \<noteq> 0"
  shows "flash_inv E (load_page E p s) \<and> last_page_addr (load_page E p s) = p \<and>
    flash_view E (load_page E p s) = flash_view E s"
proof (cases "last_page_addr s = p")
  case True
  with assms show ?thesis by (simp add: load_page_def)
next
  case False
  let ?s = "flash_sync s"
  have buf: "map (\<lambda>i. xip E (trace ?s) (XIP_BASE E + p + of_nat i)) [0..<256] ! unat (x - p) = chip E ?s x"
    if "unat (x - p) < 256" for x
    using that by (simp add: chip_def add.assoc)
  have "flash_view E (load_page E p s) x = flash_view E ?s x" for x
    using False assms(2) buf by (simp add: load_page_def flash_view_def)
  moreover have "flash_inv E (load_page E p s)"
    using False assms buf by (auto simp: load_page_def flash_inv_def flash_view_def)
  ultimately show ?thesis
    using False assms by (auto simp: load_page_def flash_view_sync fun_eq_iff)
qed

lemma view_erased_chip:
  assumes "flash_inv E s" "flash_view E s x = 0xff"
  shows "chip E s x = 0xff"
  using assms by (auto simp: flash_inv_def flash_view_def split: if_splits)

lemma unat_u32: "unat w < 2 ^ 32" for w :: u32
  using unsigned_less [of w] by simp

lemma nat_u32_small: "j < unat w \<Longrightarrow> unat (of_nat j :: u32) = j" for w :: u32
  using unat_u32 [of w] by (simp add: unsigned_of_nat take_bit_nat_eq_self)

lemma range_in_page:
  fixes x a p d :: u32
  assumes "a = p + d" "unat d + n \<le> 256"
  shows "unat (x - a) < n \<longleftrightarrow> unat d \<le> unat (x - p) \<and> unat (x - p) < unat d + n"
    and "unat d \<le> unat (x - p) \<Longrightarrow> unat (x - a) = unat (x - p) - unat d"
proof -
  have eq: "x - a = (x - p) - d" using assms(1) by simp
  show sub: "unat (x - a) = unat (x - p) - unat d" if "unat d \<le> unat (x - p)"
    using that unfolding eq by (simp add: unat_sub word_le_nat_alt)
  show "unat (x - a) < n \<longleftrightarrow> unat d \<le> unat (x - p) \<and> unat (x - p) < unat d + n"
  proof (cases "unat d \<le> unat (x - p)")
    case True
    then show ?thesis using sub by auto
  next
    case False
    have "unat (x - a) = 2 ^ 32 + unat (x - p) - unat d"
      using False unfolding eq by (subst unat_sub_if_size) (simp add: word_size)
    moreover have "unat d < 2 ^ 32" by (rule unat_u32)
    ultimately show ?thesis using False assms(2) by simp
  qed
qed

lemma flash_program_page_run:
  assumes inv: "flash_inv E s" and len: "0 < len" "len < 256" and bound: "unat addr + unat len \<le> 2 ^ 31"
    and page: "addr div 256 = (addr + len - 1) div 256" "addr AND NOT 255 \<noteq> 0"
    and erased: "\<And>x. unat (x - addr) < unat len \<Longrightarrow> flash_view E s x = 0xff"
  shows "\<exists>s'. flash_program_page E addr src len s = Inr s' \<and> flash_inv E s' \<and>
    flash_view E s' = overwrite addr (unat len) src (flash_view E s)"
proof -
  define p where "p = addr AND NOT 255"
  define d where "d = addr AND 255"
  define s1 where "s1 = load_page E p s"
  have addr: "addr = p + d"
    unfolding p_def d_def by (rule page_split [symmetric])
  have fits: "unat d + unat len \<le> 256"
    unfolding d_def by (rule same_page_fits [OF len(1) bound page(1)])
  note rng = range_in_page [OF addr fits]
  have s1: "flash_inv E s1" "last_page_addr s1 = p" "flash_view E s1 = flash_view E s"
    using load_page_view [OF inv, of p] page(2) by (simp_all add: s1_def p_def)
  have p0: "p \<noteq> 0" using page(2) by (simp add: p_def)
  have fc: "flash_chip E" and buf: "length (flash_page_buf s1) = 256"
    using s1(1,2) p0 by (auto simp: flash_inv_def)
  have chip1: "chip E s1 x = 0xff" if "unat (x - addr) < unat len" for x
    using view_erased_chip [OF s1(1)] erased [OF that] s1(3) by simp
  have "xip E (trace s1) (XIP_BASE E + p + (d + of_nat j)) = 0xff" if "j < unat len" for j
  proof -
    have "unat (addr + of_nat j - addr) < unat len"
      using that nat_u32_small [of j len] by simp
    from chip1 [OF this] show ?thesis
      by (simp add: chip_def addr algebra_simps)
  qed
  note run = page_copy_loop_run [OF buf fits, of 0 E "XIP_BASE E + p" src, OF this]
  define s' where "s' = s1\<lparr>flash_page_buf := map (\<lambda>k. if unat d + 0 \<le> k \<and> k < unat d + unat len
    then src (k - unat d) else flash_page_buf s1 ! k) [0..<256]\<rparr>"
  have "flash_program_page E addr src len s = page_copy_loop E (XIP_BASE E + p) d src [0..<unat len] s1"
    using len(2) page(1)
    by (simp add: flash_program_page_def flash_chip_consts [OF fc] s1_def load_page_def p_def d_def)
  then have prog: "flash_program_page E addr src len s = Inr s'"
    using run by (simp only: s'_def)
  have view: "flash_view E s' x = overwrite addr (unat len) src (flash_view E s1) x" for x
    using rng [of x] s1(2) p0 fits by (auto simp: flash_view_def overwrite_def s'_def)
  have "chip E s' x = 0xff \<or> flash_view E s' x = chip E s' x" if "unat (x - p) < 256" for x
  proof (cases "unat (x - addr) < unat len")
    case True
    then show ?thesis using chip1 [of x] by (simp add: s'_def)
  next
    case False
    then have "flash_view E s' x = flash_view E s1 x" "chip E s' x = chip E s1 x"
      by (simp_all add: view overwrite_def) (simp add: s'_def)
    then show ?thesis using s1(1,2) p0 that by (auto simp: flash_inv_def)
  qed
  then have "flash_inv E s'"
    using fc s1(2) p0 by (simp add: flash_inv_def s'_def)
  with prog view s1(3) show ?thesis by auto
qed

section \<open>Programming a range\<close>

text \<open>The number of bytes up to the end of the range or of the page.\<close>

definition chunk :: "u32 \<Rightarrow> u32 \<Rightarrow> u32" where
  "chunk off len = (let n = 256 - (off AND 255) in if len < n then len else n)"

lemma unat_chunk: "unat (chunk off len) = min (unat len) (256 - unat off mod 256)"
proof -
  have "unat (256 - (off AND 255)) = 256 - unat off mod 256"
    by (subst unat_sub) (simp_all add: word_le_nat_alt unat_page_offset)
  then show ?thesis
    by (simp add: chunk_def word_less_nat_alt)
qed

lemma overwrite_split:
  assumes "n + m \<le> 2 ^ 32" "n = unat k"
  shows "overwrite (a + k) m (\<lambda>i. src (n + i)) (overwrite a n src v) = overwrite a (n + m) src v"
proof
  fix x
  have rel: "x - (a + k) = (x - a) - k" by simp
  show "overwrite (a + k) m (\<lambda>i. src (n + i)) (overwrite a n src v) x = overwrite a (n + m) src v x"
  proof (cases "n \<le> unat (x - a)")
    case True
    then have "unat (x - (a + k)) = unat (x - a) - n"
      using assms(2) unfolding rel by (simp add: unat_sub word_le_nat_alt)
    with True show ?thesis by (auto simp: overwrite_def)
  next
    case False
    then have "unat (x - (a + k)) = 2 ^ 32 + unat (x - a) - n"
      using assms(2) unfolding rel by (subst unat_sub_if_size) (simp add: word_size)
    then have "m \<le> unat (x - (a + k))" using assms(1) by linarith
    with False show ?thesis by (simp add: overwrite_def)
  qed
qed

lemma next_range:
  fixes x a k l :: u32
  assumes "unat (x - (a + k)) < unat (l - k)" "unat k \<le> unat l"
  shows "unat (x - a) < unat l" "\<not> unat (x - a) < unat k"
proof -
  have "unat (x - a) = unat (x - (a + k)) + unat k"
  proof -
    have "unat (x - a) = unat ((x - (a + k)) + k)" by simp
    moreover have "unat (x - (a + k)) + unat k < 2 ^ 32"
      using assms unat_u32 [of l] by (simp add: unat_sub word_le_nat_alt)
    ultimately show ?thesis by (simp only: unat_word_ariths) simp
  qed
  with assms show "unat (x - a) < unat l" "\<not> unat (x - a) < unat k"
    by (simp_all add: unat_sub word_le_nat_alt)
qed

lemma high_page: "addr AND NOT 255 \<noteq> 0" if "256 \<le> unat addr" for addr :: u32
proof
  assume "addr AND NOT 255 = 0"
  then have "addr = addr AND 255" using page_split [of addr] by simp
  then have "unat addr = unat addr mod 256" using unat_page_offset [of addr] by simp
  with that show False by (metis mod_less_divisor not_le zero_less_numeral)
qed

lemma same_page_chunk:
  fixes off n :: u32
  assumes "0 < n" "unat off mod 256 + unat n \<le> 256" "unat off + unat n \<le> 2 ^ 31"
  shows "off div 256 = (off + n - 1) div 256"
proof -
  have "0 < unat n" using assms(1) by (simp add: word_less_nat_alt)
  then have "off + n - 1 = of_nat (unat off + unat n - 1)" by (simp add: of_nat_diff)
  then have "unat (off + n - 1) = unat off + unat n - 1"
    using assms(3) by (simp add: unsigned_of_nat take_bit_nat_eq_self del: of_nat_diff)
  moreover have "(unat off + unat n - 1) div 256 = unat off div 256"
    using assms(2) \<open>0 < unat n\<close> mult_div_mod_eq [of 256 "unat off"]
    by (intro div_nat_eqI) (unfold mult_Suc_right, linarith+)
  ultimately have "unat (off div 256) = unat ((off + n - 1) div 256)"
    by (simp add: unat_div_distrib)
  then show ?thesis by (rule word_unat_eq_iff [THEN iffD2])
qed

lemma flash_program_loop_step:
  assumes inv: "flash_inv E s" and len: "0 < len" "unat (chunk off len) < 256"
    and bound: "256 \<le> unat off" "unat off + unat len \<le> 2 ^ 31"
    and erased: "\<And>x. unat (x - off) < unat len \<Longrightarrow> flash_view E s x = 0xff"
  obtains s' where "flash_inv E s'"
    "flash_view E s' = overwrite off (unat (chunk off len)) src (flash_view E s)"
    "flash_program_loop E off src len s =
       flash_program_loop E (off + chunk off len) (\<lambda>i. src (unat (chunk off len) + i)) (len - chunk off len) s'"
proof -
  let ?n = "chunk off len"
  have fc: "flash_chip E" using inv by (simp add: flash_inv_def)
  have n: "unat ?n \<le> unat len" "unat off mod 256 + unat ?n \<le> 256" "0 < unat ?n"
    using len(1) by (auto simp: unat_chunk word_less_nat_alt)
  then have "0 < ?n" "?n < 256" "unat off + unat ?n \<le> 2 ^ 31"
    using len(2) bound(2) by (simp_all add: word_less_nat_alt)
  moreover note same_page_chunk [OF \<open>0 < ?n\<close> n(2) this(3)] high_page [OF bound(1)]
  moreover have "flash_view E s x = 0xff" if "unat (x - off) < unat ?n" for x
    using erased that n(1) by simp
  ultimately obtain s' where s': "flash_program_page E off src ?n s = Inr s'" "flash_inv E s'"
    "flash_view E s' = overwrite off (unat ?n) src (flash_view E s)"
    using flash_program_page_run [OF inv] by metis
  with len(1) show thesis
    by (intro that [OF s'(2,3)], subst flash_program_loop.simps)
      (simp add: flash_chip_consts [OF fc] chunk_def)
qed

text \<open>The range \<open>[off, off + len)\<close> holds no whole page of the flash.\<close>

definition no_whole_page :: "nat \<Rightarrow> nat \<Rightarrow> bool" where
  "no_whole_page off len \<longleftrightarrow> len < 256 + (256 - off mod 256) mod 256"

lemma flash_program_loop_done: "flash_program_loop E off src 0 s = Some (Inr s)"
  by (subst flash_program_loop.simps) simp

lemma unat_rest: "unat (len - chunk off len) = unat len - unat (chunk off len)"
  by (rule unat_sub) (simp add: word_le_nat_alt unat_chunk)

lemma unat_next:
  assumes "unat off + unat len \<le> 2 ^ 31"
  shows "unat (off + chunk off len) = unat off + unat (chunk off len)"
proof -
  have "unat (chunk off len) \<le> unat len" by (simp add: unat_chunk)
  with assms show ?thesis by (simp add: unat_word_ariths)
qed

lemma next_page: "a + (256 - a mod 256) = 256 * (a div 256 + 1)" for a :: nat
proof -
  define q r where "q = a div 256" and "r = a mod 256"
  have "a = 256 * q + r" "r < 256" by (simp_all add: q_def r_def)
  then show ?thesis by (simp flip: q_def r_def)
qed

lemma no_whole_page_next:
  assumes "unat off + unat len \<le> 2 ^ 31" "no_whole_page (unat off) (unat len)" "len - chunk off len \<noteq> 0"
  shows "unat off mod 256 \<noteq> 0" "unat (off + chunk off len) mod 256 = 0" "unat (len - chunk off len) < 256"
proof -
  have rest: "0 < unat (len - chunk off len)" using assms(3) by (simp add: unat_gt_0)
  then have *: "unat (chunk off len) = 256 - unat off mod 256" and gt: "256 - unat off mod 256 < unat len"
    by (simp_all add: unat_rest unat_chunk)
  show nz: "unat off mod 256 \<noteq> 0"
    using assms(2) gt by (intro notI) (simp add: no_whole_page_def)
  show "unat (off + chunk off len) mod 256 = 0"
    unfolding unat_next [OF assms(1)] * next_page by simp
  show "unat (len - chunk off len) < 256"
    using assms(2) nz unfolding unat_rest * no_whole_page_def by auto
qed

lemma no_whole_page_chunk:
  "no_whole_page (unat off) (unat len) \<Longrightarrow> unat (chunk off len) < 256"
  by (cases "unat off mod 256 = 0") (auto simp: no_whole_page_def unat_chunk)

lemma flash_program_loop_run:
  assumes inv: "flash_inv E s" and bound: "256 \<le> unat off" "unat off + unat len \<le> 2 ^ 31"
    and whole: "no_whole_page (unat off) (unat len)"
    and erased: "\<And>x. unat (x - off) < unat len \<Longrightarrow> flash_view E s x = 0xff"
  shows "\<exists>s'. flash_program_loop E off src len s = Some (Inr s') \<and> flash_inv E s' \<and>
    flash_view E s' = overwrite off (unat len) src (flash_view E s)"
  using assms
proof (induction "unat len" arbitrary: off src len s rule: less_induct)
  case less
  show ?case
  proof (cases "len = 0")
    case True
    with less.prems show ?thesis
      by (auto simp: flash_program_loop_done overwrite_def fun_eq_iff)
  next
    case False
    let ?n = "chunk off len"
    have len: "0 < len" using False by (simp add: word_neq_0_conv)
    obtain s1 where s1: "flash_inv E s1"
      "flash_view E s1 = overwrite off (unat ?n) src (flash_view E s)"
      "flash_program_loop E off src len s =
         flash_program_loop E (off + ?n) (\<lambda>i. src (unat ?n + i)) (len - ?n) s1"
      using flash_program_loop_step [OF less.prems(1) len no_whole_page_chunk [OF less.prems(4)] less.prems(2,3,5)]
      by blast
    have n: "0 < unat ?n" "unat ?n \<le> unat len"
      using len by (simp_all add: unat_chunk word_less_nat_alt)
    have "\<exists>s'. flash_program_loop E (off + ?n) (\<lambda>i. src (unat ?n + i)) (len - ?n) s1 = Some (Inr s') \<and>
        flash_inv E s' \<and> flash_view E s' =
          overwrite (off + ?n) (unat (len - ?n)) (\<lambda>i. src (unat ?n + i)) (flash_view E s1)"
    proof (rule less.hyps)
      show "unat (len - ?n) < unat len" using n by (simp add: unat_rest)
      show "no_whole_page (unat (off + ?n)) (unat (len - ?n))"
        using no_whole_page_next [OF less.prems(3,4)] by (cases "len - ?n = 0") (simp_all add: no_whole_page_def)
      show "flash_view E s1 x = 0xff" if "unat (x - (off + ?n)) < unat (len - ?n)" for x
        using s1(2) less.prems(3,5) next_range [OF that n(2)] by (simp add: overwrite_def)
    qed (use s1(1) less.prems n in \<open>simp_all add: unat_next unat_rest\<close>)
    with s1(2,3) n less.prems(3) show ?thesis
      by (auto simp: overwrite_split unat_rest)
  qed
qed

lemma whole_page_asserts:
  assumes "flash_chip E" "unat off mod 256 = 0" "256 \<le> unat len"
  shows "flash_program_loop E off src len s = Some (Inl Assert_failed)"
proof -
  have n: "unat (chunk off len) = 256" using assms by (simp add: unat_chunk)
  then have "chunk off len = 256"
    by (simp add: word_unat_eq_iff)
  moreover have "0 < len" using assms(3) by (simp add: word_less_nat_alt)
  ultimately show ?thesis
    by (subst flash_program_loop.simps)
      (simp add: flash_chip_consts [OF assms(1)] chunk_def flash_program_page_def jd_assert_def)
qed

lemma flash_program_loop_asserts:
  assumes inv: "flash_inv E s" and bound: "256 \<le> unat off" "unat off + unat len \<le> 2 ^ 31"
    and whole: "\<not> no_whole_page (unat off) (unat len)"
    and erased: "\<And>x. unat (x - off) < unat len \<Longrightarrow> flash_view E s x = 0xff"
  shows "flash_program_loop E off src len s = Some (Inl Assert_failed)"
proof (cases "unat off mod 256 = 0")
  case True
  with inv whole show ?thesis
    by (intro whole_page_asserts) (auto simp: flash_inv_def no_whole_page_def)
next
  case False
  then have ge: "512 - unat off mod 256 \<le> unat len" and lt: "unat off mod 256 < 256"
    using whole by (auto simp: no_whole_page_def)
  then have n: "unat (chunk off len) = 256 - unat off mod 256" and len: "0 < len"
    by (auto simp: unat_chunk word_less_nat_alt)
  with False have "unat (chunk off len) < 256" by simp
  from flash_program_loop_step [OF inv len this bound erased]
  obtain s1 where s1: "flash_program_loop E off src len s =
       flash_program_loop E (off + chunk off len) (\<lambda>i. src (unat (chunk off len) + i)) (len - chunk off len) s1"
    by blast
  have "unat (off + chunk off len) mod 256 = 0"
    unfolding unat_next [OF bound(2)] n next_page by simp
  moreover have "256 \<le> unat (len - chunk off len)"
    using ge lt unfolding unat_rest n by linarith
  ultimately show ?thesis
    unfolding s1 using inv by (intro whole_page_asserts) (simp_all add: flash_inv_def)
qed

section \<open>The settings area as a store\<close>

text \<open>The settings area is indexed from its start.\<close>

definition storage_program :: "plat \<Rightarrow> u32 \<Rightarrow> (nat \<Rightarrow> u8) \<Rightarrow> u32 \<Rightarrow> 'a flash_scheme \<Rightarrow> 'a flash_scheme res" where
  "storage_program E x = flash_program E (XIP_BASE E + SPI_STORAGE_OFFSET + x)"

definition storage_view :: "plat \<Rightarrow> 'a flash_scheme \<Rightarrow> u32 \<Rightarrow> u8" where
  "storage_view E s x = flash_view E s (SPI_STORAGE_OFFSET + x)"

definition storage_chip :: "plat \<Rightarrow> 'a flash_scheme \<Rightarrow> u32 \<Rightarrow> u8" where
  "storage_chip E s x = chip E s (SPI_STORAGE_OFFSET + x)"

definition in_storage :: "u32 \<Rightarrow> u32 \<Rightarrow> bool" where
  "in_storage x len \<longleftrightarrow> unat x + unat len \<le> 131072 \<and> unat x mod 8 = 0"

lemma unat_and_7: "unat (a AND 7) = unat a mod 8" for a :: u32
proof -
  have "a AND 7 = a mod 8"
    using word_mod_2p_is_mask [of 3 a] by (simp add: mask_eq_exp_minus_1)
  then show ?thesis by (simp add: unat_mod_distrib)
qed

lemma unat_storage: "unat x \<le> 131072 \<Longrightarrow> unat (SPI_STORAGE_OFFSET + x) = 917504 + unat x"
  by (simp add: storage_consts unat_word_ariths)

lemma sint_storage: "unat x \<le> 131072 \<Longrightarrow> sint x = int (unat x)" for x :: u32
proof -
  assume "unat x \<le> 131072"
  then have "uint x \<le> 131072" by (simp only: uint_nat)
  moreover have "0 \<le> uint x" by simp
  ultimately have "signed_take_bit 31 (uint x) = uint x"
    by (intro signed_take_bit_int_eq_self) (simp_all add: order_trans [of _ 0])
  then show ?thesis using sint_uint [of x] by simp
qed

lemma storage_program_loop:
  assumes "in_storage x len"
  shows "storage_program E x src len s =
    bindE (of_loop (flash_program_loop E (SPI_STORAGE_OFFSET + x) src len s)) (\<lambda>r. r)"
proof -
  have x: "unat x \<le> 131072" using assms by (simp add: in_storage_def)
  have "unat (x + len) = unat x + unat len"
    using assms by (simp add: in_storage_def unat_word_ariths)
  then have "x + len \<le> SPI_STORAGE_SIZE"
    using assms by (simp add: in_storage_def storage_consts word_le_nat_alt)
  moreover have "x AND 7 = 0"
    using assms by (simp add: in_storage_def word_unat_eq_iff unat_and_7)
  moreover have "0 \<le> sint x" using sint_storage [OF x] by simp
  ultimately show ?thesis
    by (simp add: storage_program_def flash_program_def add.commute)
qed

text \<open>A sequence of writes, each to an erased range at the time it is made.\<close>

type_synonym flash_write = "u32 \<times> (nat \<Rightarrow> u8) \<times> u32"

fun run_writes :: "(u32 \<Rightarrow> (nat \<Rightarrow> u8) \<Rightarrow> u32 \<Rightarrow> 's \<Rightarrow> 's res) \<Rightarrow> flash_write list \<Rightarrow> 's \<Rightarrow> 's res" where
  "run_writes program [] s = Inr s"
| "run_writes program ((x, src, len) # ws) s = bindE (program x src len s) (run_writes program ws)"

fun overwrite_all :: "flash_write list \<Rightarrow> (u32 \<Rightarrow> u8) \<Rightarrow> u32 \<Rightarrow> u8" where
  "overwrite_all [] v = v"
| "overwrite_all ((x, src, len) # ws) v = overwrite_all ws (overwrite x (unat len) src v)"

definition erased :: "(u32 \<Rightarrow> u8) \<Rightarrow> u32 \<Rightarrow> u32 \<Rightarrow> bool" where
  "erased v x len \<longleftrightarrow> (\<forall>y. unat (y - x) < unat len \<longrightarrow> v y = 0xff)"

fun writable :: "(u32 \<Rightarrow> u32 \<Rightarrow> bool) \<Rightarrow> flash_write list \<Rightarrow> (u32 \<Rightarrow> u8) \<Rightarrow> bool" where
  "writable ok [] v = True"
| "writable ok ((x, src, len) # ws) v =
     (ok x len \<and> erased v x len \<and> writable ok ws (overwrite x (unat len) src v))"

text \<open>
  The contract of a store with a write-back buffer: what a reader will see
  (\<open>view\<close>), what survives a reset (\<open>durable\<close>), and which writes are accepted.
\<close>

locale write_back_store =
  fixes inv :: "'s \<Rightarrow> bool"
    and view durable :: "'s \<Rightarrow> u32 \<Rightarrow> u8"
    and sync :: "'s \<Rightarrow> 's"
    and program :: "u32 \<Rightarrow> (nat \<Rightarrow> u8) \<Rightarrow> u32 \<Rightarrow> 's \<Rightarrow> 's res"
    and ok :: "u32 \<Rightarrow> u32 \<Rightarrow> bool"
  assumes sync_inv: "inv s \<Longrightarrow> inv (sync s)"
    and sync_durable: "inv s \<Longrightarrow> durable (sync s) = view s"
    and program_run: "inv s \<Longrightarrow> ok x len \<Longrightarrow> erased (view s) x len \<Longrightarrow>
      \<exists>s'. program x src len s = Inr s' \<and> inv s' \<and> view s' = overwrite x (unat len) src (view s)"
begin

lemma run_writes_view:
  "inv s \<Longrightarrow> writable ok ws (view s) \<Longrightarrow>
     \<exists>s'. run_writes program ws s = Inr s' \<and> inv s' \<and> view s' = overwrite_all ws (view s)"
proof (induction ws arbitrary: s)
  case (Cons w ws)
  obtain x src len where w: "w = (x, src, len)" by (cases w)
  from Cons.prems w obtain s1 where s1: "program x src len s = Inr s1" "inv s1"
    "view s1 = overwrite x (unat len) src (view s)"
    using program_run [of s x len src] by auto
  with Cons.IH [OF s1(2)] Cons.prems w show ?case by simp
qed simp

lemma run_writes_durable:
  assumes "inv s" "writable ok ws (view s)"
  shows "\<exists>s'. run_writes program ws s = Inr s' \<and> durable (sync s') = overwrite_all ws (view s)"
  using run_writes_view [OF assms] sync_durable by metis

end

lemma storage_erased:
  assumes "erased (storage_view E s) x len" "unat (y - (SPI_STORAGE_OFFSET + x)) < unat len"
  shows "flash_view E s y = 0xff"
proof -
  have "unat (y - SPI_STORAGE_OFFSET - x) < unat len" using assms(2) by (simp only: diff_diff_eq)
  then have "storage_view E s (y - SPI_STORAGE_OFFSET) = 0xff"
    using assms(1) unfolding erased_def by blast
  then show ?thesis by (simp add: storage_view_def)
qed

lemma storage_bounds:
  assumes "in_storage x len"
  shows "256 \<le> unat (SPI_STORAGE_OFFSET + x)" "unat (SPI_STORAGE_OFFSET + x) + unat len \<le> 2 ^ 31"
    "no_whole_page (unat (SPI_STORAGE_OFFSET + x)) n = no_whole_page (unat x) n"
proof -
  have x: "unat x \<le> 131072" using assms by (simp add: in_storage_def)
  show "256 \<le> unat (SPI_STORAGE_OFFSET + x)" "unat (SPI_STORAGE_OFFSET + x) + unat len \<le> 2 ^ 31"
    using assms by (simp_all add: unat_storage [OF x] in_storage_def)
  have "(917504 + unat x) mod 256 = unat x mod 256"
    by (subst mod_add_left_eq [symmetric]) simp
  then show "no_whole_page (unat (SPI_STORAGE_OFFSET + x)) n = no_whole_page (unat x) n"
    by (simp add: no_whole_page_def unat_storage [OF x])
qed

lemma storage_overwrite:
  "overwrite (SPI_STORAGE_OFFSET + x) n src (flash_view E s) (SPI_STORAGE_OFFSET + y) =
     overwrite x n src (storage_view E s) y"
  by (simp add: overwrite_def storage_view_def)

lemma storage_program_run:
  assumes "flash_inv E s" "in_storage x len \<and> no_whole_page (unat x) (unat len)"
    "erased (storage_view E s) x len"
  shows "\<exists>s'. storage_program E x src len s = Inr s' \<and> flash_inv E s' \<and>
    storage_view E s' = overwrite x (unat len) src (storage_view E s)"
proof -
  have st: "in_storage x len" using assms(2) by simp
  note b = storage_bounds [OF st]
  have "\<exists>s'. flash_program_loop E (SPI_STORAGE_OFFSET + x) src len s = Some (Inr s') \<and> flash_inv E s' \<and>
      flash_view E s' = overwrite (SPI_STORAGE_OFFSET + x) (unat len) src (flash_view E s)"
    using assms storage_erased by (intro flash_program_loop_run [OF assms(1) b(1,2)]) (simp_all add: b(3))
  then obtain s' where "flash_program_loop E (SPI_STORAGE_OFFSET + x) src len s = Some (Inr s')"
    "flash_inv E s'" "flash_view E s' = overwrite (SPI_STORAGE_OFFSET + x) (unat len) src (flash_view E s)"
    by blast
  then show ?thesis
    by (simp add: storage_program_loop [OF st] fun_eq_iff storage_view_def [of _ s'] storage_overwrite)
qed

interpretation settings: write_back_store "flash_inv E" "storage_view E" "storage_chip E" flash_sync
    "storage_program E" "\<lambda>x len. in_storage x len \<and> no_whole_page (unat x) (unat len)" for E
  by unfold_locales
    (fact flash_inv_sync, simp add: fun_eq_iff storage_chip_def storage_view_def chip_flash_sync,
     rule storage_program_run)

section \<open>Properties\<close>

text \<open>A concrete chip: the contents after a history, from an erased device.\<close>

definition chip_step :: "call \<Rightarrow> (u32 \<Rightarrow> u8) \<Rightarrow> u32 \<Rightarrow> u8" where
  "chip_step c m = (case c of Flash f \<Rightarrow> (case f of
       Flash_range_program a bs \<Rightarrow>
         (\<lambda>x. let o' = x - 0x10000000 - a in if unat o' < length bs then m x AND bs ! unat o' else m x)
     | Flash_range_erase a n \<Rightarrow> (\<lambda>x. if x - 0x10000000 - a < n then 0xff else m x))
   | _ \<Rightarrow> m)"

definition chip_plat :: plat where
  "chip_plat = sample_plat\<lparr>xip := (\<lambda>tr. fold chip_step tr (\<lambda>_. 0xff))\<rparr>"

lemma chip_plat_consts [simp]:
  "FLASH_PAGE_SIZE chip_plat = 256" "XIP_BASE chip_plat = 0x10000000"
  "xip chip_plat tr = fold chip_step tr (\<lambda>_. 0xff)"
  by (simp_all add: chip_plat_def)

lemma chip_plat_ok: "flash_chip chip_plat"
  by (auto simp: flash_chip_def chip_step_def split: call.split)

definition flash_reset :: flash where
  "flash_reset = \<lparr>trace = [], irq_disabled = 0, last_page_addr = 0, flash_page_buf = replicate 256 0\<rparr>"

lemma flash_reset_ok: "flash_inv chip_plat flash_reset" "storage_view chip_plat flash_reset = (\<lambda>_. 0xff)"
  by (simp_all add: flash_inv_def chip_plat_ok flash_reset_def storage_view_def flash_view_def chip_def fun_eq_iff)

text \<open>
  C6. Any sequence of \<open>flash_program\<close> calls that each stay inside the settings
  area, start at a multiple of 8, cover no whole page of the chip and write to
  bytes erased at that time runs without a failed assertion, whichever pages
  the calls touch and in which order (so the one-page buffer is written back
  and reloaded in between); and after a final \<open>flash_sync\<close> the chip holds
  exactly the data written, every other byte of the area being unchanged.
\<close>

theorem flash_writes_durable:
  assumes "flash_inv E s"
    and "writable (\<lambda>x len. in_storage x len \<and> no_whole_page (unat x) (unat len)) ws (storage_view E s)"
  shows "\<exists>s'. run_writes (storage_program E) ws s = Inr s' \<and>
    storage_chip E (flash_sync s') = overwrite_all ws (storage_view E s)"
  by (rule settings.run_writes_durable [OF assms])

theorem flash_writes_durable_witness:
  "\<exists>s'. run_writes (storage_program chip_plat) [(248, \<lambda>i. of_nat i, 16), (8, \<lambda>_. 7, 8)] flash_reset = Inr s' \<and>
     storage_chip chip_plat (flash_sync s') =
       overwrite_all [(248, \<lambda>i. of_nat i, 16), (8, \<lambda>_. 7, 8)] (storage_view chip_plat flash_reset)"
proof (rule flash_writes_durable [OF flash_reset_ok(1)])
  have "\<not> (unat (y - 248 :: u32) < 16 \<and> unat (y - 8) < 8)" for y :: u32
    by (auto simp: unat_word_ariths unat_sub_if_size word_size split: if_splits)
  then show "writable (\<lambda>x len. in_storage x len \<and> no_whole_page (unat x) (unat len))
      [(248, \<lambda>i. of_nat i, 16), (8, \<lambda>_. 7, 8)] (storage_view chip_plat flash_reset)"
    by (auto simp: flash_reset_ok in_storage_def no_whole_page_def erased_def overwrite_def)
qed

text \<open>
  C32. A range that contains a whole page of the chip is never programmed:
  the device panics on \<open>JD_ASSERT(len < FLASH_PAGE_SIZE)\<close> of
  \<open>flash_program_page\<close> when the loop of \<open>flash_program\<close> reaches that page, although
  the range is inside the settings area, aligned and erased.
\<close>

theorem flash_program_whole_page_panics:
  assumes "flash_inv E s" "in_storage x len" "\<not> no_whole_page (unat x) (unat len)"
    "erased (storage_view E s) x len"
  shows "flash_program E (XIP_BASE E + SPI_STORAGE_OFFSET + x) src len s = Inl Assert_failed"
proof -
  note b = storage_bounds [OF assms(2)]
  have "flash_program_loop E (SPI_STORAGE_OFFSET + x) src len s = Some (Inl Assert_failed)"
    using assms storage_erased by (intro flash_program_loop_asserts [OF assms(1) b(1,2)]) (simp_all add: b(3))
  then show ?thesis
    using storage_program_loop [OF assms(2), of E src s] by (simp add: storage_program_def)
qed

theorem flash_program_whole_page_panics_witness:
  "flash_program chip_plat (XIP_BASE chip_plat + SPI_STORAGE_OFFSET + 4096) (\<lambda>_. 0) 256 flash_reset = Inl Assert_failed"
  by (rule flash_program_whole_page_panics [OF flash_reset_ok(1)])
    (simp_all add: in_storage_def no_whole_page_def erased_def flash_reset_ok)

section \<open>Erasing\<close>

lemma irq_keeps_chip [simp]: "flash_chip E \<Longrightarrow> flash_view E (target_disable_irq s) = flash_view E s"
  "flash_chip E \<Longrightarrow> flash_view E (target_enable_irq s) = flash_view E s"
  by (simp_all add: flash_view_def fun_eq_iff chip_simps)

text \<open>The block of the settings area that starts at \<open>x\<close>, and the buffered page.\<close>

definition in_block :: "u32 \<Rightarrow> u32 \<Rightarrow> bool" where
  "in_block x y \<longleftrightarrow> y - (SPI_STORAGE_OFFSET + x) < JD_FLASH_PAGE_SIZE"

definition buffered :: "'a flash_scheme \<Rightarrow> u32 \<Rightarrow> bool" where
  "buffered s y \<longleftrightarrow> last_page_addr s \<noteq> 0 \<and> unat (y - last_page_addr s) < 256"

text \<open>
  C33. \<open>flash_erase\<close> on a block of the settings area succeeds, keeps the
  invariant, and erases exactly that block as far as the chip is concerned; but
  it does not look at the page buffer: the bytes of a page that is buffered at
  that moment stay as they were for every later reader after the next
  \<open>flash_sync\<close>, even when the page lies in the erased block.
\<close>

theorem flash_erase_effect:
  assumes "flash_inv E s" "unat x \<le> 126976" "unat x mod 4096 = 0"
  shows "\<exists>s'. flash_erase E (XIP_BASE E + SPI_STORAGE_OFFSET + x) s = Inr s' \<and> flash_inv E s' \<and>
    chip E s' = (\<lambda>y. if in_block x y then 0xff else chip E s y) \<and>
    chip E (flash_sync s') = (\<lambda>y. if in_block x y \<and> \<not> buffered s y then 0xff else flash_view E s y)"
proof -
  have fc: "flash_chip E" using assms(1) by (simp add: flash_inv_def)
  define s' where "s' = target_enable_irq (emit (Flash (Flash_range_erase (x + SPI_STORAGE_OFFSET) JD_FLASH_PAGE_SIZE))
    (target_disable_irq s))"
  have "sint x \<le> sint (SPI_STORAGE_SIZE - JD_FLASH_PAGE_SIZE)" "0 \<le> sint x"
    using assms(2) sint_storage [of x] nat_le_iff [of "uint x" 126976] by (simp_all add: storage_consts)
  moreover have "x AND (JD_FLASH_PAGE_SIZE - 1) = 0"
  proof -
    have "x AND 4095 = x mod 4096"
      using word_mod_2p_is_mask [of 12 x] by (simp add: mask_eq_exp_minus_1)
    then show ?thesis
      using assms(3) by (simp add: storage_consts word_unat_eq_iff unat_mod_distrib)
  qed
  ultimately have run: "flash_erase E (XIP_BASE E + SPI_STORAGE_OFFSET + x) s = Inr s'"
    by (simp add: flash_erase_def s'_def)
  have chip': "chip E s' y = (if in_block x y then 0xff else chip E s y)" for y
    using fc by (simp add: s'_def chip_simps in_block_def add.commute)
  have keep: "last_page_addr s' = last_page_addr s" "flash_page_buf s' = flash_page_buf s"
    by (simp_all add: s'_def)
  then have view': "flash_view E s' y = (if in_block x y \<and> \<not> buffered s y then 0xff else flash_view E s y)" for y
    by (auto simp: flash_view_def chip' buffered_def)
  have inv: "flash_inv E s'"
    using assms(1) fc by (auto simp: flash_inv_def keep view' chip')
  show ?thesis
    using run inv chip' chip_flash_sync [OF inv] view' by (auto simp: fun_eq_iff)
qed

text \<open>A buffered page of zeros in the block at 4096.\<close>

definition flash_dirty :: flash where
  "flash_dirty = flash_reset\<lparr>last_page_addr := SPI_STORAGE_OFFSET + 4096\<rparr>"

lemma flash_dirty_ok: "flash_inv chip_plat flash_dirty"
  by (simp add: flash_inv_def chip_plat_ok flash_dirty_def flash_reset_def chip_def)

theorem flash_erase_effect_witness:
  "\<exists>s'. flash_erase chip_plat (XIP_BASE chip_plat + SPI_STORAGE_OFFSET + 4096) flash_dirty = Inr s' \<and>
    chip chip_plat s' (SPI_STORAGE_OFFSET + 4096) = 0xff \<and>
    chip chip_plat (flash_sync s') (SPI_STORAGE_OFFSET + 4096) = 0"
proof -
  have "buffered flash_dirty (SPI_STORAGE_OFFSET + 4096)" "in_block 4096 (SPI_STORAGE_OFFSET + 4096)"
    "flash_view chip_plat flash_dirty (SPI_STORAGE_OFFSET + 4096) = 0"
    by (simp_all add: buffered_def in_block_def flash_view_def flash_dirty_def flash_reset_def storage_consts)
  then show ?thesis
    using flash_erase_effect [OF flash_dirty_ok, of 4096] by auto
qed

end
