(* ===== verification/Sws_Pio.thy ===== *)
theory Sws_Pio
  imports Prelude
begin

text \<open>
  \<open>sws.pio\<close>: the two programs of the RP2040's programmable I/O block that send and
  receive the bytes of the single-wire link, and the state machine that runs
  them, cycle by cycle. The state machine has what the programs use: program
  counter, delay, scratch register X, the two shift registers, the FIFOs, one
  output pin, the interrupt flags and the sticky stall flag. It is configured
  as \<open>jd_tx_program_init\<close> and \<open>jd_rx_program_init\<close> of \<open>uart.c\<close> do: both shift to the
  right, the transmitter pulls explicitly, the receiver pushes automatically
  after 8 bits, its receive FIFO has 8 entries, and one bit takes 8 cycles. The
  optional side-set of the receiver drives a debug pin only and has no effect
  here.
\<close>

section \<open>Instructions and programs\<close>

datatype pio_op =
    Pull
  | Set_x u32
  | Out_pins
  | In_pins
  | Jmp_x_dec nat
  | Jmp_pin nat
  | Jmp nat
  | Wait_pin bool
  | Irq_set nat
  | Nop

record pio_ins =
  ins_op :: pio_op
  side_set :: "bool option"
  ins_delay :: nat

abbreviation ins :: "pio_op \<Rightarrow> bool option \<Rightarrow> nat \<Rightarrow> pio_ins" where
  "ins a sd d \<equiv> \<lparr>ins_op = a, side_set = sd, ins_delay = d\<rparr>"

definition jd_tx :: "pio_ins list" where
  "jd_tx =
    [ins Pull (Some True) 7,
     ins (Set_x 7) (Some False) 7,
     ins Out_pins None 0,
     ins (Jmp_x_dec 2) None 6]"

definition jd_rx :: "pio_ins list" where
  "jd_rx =
    [ins (Wait_pin False) None 0,
     ins (Set_x 7) (Some False) 7,
     ins Nop None 1,
     ins In_pins (Some True) 0,
     ins Nop (Some False) 0,
     ins (Jmp_x_dec 3) None 5,
     ins (Jmp_pin 10) (Some True) 0,
     ins (Irq_set 1) (Some False) 0,
     ins (Wait_pin True) None 0,
     ins (Jmp 0) (Some True) 0,
     ins Nop None 0]"

section \<open>The state machine\<close>

record sm =
  pc :: nat
  dly :: nat
  xreg :: u32
  osr :: u32
  isr :: u32
  cnt :: nat
  out_pin :: bool
  txf :: "u32 list"
  rxf :: "u32 list"
  irqs :: "nat list"
  stalled :: bool

definition RXF_DEPTH :: nat where
  "RXF_DEPTH = 8"

definition PUSH_THRESH :: nat where
  "PUSH_THRESH = 8"

text \<open>The input shift register takes a bit at the top and moves to the right.\<close>

definition shift_in :: "bool \<Rightarrow> u32 \<Rightarrow> u32" where
  "shift_in b w = drop_bit 1 w OR (if b then push_bit 31 1 else 0)"

text \<open>
  One instruction: \<open>None\<close> when it stalls, otherwise the new state with the
  program counter already moved. \<open>next_pc\<close> wraps at the end of the program.
\<close>

definition next_pc :: "pio_ins list \<Rightarrow> nat \<Rightarrow> nat" where
  "next_pc prog n = (if Suc n = length prog then 0 else Suc n)"

fun exec_op :: "pio_ins list \<Rightarrow> bool \<Rightarrow> pio_op \<Rightarrow> sm \<Rightarrow> sm option" where
  "exec_op prog level Pull s =
     (case txf s of [] \<Rightarrow> None | w # ws \<Rightarrow> Some (s\<lparr>osr := w, txf := ws, pc := next_pc prog (pc s)\<rparr>))"
| "exec_op prog level (Set_x v) s = Some (s\<lparr>xreg := v, pc := next_pc prog (pc s)\<rparr>)"
| "exec_op prog level Out_pins s =
     Some (s\<lparr>out_pin := bit (osr s) 0, osr := drop_bit 1 (osr s), pc := next_pc prog (pc s)\<rparr>)"
| "exec_op prog level In_pins s =
     (if Suc (cnt s) < PUSH_THRESH
      then Some (s\<lparr>isr := shift_in level (isr s), cnt := Suc (cnt s),
                   pc := next_pc prog (pc s)\<rparr>)
      else if length (rxf s) < RXF_DEPTH
      then Some (s\<lparr>rxf := rxf s @ [shift_in level (isr s)], isr := 0, cnt := 0,
                   pc := next_pc prog (pc s)\<rparr>)
      else None)"
| "exec_op prog level (Jmp_x_dec n) s = Some (s\<lparr>pc := (if xreg s \<noteq> 0 then n else next_pc prog (pc s)), xreg := xreg s - 1\<rparr>)"
| "exec_op prog level (Jmp_pin n) s = Some (s\<lparr>pc := (if level then n else next_pc prog (pc s))\<rparr>)"
| "exec_op prog level (Jmp n) s = Some (s\<lparr>pc := n\<rparr>)"
| "exec_op prog level (Wait_pin v) s = (if level = v then Some (s\<lparr>pc := next_pc prog (pc s)\<rparr>) else None)"
| "exec_op prog level (Irq_set n) s = Some (s\<lparr>irqs := List.insert n (irqs s), pc := next_pc prog (pc s)\<rparr>)"
| "exec_op prog level Nop s = Some (s\<lparr>pc := next_pc prog (pc s)\<rparr>)"

text \<open>
  One cycle with the given level on the input pin. Side-set takes effect even
  when the instruction stalls; a stall on an empty transmit FIFO is recorded.
\<close>

definition pio_cycle :: "pio_ins list \<Rightarrow> bool \<Rightarrow> sm \<Rightarrow> sm" where
  "pio_cycle prog level s =
     (if 0 < dly s then s\<lparr>dly := dly s - 1\<rparr>
      else
       let i = prog ! pc s;
           s = (case side_set i of None \<Rightarrow> s | Some b \<Rightarrow> s\<lparr>out_pin := b\<rparr>)
       in case exec_op prog level (ins_op i) s of
            None \<Rightarrow> s\<lparr>stalled := stalled s \<or> ins_op i = Pull\<rparr>
          | Some t \<Rightarrow> t\<lparr>dly := ins_delay i\<rparr>)"

text \<open>
  The transmitter drives the line. The receiver listens to it; the receive DMA,
  paced by the FIFO and clocked much faster than the state machine, takes every
  pushed word before the next cycle. It reads the single byte at offset 3 of
  the FIFO register, the bits 31 to 24 of the word.
\<close>

fun tx_run :: "nat \<Rightarrow> sm \<Rightarrow> bool list \<times> sm" where
  "tx_run 0 s = ([], s)"
| "tx_run (Suc n) s = (let s = pio_cycle jd_tx True s; (ls, t) = tx_run n s in (out_pin s # ls, t))"

definition rx_byte :: "u32 \<Rightarrow> u8" where
  "rx_byte w = ucast (drop_bit 24 w)"

definition rx_cycle :: "bool \<Rightarrow> sm \<times> u8 list \<Rightarrow> sm \<times> u8 list" where
  "rx_cycle level = (\<lambda>(s, buf). let s = pio_cycle jd_rx level s in (s\<lparr>rxf := []\<rparr>, buf @ map rx_byte (rxf s)))"

definition rx_run :: "bool list \<Rightarrow> sm \<times> u8 list \<Rightarrow> sm \<times> u8 list" where
  "rx_run ls s = fold rx_cycle ls s"

section \<open>The transmitter\<close>

text \<open>The waveform of a byte: start bit and eight data bits, lowest first, 8 cycles each.\<close>

definition frame :: "u8 \<Rightarrow> bool list" where
  "frame b = replicate 8 False @ concat (map (\<lambda>k. replicate 8 (bit b k)) [0..<8])"

lemma tx_run_add: "tx_run (m + n) s = (let (ls, t) = tx_run m s; (ks, u) = tx_run n t in (ls @ ks, u))"
  by (induction m arbitrary: s) (auto split: prod.splits)

abbreviation txs :: "nat \<Rightarrow> nat \<Rightarrow> u32 \<Rightarrow> u32 \<Rightarrow> bool \<Rightarrow> u32 list \<Rightarrow> bool \<Rightarrow> sm" where
  "txs p d x w lvl ws st \<equiv> \<lparr>pc = p, dly = d, xreg = x, osr = w, isr = 0, cnt = 0, out_pin = lvl, txf = ws, rxf = [], irqs = [], stalled = st\<rparr>"

lemma tx_delay: "tx_run d (txs p d x w lvl ws st) = (replicate d lvl, txs p 0 x w lvl ws st)"
  by (induction d) (simp_all add: pio_cycle_def)

lemma tx_bit:
  "tx_run 8 (txs 2 0 x w lvl ws st) =
    (replicate 8 (bit w 0), txs (if x = 0 then 0 else 2) 0 (x - 1) (drop_bit 1 w) (bit w 0) ws st)"
proof -
  have "tx_run 2 (txs 2 0 x w lvl ws st) =
      (replicate 2 (bit w 0), txs (if x = 0 then 0 else 2) 6 (x - 1) (drop_bit 1 w) (bit w 0) ws st)"
    by (simp add: numeral_eq_Suc pio_cycle_def jd_tx_def next_pc_def)
  with tx_run_add [of 2 6 "txs 2 0 x w lvl ws st"] tx_delay [of 6] show ?thesis
    by (simp add: replicate_add [symmetric])
qed

lemma tx_bits:
  "n < 8 \<Longrightarrow> tx_run (8 * Suc n) (txs 2 0 (of_nat n) w lvl ws st) =
    (concat (map (\<lambda>k. replicate 8 (bit w k)) [0..<Suc n]), txs 0 0 (- 1) (drop_bit (Suc n) w) (bit w n) ws st)"
proof (induction n arbitrary: w lvl)
  case 0
  show ?case using tx_bit [of 0 w lvl ws st] by simp
next
  case (Suc n)
  have nz: "(of_nat (Suc n) :: u32) \<noteq> 0" using Suc.prems u32_of_nat_eq_iff [of "Suc n" 0] by (simp del: of_nat_Suc)
  have eq: "map (\<lambda>k. replicate 8 (bit w k)) [0..<Suc (Suc n)] =
      replicate 8 (bit w 0) # map (\<lambda>k. replicate 8 (bit (drop_bit 1 w) k)) [0..<Suc n]"
    by (simp only: upt_conv_Cons [of 0 "Suc (Suc n)"] map_Suc_upt [symmetric] list.map) (simp add: bit_simps)
  show ?case
    using tx_run_add [of 8 "8 * Suc n" "txs 2 0 (of_nat (Suc n)) w lvl ws st"] tx_bit [of "of_nat (Suc n)" w lvl ws st] nz
      Suc.IH [of "drop_bit 1 w" "bit w 0"] Suc.prems
    by (simp only: eq) (simp add: bit_simps)
qed

lemma tx_run_trans:
  "tx_run m s = (ls, t) \<Longrightarrow> tx_run n t = (ks, u) \<Longrightarrow> tx_run (m + n) s = (ls @ ks, u)"
  by (simp add: tx_run_add)

lemma tx_start:
  "tx_run 16 (txs 0 0 x w lvl (v # ws) st) = (replicate 8 True @ replicate 8 False, txs 2 0 7 v False ws st)"
proof -
  have "tx_run 1 (txs 0 0 x w lvl (v # ws) st) = ([True], txs 1 7 x v True ws st)"
    by (simp add: numeral_eq_Suc pio_cycle_def jd_tx_def next_pc_def)
  from tx_run_trans [OF this tx_delay]
  have "tx_run 8 (txs 0 0 x w lvl (v # ws) st) = (replicate 8 True, txs 1 0 x v True ws st)"
    by (simp add: numeral_eq_Suc del: tx_run.simps)
  moreover have "tx_run 1 (txs 1 0 x v True ws st) = ([False], txs 2 7 7 v False ws st)"
    by (simp add: numeral_eq_Suc pio_cycle_def jd_tx_def next_pc_def)
  from tx_run_trans [OF this tx_delay]
  have "tx_run 8 (txs 1 0 x v True ws st) = (replicate 8 False, txs 2 0 7 v False ws st)"
    by (simp add: numeral_eq_Suc del: tx_run.simps)
  ultimately show ?thesis
    using tx_run_trans by fastforce
qed

lemma tx_word:
  "tx_run 80 (txs 0 0 x w lvl (v # ws) st) =
    (replicate 8 True @ frame (ucast v), txs 0 0 (- 1) (drop_bit 8 v) (bit v 7) ws st)"
proof -
  have "map (\<lambda>k. replicate 8 (bit (ucast v :: u8) k)) [0..<8] = map (\<lambda>k. replicate 8 (bit v k)) [0..<8]"
    by (simp add: bit_simps)
  then have "frame (ucast v) = replicate 8 False @ concat (map (\<lambda>k. replicate 8 (bit v k)) [0..<8])"
    by (simp only: frame_def)
  moreover have "tx_run 64 (txs 2 0 7 v False ws st) =
      (concat (map (\<lambda>k. replicate 8 (bit v k)) [0..<8]), txs 0 0 (- 1) (drop_bit 8 v) (bit v 7) ws st)"
    using tx_bits [of 7] by simp
  ultimately show ?thesis
    using tx_run_trans [OF tx_start] by fastforce
qed

lemma tx_idle:
  "tx_run (Suc n) (txs 0 0 x w lvl [] st) = (replicate (Suc n) True, txs 0 0 x w True [] True)"
proof -
  have step: "pio_cycle jd_tx True (txs 0 0 x w l [] s) = txs 0 0 x w True [] True" for l s
    by (simp add: pio_cycle_def jd_tx_def)
  then have "tx_run n (txs 0 0 x w True [] True) = (replicate n True, txs 0 0 x w True [] True)"
    by (induction n) simp_all
  with step show ?thesis by simp
qed

lemma tx_all:
  "\<exists>y v l. tx_run (80 * length ws) (txs 0 0 x w lvl ws st) =
    (concat (map (\<lambda>v. replicate 8 True @ frame (ucast v)) ws), txs 0 0 y v l [] st)"
proof (induction ws arbitrary: x w lvl)
  case Nil
  show ?case by auto
next
  case (Cons u us)
  obtain y v l where "tx_run (80 * length us) (txs 0 0 (- 1) (drop_bit 8 u) (bit u 7) us st) =
    (concat (map (\<lambda>v. replicate 8 True @ frame (ucast v)) us), txs 0 0 y v l [] st)"
    using Cons.IH by blast
  from tx_run_trans [OF tx_word this] show ?case by simp
qed

lemma tx_words:
  "\<exists>y v. tx_run (80 * length ws + Suc n) (txs 0 0 x w lvl ws st) =
    (concat (map (\<lambda>v. replicate 8 True @ frame (ucast v)) ws) @ replicate (Suc n) True, txs 0 0 y v True [] True)"
  using tx_all [of ws x w lvl st] tx_run_trans [OF _ tx_idle] by blast

lemma stalled_cycle: "stalled s \<Longrightarrow> stalled (pio_cycle prog lv s)"
proof -
  have "exec_op prog lv a s = Some t \<Longrightarrow> stalled t = stalled s" for a t and s :: sm
    by (cases a) (auto split: list.splits if_splits)
  then show "stalled s \<Longrightarrow> stalled (pio_cycle prog lv s)"
    by (fastforce simp: pio_cycle_def split: option.split)
qed

lemma stalled_run: "stalled s \<Longrightarrow> stalled (snd (tx_run n s))"
  by (induction n arbitrary: s) (simp_all add: stalled_cycle case_prod_beta)

lemma tx_stalled_iff: "stalled (snd (tx_run k (txs 0 0 x w lvl ws False))) \<longleftrightarrow> 80 * length ws < k"
proof (cases "80 * length ws < k")
  case True
  then obtain n where "k = 80 * length ws + Suc n" using less_imp_Suc_add by fastforce
  then show ?thesis using tx_words [of ws n x w lvl False] True by auto
next
  case False
  then obtain m where m: "80 * length ws = k + m" using le_Suc_ex not_less by blast
  have "\<not> stalled (snd (tx_run (k + m) (txs 0 0 x w lvl ws False)))"
    using tx_all [of ws x w lvl False] m by auto
  then show ?thesis
    using stalled_run [of "snd (tx_run k (txs 0 0 x w lvl ws False))" m] False
    by (auto simp: tx_run_add split: prod.splits)
qed

section \<open>The receiver\<close>

lemma rx_run_append: "rx_run (as @ bs) s = rx_run bs (rx_run as s)"
  by (simp add: rx_run_def)

abbreviation rxs :: "nat \<Rightarrow> nat \<Rightarrow> u32 \<Rightarrow> u32 \<Rightarrow> nat \<Rightarrow> bool \<Rightarrow> nat list \<Rightarrow> sm" where
  "rxs p d x i c lvl iq \<equiv> \<lparr>pc = p, dly = d, xreg = x, osr = 0, isr = i, cnt = c, out_pin = lvl, txf = [], rxf = [], irqs = iq, stalled = False\<rparr>"

lemma rx_delay: "length ls = d \<Longrightarrow> rx_run ls (rxs p d x i c lvl iq, buf) = (rxs p 0 x i c lvl iq, buf)"
  by (induction ls arbitrary: d) (auto simp: rx_run_def rx_cycle_def pio_cycle_def)

lemma jd_rx_nth:
  "jd_rx ! 0 = ins (Wait_pin False) None 0" "jd_rx ! Suc 0 = ins (Set_x 7) (Some False) 7"
  "jd_rx ! 2 = ins Nop None 1" "jd_rx ! 3 = ins In_pins (Some True) 0" "jd_rx ! 4 = ins Nop (Some False) 0"
  "jd_rx ! 5 = ins (Jmp_x_dec 3) None 5" "jd_rx ! 6 = ins (Jmp_pin 10) (Some True) 0"
  "jd_rx ! 7 = ins (Irq_set 1) (Some False) 0" "jd_rx ! 8 = ins (Wait_pin True) None 0"
  "jd_rx ! 9 = ins (Jmp 0) (Some True) 0" "jd_rx ! 10 = ins Nop None 0" "length jd_rx = 11"
  by (simp_all add: jd_rx_def)

lemmas rx_step = rx_run_def rx_cycle_def pio_cycle_def jd_rx_nth next_pc_def PUSH_THRESH_def RXF_DEPTH_def

lemma rx_bit:
  assumes "length ls = 7" and "c < 8"
  shows "rx_run (b # ls) (rxs 3 0 x i c lvl iq, buf) =
    (rxs (if x = 0 then 6 else 3) 0 (x - 1) (if c < 7 then shift_in b i else 0) (if c < 7 then Suc c else 0) False iq,
     if c < 7 then buf else buf @ [rx_byte (shift_in b i)])"
proof -
  obtain b1 b2 ds where ls: "ls = b1 # b2 # ds" "length ds = 5"
    using assms by (auto simp: numeral_eq_Suc length_Suc_conv)
  have "rx_run [b, b1, b2] (rxs 3 0 x i c lvl iq, buf) =
    (rxs (if x = 0 then 6 else 3) 5 (x - 1) (if c < 7 then shift_in b i else 0) (if c < 7 then Suc c else 0) False iq,
     if c < 7 then buf else buf @ [rx_byte (shift_in b i)])"
    using assms by (simp add: rx_step)
  then show ?thesis
    using rx_run_append [of "[b, b1, b2]" ds] rx_delay [OF ls(2)] by (simp add: ls)
qed

lemma rx_bits:
  assumes "n < 8" and "length ls = 8 * Suc n"
  shows "rx_run ls (rxs 3 0 (of_nat n) i (7 - n) lvl iq, buf) =
    (rxs 6 0 (- 1) 0 0 False iq, buf @ [rx_byte (fold shift_in (map (\<lambda>k. ls ! (8 * k)) [0..<Suc n]) i)])"
  using assms
proof (induction n arbitrary: ls i lvl)
  case 0
  then obtain b ds where "ls = b # ds" "length ds = 7" by (cases ls) auto
  then show ?case using rx_bit [of ds 7 b 0] by simp
next
  case (Suc n)
  then have "length (take 8 ls) = Suc 7" by simp
  then obtain b ds where b: "take 8 ls = b # ds" "length ds = 7" unfolding length_Suc_conv by blast
  have nz: "(of_nat (Suc n) :: u32) \<noteq> 0" using Suc.prems u32_of_nat_eq_iff [of "Suc n" 0] by (simp del: of_nat_Suc)
  have c: "7 - Suc n < 7" "7 - Suc n < 8" "Suc (7 - Suc n) = 7 - n" using Suc.prems by simp_all
  have hd: "ls ! 0 = b" using b(1) by (metis nth_Cons_0 nth_take zero_less_numeral)
  have eq: "map (\<lambda>k. ls ! (8 * k)) [0..<Suc (Suc n)] = b # map (\<lambda>k. drop 8 ls ! (8 * k)) [0..<Suc n]"
    using Suc.prems
    by (simp only: upt_conv_Cons [of 0 "Suc (Suc n)"] map_Suc_upt [symmetric] list.map) (simp add: hd)
  have "rx_run ls (rxs 3 0 (of_nat (Suc n)) i (7 - Suc n) lvl iq, buf) =
      rx_run (drop 8 ls) (rx_run (b # ds) (rxs 3 0 (of_nat (Suc n)) i (7 - Suc n) lvl iq, buf))"
    by (metis append_take_drop_id b(1) rx_run_append)
  also have "\<dots> = rx_run (drop 8 ls) (rxs 3 0 (of_nat n) (shift_in b i) (7 - n) False iq, buf)"
    using rx_bit [OF b(2), of "7 - Suc n" b "of_nat (Suc n)" i lvl iq buf] nz c by (simp del: diff_Suc_Suc)
  also have "\<dots> = (rxs 6 0 (- 1) 0 0 False iq, buf @ [rx_byte (fold shift_in (map (\<lambda>k. drop 8 ls ! (8 * k)) [0..<Suc n]) (shift_in b i))])"
    using Suc.prems by (intro Suc.IH) simp_all
  finally show ?case
    by (simp only: eq) simp
qed

lemma bit_shift_in: "bit (shift_in b w) n \<longleftrightarrow> (if n = 31 then b else bit w (Suc n))"
proof -
  have top: "bit (push_bit 31 (1 :: u32)) n \<longleftrightarrow> n = 31"
    by (simp only: bit_push_bit_iff) (auto simp: bit_1_iff)
  have "\<not> bit w 32" using bit_imp_le_length by fastforce
  with top show ?thesis
    by (cases b) (simp_all add: shift_in_def bit_or_iff bit_drop_bit_eq del: push_bit_of_1 push_bit_numeral_minus_1)
qed

lemma bit_fold_shift_in:
  "length bs \<le> 32 \<Longrightarrow> n < 32 \<Longrightarrow>
    bit (fold shift_in bs w) n = (if n + length bs < 32 then bit w (n + length bs) else bs ! (n + length bs - 32))"
proof (induction bs arbitrary: n rule: rev_induct)
  case Nil
  then show ?case by simp
next
  case (snoc b bs)
  then show ?case by (cases "n = 31") (auto simp: bit_shift_in nth_append)
qed

lemma rx_byte_fold: "length bs = 8 \<Longrightarrow> n < 8 \<Longrightarrow> bit (rx_byte (fold shift_in bs w)) n = bs ! n"
  by (simp add: rx_byte_def bit_simps bit_fold_shift_in)

lemma rx_start:
  assumes "length ls = 11" and "\<not> ls ! 0"
  shows "rx_run ls (rxs 0 0 x i c lvl iq, buf) = (rxs 3 0 7 i c False iq, buf)"
proof -
  obtain b ds where ls: "ls = False # b # ds" "length ds = 9"
    using assms by (auto simp: numeral_eq_Suc length_Suc_conv)
  have "length (drop 7 ds) = Suc (Suc 0)" using ls(2) by simp
  then obtain d e where ds: "drop 7 ds = [d, e]" by (auto simp only: length_Suc_conv length_0_conv)
  have "rx_run [False, b] (rxs 0 0 x i c lvl iq, buf) = (rxs 2 7 7 i c False iq, buf)"
    by (simp add: rx_step)
  moreover have "rx_run (take 7 ds) (rxs 2 7 7 i c False iq, buf) = (rxs 2 0 7 i c False iq, buf)"
    using ls(2) by (intro rx_delay) simp
  moreover have "rx_run [d, e] (rxs 2 0 7 i c False iq, buf) = (rxs 3 0 7 i c False iq, buf)"
    by (simp add: rx_step)
  moreover have "ls = [False, b] @ take 7 ds @ [d, e]"
    by (metis ls(1) append_Cons append_Nil append_take_drop_id ds)
  ultimately show ?thesis by (simp only: rx_run_append)
qed

lemma rx_data:
  assumes "75 \<le> length ls" and "\<not> ls ! 0"
  shows "rx_run (take 75 ls) (rxs 0 0 x i 0 lvl iq, buf) =
    (rxs 6 0 (- 1) 0 0 False iq, buf @ [rx_byte (fold shift_in (map (\<lambda>k. ls ! (11 + 8 * k)) [0..<8]) i)])"
proof -
  have "rx_run (take 11 ls) (rxs 0 0 x i 0 lvl iq, buf) = (rxs 3 0 7 i 0 False iq, buf)"
    using assms by (intro rx_start) simp_all
  moreover have "rx_run (take 64 (drop 11 ls)) (rxs 3 0 7 i 0 False iq, buf) =
     (rxs 6 0 (- 1) 0 0 False iq, buf @ [rx_byte (fold shift_in (map (\<lambda>k. take 64 (drop 11 ls) ! (8 * k)) [0..<8]) i)])"
    using rx_bits [of 7 "take 64 (drop 11 ls)"] assms by simp
  moreover have "map (\<lambda>k. take 64 (drop 11 ls) ! (8 * k)) [0..<8] = map (\<lambda>k. ls ! (11 + 8 * k)) [0..<8]"
    using assms by (intro map_cong refl) simp
  moreover have "take 75 ls = take 11 ls @ take 64 (drop 11 ls)"
    by (simp flip: take_add)
  ultimately show ?thesis by (simp only: rx_run_append)
qed

lemma rx_frame:
  assumes "length ls = 77" and "\<not> ls ! 0" and "ls ! 75"
  shows "rx_run ls (rxs 0 0 x i 0 lvl iq, buf) =
    (rxs 0 0 (- 1) 0 0 True iq, buf @ [rx_byte (fold shift_in (map (\<lambda>k. ls ! (11 + 8 * k)) [0..<8]) i)])"
proof -
  have "drop 75 ls = [True, ls ! 76]"
    using assms by (intro nth_equalityI) (auto simp: less_2_cases_iff)
  moreover have "rx_run [True, ls ! 76] (rxs 6 0 (- 1) 0 0 False iq, b) = (rxs 0 0 (- 1) 0 0 True iq, b)" for b
    by (simp add: rx_step)
  ultimately have "rx_run (take 75 ls @ drop 75 ls) (rxs 0 0 x i 0 lvl iq, buf) =
      (rxs 0 0 (- 1) 0 0 True iq, buf @ [rx_byte (fold shift_in (map (\<lambda>k. ls ! (11 + 8 * k)) [0..<8]) i)])"
    using rx_data [of ls] assms by (simp add: rx_run_append del: append_take_drop_id)
  then show ?thesis by simp
qed

lemma rx_idle: "list_all id ls \<Longrightarrow> rx_run ls (rxs 0 0 x i c lvl iq, buf) = (rxs 0 0 x i c lvl iq, buf)"
  by (induction ls) (simp_all add: rx_step)

section \<open>The line\<close>

text \<open>
  The level at time \<open>t\<close> of a line on which the bytes are sent back to back from
  time 0, each bit lasting \<open>num\<close> units of time: start bit, eight data bits, stop
  bit; the line is high when nothing is sent. The receiver samples it every \<open>den\<close>
  units, so \<open>num / den\<close> is the length of a bit in cycles of the receiver; the
  first sample is taken \<open>f\<close> units after the first falling edge.
\<close>

definition line_level :: "nat \<Rightarrow> u8 list \<Rightarrow> nat \<Rightarrow> bool" where
  "line_level num bs t =
     (let j = t div (10 * num); k = t mod (10 * num) div num
      in if j < length bs then (if k = 0 then False else if k = 9 then True else bit (bs ! j) (k - 1)) else True)"

definition sampled :: "nat \<Rightarrow> nat \<Rightarrow> nat \<Rightarrow> u8 list \<Rightarrow> nat \<Rightarrow> bool list" where
  "sampled num den f bs n = map (\<lambda>t. line_level num bs (t * den + f)) [0..<n]"

lemma line_level_Nil: "line_level num [] t"
  by (simp add: line_level_def)

lemma line_level_first:
  assumes "j * num \<le> t" and "t < Suc j * num" and "j < 10"
  shows "line_level num (b # bs) t = (if j = 0 then False else if j = 9 then True else bit b (j - 1))"
proof -
  have "Suc j * num \<le> 10 * num" using assms(3) by (intro mult_right_mono) simp_all
  with assms(2) have t: "t < 10 * num" by linarith
  moreover have "t div num = j" using assms by (intro div_nat_eqI) (simp_all add: mult.commute)
  ultimately show ?thesis by (simp add: line_level_def)
qed

lemma line_level_rest:
  assumes "0 < num" shows "line_level num (b # bs) (10 * num + t) = line_level num bs t"
proof -
  have "(10 * num + t) div (10 * num) = Suc (t div (10 * num))"
    using assms by (subst div_add_self1) simp_all
  then show ?thesis by (simp add: line_level_def)
qed

lemma rx_first_byte:
  fixes b :: u8 and bs :: "u8 list"
  assumes "77 * den \<le> 10 * num" and "3 * num \<le> 25 * den" and "f < den"
  defines "ls \<equiv> map (\<lambda>t. line_level num (b # bs) (t * den + f)) [0..<77]"
  shows "rx_run ls (rxs 0 0 x 0 0 lvl iq, buf) = (rxs 0 0 (- 1) 0 0 True iq, buf @ [b])"
proof -
  have ls: "t < 77 \<Longrightarrow> ls ! t = line_level num (b # bs) (t * den + f)" for t
    by (simp add: ls_def)
  have start: "\<not> ls ! 0"
    using line_level_first [of 0 num f b bs] assms ls [of 0] by simp
  have stop: "ls ! 75"
    using line_level_first [of 9 num "75 * den + f" b bs] assms ls [of 75] by simp
  have data: "ls ! (11 + 8 * k) = bit b k" if "k < 8" for k
  proof -
    have "k = 0 \<or> k = 1 \<or> k = 2 \<or> k = 3 \<or> k = 4 \<or> k = 5 \<or> k = 6 \<or> k = 7" using that by arith
    then have "Suc k * num \<le> (11 + 8 * k) * den + f \<and> (11 + 8 * k) * den + f < Suc (Suc k) * num"
      using assms(1-3) by (elim disjE) simp_all
    with line_level_first [of "Suc k" num "(11 + 8 * k) * den + f" b bs] that ls [of "11 + 8 * k"]
    show ?thesis by auto
  qed
  have "rx_byte (fold shift_in (map (\<lambda>k. ls ! (11 + 8 * k)) [0..<8]) 0) = b"
  proof (rule bit_eqI)
    fix n assume "possible_bit TYPE(u8) n"
    then have "n < 8" by (simp add: possible_bit_word)
    then show "bit (rx_byte (fold shift_in (map (\<lambda>k. ls ! (11 + 8 * k)) [0..<8]) 0)) n = bit b n"
      using rx_byte_fold [of "map (\<lambda>k. ls ! (11 + 8 * k)) [0..<8]" n 0] data by (simp del: upt_rec_numeral)
  qed
  with rx_frame [OF _ start stop] show ?thesis by (simp add: ls_def del: upt_rec_numeral)
qed

lemma rx_stream:
  assumes "77 * den \<le> 10 * num" and "3 * num \<le> 25 * den" and "f < den" and "10 * num * length bs \<le> n * den + f"
  shows "\<exists>y l. rx_run (sampled num den f bs n) (rxs 0 0 x 0 0 lvl iq, buf) = (rxs 0 0 y 0 0 l iq, buf @ bs)"
  using assms(3,4)
proof (induction bs arbitrary: f n x lvl buf)
  case Nil
  have "list_all id (sampled num den f [] n)" by (simp add: sampled_def list_all_iff line_level_Nil)
  then show ?case using rx_idle by auto
next
  case (Cons b bs)
  have num: "0 < num" using assms(1) Cons.prems(1) by linarith
  define m where "m = (LEAST t. 10 * num \<le> t * den + f)"
  have n: "10 * num \<le> n * den + f" using Cons.prems(2) by simp
  have m: "10 * num \<le> m * den + f" unfolding m_def using n by (rule LeastI)
  have least: "t * den + f < 10 * num" if "t < m" for t
    using not_less_Least [of t] that unfolding m_def by fastforce
  have "m \<le> n" unfolding m_def using n by (rule Least_le)
  have "77 \<le> m"
  proof (rule ccontr)
    assume "\<not> 77 \<le> m"
    then have "m * den \<le> 76 * den" by (intro mult_right_mono) simp_all
    with m assms(1) Cons.prems(1) show False by linarith
  qed
  have m': "m * den + f < 10 * num + den"
    using least [of "m - 1"] \<open>77 \<le> m\<close> by (cases m) simp_all
  define g where "g = m * den + f - 10 * num"
  have g: "g < den" "m * den + f = 10 * num + g" using m m' by (simp_all add: g_def)
  have stop: "list_all id (map (\<lambda>t. line_level num (b # bs) (t * den + f)) [77..<m])"
  proof -
    have "line_level num (b # bs) (t * den + f)" if "77 \<le> t" "t < m" for t
    proof -
      have "77 * den \<le> t * den" using that by (intro mult_right_mono) simp_all
      with assms(2) have "9 * num \<le> t * den + f" by linarith
      then show ?thesis using line_level_first [of 9 num "t * den + f"] least [OF that(2)] by simp
    qed
    then show ?thesis by (simp add: list_all_iff)
  qed
  have rest: "map (\<lambda>t. line_level num (b # bs) (t * den + f)) [m..<n] = sampled num den g bs (n - m)"
  proof -
    have "(m + t) * den + f = 10 * num + (t * den + g)" for t using g(2) by (simp add: algebra_simps)
    then show ?thesis
      using num \<open>m \<le> n\<close> by (intro nth_equalityI) (simp_all add: sampled_def line_level_rest)
  qed
  have "[0..<n] = [0..<77] @ [77..<m] @ [m..<n]"
    using \<open>77 \<le> m\<close> \<open>m \<le> n\<close> by (metis le_add_diff_inverse le_add_same_cancel1 le_trans upt_add_eq_append zero_le)
  then have split: "sampled num den f (b # bs) n =
      map (\<lambda>t. line_level num (b # bs) (t * den + f)) [0..<77] @
      map (\<lambda>t. line_level num (b # bs) (t * den + f)) [77..<m] @ sampled num den g bs (n - m)"
    by (simp only: sampled_def [of _ _ f] map_append rest)
  have "10 * num * length bs \<le> (n - m) * den + g"
    using Cons.prems(2) g(2) \<open>m \<le> n\<close> by (simp add: diff_mult_distrib)
  from Cons.IH [OF g(1) this] obtain y l
    where "rx_run (sampled num den g bs (n - m)) (rxs 0 0 (- 1) 0 0 True iq, buf @ [b]) = (rxs 0 0 y 0 0 l iq, (buf @ [b]) @ bs)"
    by blast
  then show ?case
    using rx_first_byte [OF assms(1,2) Cons.prems(1)] rx_idle [OF stop]
    by (simp add: split rx_run_append del: upt_rec_numeral)
qed

text \<open>What the transmitter sends is such a line with bits of 8 cycles.\<close>

lemma map_blocks: "map f [0..<8 * m] = concat (map (\<lambda>j. map f [8 * j..<8 * j + 8]) [0..<m])"
proof (induction m)
  case (Suc m)
  have "[0..<8 * Suc m] = [0..<8 * m] @ [8 * m..<8 * m + 8]"
    using upt_add_eq_append [of 0 "8 * m" 8] by (simp add: add.commute)
  with Suc show ?case by simp
qed simp

lemma frame_levels: "map (line_level 8 (b # bs)) [0..<80] = frame b @ replicate 8 True"
proof -
  define L where "L = (\<lambda>j. if j = 0 then False else if j = 9 then True else bit b (j - 1))"
  have "map (line_level 8 (b # bs)) [8 * j..<8 * j + 8] = replicate 8 (L j)" if "j < 10" for j
  proof -
    have "map (line_level 8 (b # bs)) [8 * j..<8 * j + 8] = map (\<lambda>t. L j) [8 * j..<8 * j + 8]"
      using that line_level_first [of j 8 _ b bs] by (intro map_cong refl) (simp add: L_def)
    then show ?thesis by (simp add: map_replicate_const)
  qed
  then have "map (\<lambda>j. map (line_level 8 (b # bs)) [8 * j..<8 * j + 8]) [0..<10] = map (\<lambda>j. replicate 8 (L j)) [0..<10]"
    by (intro map_cong refl) simp
  then have "map (line_level 8 (b # bs)) [0..<80] = concat (map (\<lambda>j. replicate 8 (L j)) [0..<10])"
    using map_blocks [of "line_level 8 (b # bs)" 10] by (simp only: mult_numeral_left_semiring_numeral) simp
  moreover have "[0..<10] = 0 # map Suc [0..<8] @ [9]"
    by (simp add: upt_rec)
  moreover have "map (\<lambda>j. replicate 8 (L (Suc j))) [0..<8] = map (\<lambda>k. replicate 8 (bit b k)) [0..<8]"
    by (intro map_cong refl) (simp add: L_def)
  moreover have "\<not> L 0" "L 9" by (simp_all add: L_def)
  ultimately show ?thesis by (simp add: frame_def comp_def)
qed

lemma sampled_Cons: "sampled 8 1 0 (b # bs) (80 + n) = frame b @ replicate 8 True @ sampled 8 1 0 bs n"
proof -
  have "map (line_level 8 (b # bs)) [80..<80 + n] = map (line_level 8 bs) [0..<n]"
    using line_level_rest [of 8 b bs] by (intro nth_equalityI) simp_all
  then show ?thesis
    using upt_add_eq_append [of 0 80 n] frame_levels [of b bs] by (simp add: sampled_def del: upt_rec_numeral)
qed

lemma sampled_eq_frames:
  "sampled 8 1 0 bs (80 * length bs + n) = concat (map (\<lambda>b. frame b @ replicate 8 True) bs) @ replicate n True"
proof (induction bs)
  case Nil
  show ?case by (simp add: sampled_def line_level_Nil map_replicate_const)
next
  case (Cons b bs)
  then show ?case using sampled_Cons [of b bs "80 * length bs + n"] by (simp add: ac_simps)
qed

lemma frames_shift: "concat (map (\<lambda>b. p @ g b) xs) @ p = p @ concat (map (\<lambda>b. g b @ p) xs)"
  by (induction xs) simp_all

section \<open>Properties\<close>

text \<open>
  C29. The transmitter sends every word of its FIFO and then reports that it is
  done: from the start of the program the line carries, for each word, 8 cycles
  high (stop bit or idle line) and the frame of its low byte, and afterwards it
  stays high while the sticky stall flag is set. That flag is what \<open>tx_handler\<close>
  waits for before it sends the closing break, so the wait ends and does not end
  before the last bit is on the line.
\<close>

theorem jd_tx_sends_frames:
  "(stalled (snd (tx_run k (txs 0 0 x w lvl ws False))) \<longleftrightarrow> 80 * length ws < k) \<and>
   (\<exists>y v. tx_run (80 * length ws + Suc n) (txs 0 0 x w lvl ws st) =
     (concat (map (\<lambda>v. replicate 8 True @ frame (ucast v)) ws) @ replicate (Suc n) True, txs 0 0 y v True [] True))"
  using tx_stalled_iff tx_words by blast

text \<open>
  C28. The receiver tolerates a transmitter whose clock is off: bytes sent back to
  back with bits of 7.7 to 8.33 receiver cycles instead of 8, sampled at any phase
  relative to the first falling edge, are received in order and without a loss,
  and the receiver is back at the start of its program. It resynchronises at
  every start bit, so the length of the transfer does not matter.
\<close>

theorem jd_rx_clock_tolerance:
  assumes "77 * den \<le> 10 * num" and "3 * num \<le> 25 * den" and "f < den" and "10 * num * length bs \<le> n * den + f"
  shows "\<exists>y l. rx_run (sampled num den f bs n) (rxs 0 0 x 0 0 lvl iq, buf) = (rxs 0 0 y 0 0 l iq, buf @ bs)"
  using assms by (rule rx_stream)

theorem jd_rx_clock_tolerance_witness:
  "\<exists>y l. rx_run (sampled 33 4 1 [0x5A, 0, 0xFF] 248) (rxs 0 0 0 0 0 True [], []) = (rxs 0 0 y 0 0 l [], [0x5A, 0, 0xFF])"
  using jd_rx_clock_tolerance [of 4 33 1 "[0x5A, 0, 0xFF]" 248 0 True "[]" "[]"] by simp

text \<open>
  C27. Round trip over the line: what the transmitter sends from its FIFO is what
  the receiver of another device delivers to memory, byte for byte and in order,
  when it starts listening on an idle line.
\<close>

theorem jd_link_roundtrip:
  "\<exists>y l. rx_run (fst (tx_run (80 * length ws + 8 + n) (txs 0 0 x w lvl ws st))) (rxs 0 0 x' 0 0 lvl' iq, buf) =
    (rxs 0 0 y 0 0 l iq, buf @ map ucast ws)"
proof -
  let ?bs = "map ucast ws :: u8 list"
  have fr: "concat (map (\<lambda>v. replicate 8 True @ frame (ucast v)) ws) @ replicate 8 True =
      replicate 8 True @ concat (map (\<lambda>b. frame b @ replicate 8 True) ?bs)"
    using frames_shift [of "replicate 8 True" frame ?bs] by (simp add: comp_def)
  have "fst (tx_run (80 * length ws + 8 + n) (txs 0 0 x w lvl ws st)) =
      concat (map (\<lambda>v. replicate 8 True @ frame (ucast v)) ws) @ replicate 8 True @ replicate n True"
    using tx_words [of ws "7 + n" x w lvl st]
    by (auto simp: add.assoc simp flip: replicate_add simp del: replicate.simps)
  then have eq: "fst (tx_run (80 * length ws + 8 + n) (txs 0 0 x w lvl ws st)) =
      replicate 8 True @ sampled 8 1 0 ?bs (80 * length ?bs + n)"
    using fr sampled_eq_frames [of ?bs n] by (metis append_assoc)
  have "rx_run (replicate 8 True) (rxs 0 0 x' 0 0 lvl' iq, buf) = (rxs 0 0 x' 0 0 lvl' iq, buf)"
    by (rule rx_idle) (simp add: list_all_iff)
  with rx_stream [of 1 8 0 ?bs "80 * length ?bs + n" x' lvl' iq buf] show ?thesis
    unfolding eq rx_run_append by simp
qed

text \<open>
  C30. A break, the line held low for at least 76 cycles (9.5 bit times; the one
  \<open>tx_handler\<close> sends lasts 12 microseconds, 96 cycles) and released, raises the
  interrupt flag 1 once and leaves the receiver ready for the next frame. But one
  zero byte has been pushed before the missing stop bit is noticed: the push of
  \<open>sm_config_set_in_shift\<close> happens with the eighth data bit.
\<close>

theorem jd_rx_break:
  assumes "76 \<le> n" and "3 \<le> m"
  shows "rx_run (replicate n False @ replicate m True) (rxs 0 0 x 0 0 lvl iq, buf) =
    (rxs 0 0 (- 1) 0 0 True (List.insert 1 iq), buf @ [0])"
proof -
  have "rx_byte (fold shift_in (replicate 8 False) 0) = 0"
    by (rule bit_eqI) (simp add: possible_bit_word rx_byte_fold del: fold_replicate)
  moreover have "map (\<lambda>k. replicate 75 False ! (11 + 8 * k)) [0..<8] = replicate 8 False"
    by (intro nth_equalityI) (simp_all del: upt_rec_numeral)
  ultimately have data: "rx_run (replicate 75 False) (rxs 0 0 x 0 0 lvl iq, buf) = (rxs 6 0 (- 1) 0 0 False iq, buf @ [0])"
    using rx_data [of "replicate 75 False"] by (simp del: upt_rec_numeral)
  have low: "rx_run (replicate k False) (rxs 8 0 a 0 0 False q, b) = (rxs 8 0 a 0 0 False q, b)" for k a q b
    by (induction k) (simp_all add: rx_step)
  have high: "rx_run [True, True] (rxs 8 0 a 0 0 False q, b) = (rxs 0 0 a 0 0 True q, b)" for a q b
    by (simp add: rx_step)
  have jmp: "rx_run [False] (rxs 6 0 a 0 0 False q, b) = (rxs 7 0 a 0 0 True q, b)" for a q b
    by (simp add: rx_step)
  have irq: "rx_run [v] (rxs 7 0 a 0 0 True q, b) = (rxs 8 0 a 0 0 False (List.insert 1 q), b)" for v a q b
    by (simp add: rx_step)
  have idle: "rx_run (replicate k True) (rxs 0 0 a 0 0 l q, b) = (rxs 0 0 a 0 0 l q, b)" for k a l q b
    by (rule rx_idle) (simp add: list_all_iff)
  obtain k where n: "n = 75 + (1 + k)" using assms(1) le_Suc_ex [of 76 n] by auto
  obtain j where m: "m = 3 + j" using assms(2) le_Suc_ex by blast
  show ?thesis
  proof (cases k)
    case 0
    have "replicate n False @ replicate m True = replicate 75 False @ [False] @ [True] @ [True, True] @ replicate j True"
      unfolding n m 0 replicate_add by (simp add: numeral_3_eq_3)
    then show ?thesis by (simp only: rx_run_append data jmp irq high idle)
  next
    case (Suc i)
    have "replicate n False @ replicate m True =
        replicate 75 False @ [False] @ [False] @ replicate i False @ [True, True] @ replicate (Suc j) True"
      unfolding n m Suc replicate_add by (simp add: numeral_3_eq_3)
    then show ?thesis by (simp only: rx_run_append data jmp irq low high idle)
  qed
qed

theorem jd_rx_break_witness:
  "rx_run (replicate 96 False @ replicate 8 True) (rxs 0 0 0 0 0 True [], [0x12]) =
    (rxs 0 0 (- 1) 0 0 True [1], [0x12, 0])"
  using jd_rx_break [of 96 8 0 True "[]" "[0x12]"] by simp

end
