(* ===== verification/Spec2Isabelle.thy ===== *)
theory Spec2Isabelle
  imports Firmware Usb_Descriptors Flash Sws_Pio
begin

text \<open>
  \<^bold>\<open>A verification of the DeviceScript firmware for the Raspberry Pi Pico\<close>

  The repository is the hardware layer of the firmware: drivers for the RP2040
  (\<open>src/src/*.c\<close>) under the Jacdac runtime, the DeviceScript virtual machine, the
  Pico SDK, TinyUSB, lwIP and the CYW43 driver. Those libraries are git
  submodules and not part of the repository. The development models all C
  functions of the repository, one definition per function or per loop, and the
  two programs of the PIO block (\<open>sws.pio\<close>), and proves what makes each component
  correct and how they work together.

  \<^bold>\<open>The boundary.\<close> A function of the firmware is a state transformer on a record that
  contains its static variables. Every register access and every call of a
  library function appends an entry to the field \<open>trace\<close> of the state, in program
  order (theory \<open>Boundary\<close>: \<open>emit\<close>, \<open>ask\<close>, \<open>rd\<close>, \<open>wr\<close>). What the other side answers
  is the parameter \<open>E\<close> of type \<open>plat\<close>: \<open>resp E history call\<close> is an arbitrary
  function of all calls so far, \<open>outbuf\<close> gives the bytes a call writes to memory,
  and the numeric constants of the libraries are fields of \<open>E\<close>. Nothing is assumed
  about \<open>E\<close> in the definitions. What a property relies on is one of a few named
  predicates that state documented behaviour: \<open>clock\<close> (the microsecond timer),
  \<open>gpio_laws\<close> and \<open>pads_ok\<close> (the GPIO block), \<open>flash_chip\<close> (programming and erasing),
  \<open>dma_claims\<close> (a claimed DMA channel is an unused one), \<open>alloc_ok\<close> (memory for a block of some size),
  \<open>cdc_rx\<close> and \<open>cdc_tx\<close> (the USB FIFO and the runtime's queue), \<open>hex_law\<close> (hexadecimal
  digits), \<open>irq_latch\<close> (pin events stay latched until they are acknowledged), \<open>result_ok\<close>
  (a scan result has the name and address bytes it states). The Jacdac runtime is a
  parameter as well: \<open>runtime_ok\<close> and \<open>runtime_private\<close> (what its link callbacks do) and
  \<open>process_ok\<close> (its work in a turn ends and consists of requests). Each has a concrete
  instance that the witnesses use.

  \<^bold>\<open>Faults.\<close> A failed \<open>JD_ASSERT\<close>, a panic, a loop that does not end, a null pointer and
  an access outside an array are values of the type \<open>fault\<close>; functions that can
  fail return \<open>fault + state\<close> (theory \<open>Prelude\<close>: \<open>bindE\<close>, \<open>jd_assert\<close>, \<open>of_loop\<close>). Loops
  that wait for hardware are \<open>partial_function (option)\<close>, so that not returning is
  \<open>None\<close>, and the properties prove that they return. There is no fuel, except in
  \<open>runtime\<close>, whose number is the nesting depth of re-entrant calls and is
  universally quantified.

  \<^bold>\<open>State.\<close> The records extend one another in the order
  \<open>mach\<close>, \<open>irq\<close>, \<open>dma\<close>, \<open>tim\<close>, \<open>pins\<close>, \<open>uart\<close>, \<open>spi_state\<close>, \<open>ulog\<close>, \<open>adc\<close>, \<open>i2c\<close>, \<open>wifi\<close>, \<open>sock\<close>,
  \<open>platform\<close>, so an operation of a lower component applies to the state of a
  higher one; \<open>flash\<close> and \<open>hid\<close> with \<open>usb_desc\<close> are separate extensions. Integers keep
  their C width (\<open>u8\<close>, \<open>u16\<close>, \<open>u32\<close>, \<open>u64\<close>) where they can wrap.

  \<^bold>\<open>Components.\<close>

  \<^item> \<open>Irq\<close>: the nested interrupt mask of \<open>platform.c\<close>. It refines a nesting depth.
  \<^item> \<open>Dma\<close>: \<open>dma.c\<close>, NVIC helpers and the table of one-shot DMA handlers. The interrupt
    handler calls the handler of every pending channel once, in order; the table
    is an instance of the locale \<open>one_shot\<close>, the contract its users rely on.
  \<^item> \<open>Timer\<close>: \<open>tim.c\<close>. Atomic reading of the 64-bit clock, delays, the one-shot alarm
    across counter wrap-around.
  \<^item> \<open>Pins\<close>: \<open>pins.c\<close>, pin modes, PWM, pin-change interrupts.
  \<^item> \<open>Flash\<close>: \<open>flash.c\<close>, the one-page write-back buffer. Writes followed by a sync
    refine a memory; whole-page writes and erases show two defects.
  \<^item> \<open>Uart\<close>, \<open>Link\<close>: \<open>uart.c\<close>, the half-duplex single-wire UART on PIO and DMA. \<open>Uart\<close> has
    the operations, \<open>Link\<close> the state machine of arbitrary interleavings of requests
    and interrupts with its invariant.
  \<^item> \<open>Sws_Pio\<close>: \<open>sws.pio\<close>, the programs \<open>uart.c\<close> loads into the PIO block, run cycle by
    cycle. Transmitter and receiver are inverse to each other, the receiver
    tolerates clock deviations of about 4 percent, breaks raise the interrupt.
  \<^item> \<open>Spi\<close>: \<open>spi.c\<close>, transfers with completion callbacks; refines a three-phase protocol.
  \<^item> \<open>Uart_Log\<close>: \<open>uart_log.c\<close>, log output through DMA; refines a one-slot channel.
  \<^item> \<open>Adc\<close>, \<open>I2c\<close>: \<open>adc.c\<close>, \<open>i2c.c\<close>.
  \<^item> \<open>Wifi\<close>: \<open>cyw43_fixes.c\<close> and \<open>wifi_impl.c\<close>, and the allocator of \<open>platform.c\<close>. The
    growing scan table refines a map from addresses to results.
  \<^item> \<open>Lwip_Sock\<close>: \<open>lwip_sock.c\<close>. The runtime's event handler may re-enter the module;
    the locales \<open>sock_runtime\<close> (the socket's invariant) and \<open>sock_frame\<close> (only the socket
    changes, and the heap stays balanced) are its contract, interpreted on runtimes that react
    with any calls to any depth. Callbacks may come at any time; those that belong to
    an attempt that is over are marked as stray.
  \<^item> \<open>Hid\<close>, \<open>Usb\<close>, \<open>Usb_Descriptors\<close>: \<open>hid.c\<close>, \<open>usb.c\<close>, \<open>usb_descriptors.c\<close> and the interface
    numbers of \<open>tusb_config.h\<close>. Reports and bytes are delivered without loss;
    descriptors are consistent and string descriptors decode to their strings.
  \<^item> \<open>Platform\<close>: the rest of \<open>platform.c\<close>: random numbers, board detection, LED, start-up,
    panic.
  \<^item> \<open>Main_Loop\<close>: \<open>main.c\<close>, start-up and one turn of the main loop.
  \<^item> \<open>Dma_Sharing\<close>, \<open>Drivers\<close>: the link, SPI and the log UART on one DMA handler table and
    one interrupt. \<open>Dma_Sharing\<close> shows what each driver leaves alone, \<open>Drivers\<close> that
    all keep their contracts for every interleaving of requests, polls, log output
    and interrupts, and that start-up leads to the state this begins with.
  \<^item> \<open>Firmware\<close>: drivers and socket on one state, and complete turns of the main loop,
    any number of them, as runs of both.

  \<^bold>\<open>Contracts.\<close> The components with several entry points (\<open>Spi\<close>, \<open>Uart_Log\<close>, \<open>Wifi\<close>) are
  instances of the locale \<open>simulation\<close> of \<open>Prelude\<close>: an abstract state, the effect
  of each event on it, and a relation every operation keeps; the locale lifts
  the step to sequences of events. The locale \<open>shared_state\<close> joins two contracts on
  one state when neither disturbs the other, and is itself an instance of
  \<open>simulation\<close>; SPI and the log are an instance of it. This theory composes the
  components: the whole start-up sequence establishes the relations the
  components' properties start from, and from there every run of the drivers is safe.

  \<^bold>\<open>Bounds.\<close> The delay of \<open>target_wait_us\<close> is at most \<open>2^32 - 2^29\<close> microseconds and
  accesses at the boundary are at most \<open>2^29\<close> microseconds apart, so that 32-bit
  differences of the counter are unambiguous. The interrupt mask nests at most
  127 deep (an \<open>int8_t\<close>). The scan table holds at most \<open>5 * 2^13 - 5\<close> entries, where its
  16-bit capacity would wrap. The drivers claim five DMA channels (one for the log,
  two for the link, two for SPI), and \<open>dma_claims\<close> speaks of that many claims only. \<open>jd_crypto_get_random\<close> is bounded by \<open>2^32 - 4\<close> bytes,
  beyond which its index would wrap.

  \<^bold>\<open>Not modelled.\<close> The option headers: \<open>lwipopts.h\<close>, the macros of \<open>cyw43_fixes.h\<close> and the
  options of \<open>tusb_config.h\<close> and \<open>jd_user_config.h\<close> that configure code outside the
  repository. The input synchronisers of the PIO block, which delay the line by a
  constant, and the debug pin of the receiver. Preemption in the middle of a
  function: interrupt handlers run between operations, and operations that
  disable interrupts do so in the trace.
\<close>

section \<open>Start-up and operation of the whole firmware\<close>

text \<open>
  C2. The firmware boots: from the state at reset, with a Jacdac pin
  configured, the log UART, the platform, the timer, the single-wire UART and
  USB are initialised without a failed assertion, an endless loop or an access
  outside a table, whatever the other configuration, the board and the hardware
  answer. Afterwards the Jacdac link is idle in the consistent state its
  properties start from, the device identifier is the one of the board, and the
  log output keeps its contract for every sequence of block writes and DMA
  completions that follows.
\<close>

theorem firmware_boots:
  fixes s :: "'a platform_scheme" and pin :: u8
  assumes "at_reset E s" "dma_claims E" "SIZEOF_BOARD_ID E = 8"
    and "\<And>h. word_of_int (resp E h (Dcfg_get_pin ''jacdac.pin'')) = pin" "uint pin \<noteq> NO_PIN E" "unat pin < NUM_BANK0_GPIOS E"
  shows "\<exists>t a. main_start E s = Inr t \<and> uart_inv E t \<and> uart_status t = STATUS_IDLE \<and>
    (\<exists>h. hw_device_id t = word_rcat (rev (map (outbuf E h (Plat Pico_get_unique_board_id)) [0..<8]))) \<and>
    (\<forall>es. oks log_ok log_spec es a \<longrightarrow> (\<exists>u. run_res (log_do E other) es t = Inr u \<and> ulog_rel (fold log_spec es a) u)) \<and> \<not> busy a"
proof -
  from main_start_ready [OF assms] obtain t a where
    t: "main_start E s = Inr t" "uart_inv E t" "uart_status t = STATUS_IDLE" "ulog_rel a t" "\<not> busy a"
      "\<exists>h. hw_device_id t = word_rcat (rev (map (outbuf E h (Plat Pico_get_unique_board_id)) [0..<8]))"
    unfolding booted_def by blast
  with log_sim.run_refines [OF t(4), of _ E other] show ?thesis by blast
qed

definition platform_demo :: platform where
  "platform_demo = (sock.extend sock_demo \<lparr>device_id = 0, cpu_mhz = 0, is_pico_w = False, use_pico_led = 0\<rparr>)\<lparr>dma_claimed := 0\<rparr>"

lemma platform_demo_reset: "at_reset init_plat platform_demo"
  by (simp add: at_reset_def platform_demo_def init_plat_def sock.defs sock_demo_def wifi.defs wifi_demo_def i2c.defs i2c_demo_def
      adc.defs adc_demo_def ulog.defs ulog_demo_def spi_state.defs spi_demo_def)

theorem firmware_boots_witness:
  "\<exists>t. main_start init_plat platform_demo = Inr t \<and> uart_inv init_plat t \<and> uart_status t = STATUS_IDLE"
  using firmware_boots [OF platform_demo_reset init_plat_claims, of 9] by (simp add: init_plat_def) blast

text \<open>
  C1. From reset to a running system: with a Jacdac pin configured that the chip
  has, start-up followed by the configuration of SPI (with a pin) succeeds, and
  whatever the runtime requests, the hardware raises and the network reports from
  then on, in any order, the link stays consistent, SPI delivers the accepted
  transfers once and in order, and the log sends its blocks once, in order and never two at a
  time. The DMA channels of the log, the link and SPI are pairwise different
  channels of the chip. The next SPI request and the next socket event (a failed
  name lookup apart) run without a failed assertion, and so does every number of
  complete main-loop turns, whatever runs the runtime's own part of them makes;
  these turns are runs again, so all this holds throughout the endless loop.
\<close>

theorem firmware_runs:
  fixes s :: "'a platform_scheme" and pin :: u8
  assumes "at_reset E s" "dma_claims E" "SIZEOF_BOARD_ID E = 8"
    and "\<And>h. word_of_int (resp E h (Dcfg_get_pin ''jacdac.pin'')) = pin" "uint pin \<noteq> NO_PIN E" "unat pin < NUM_BANK0_GPIOS E"
    and "first_pin E [cfg_sck cfg, cfg_miso cfg, cfg_mosi cfg] \<noteq> NO_PIN E" "runtime_ok E R" "runtime_private R"
  shows "\<exists>t u a. main_start E s = Inr t \<and> jd_spi_init E cfg t = (0, u) \<and>
    (\<forall>es fs w. fw_run E R (runtime E react n) u es fs w \<longrightarrow> list_all spi_ev_ok es \<longrightarrow>
      uart_inv E w \<and> spi_rel (fold spi_spec es (Ready, delivered (trace u))) w \<and>
      ulog_rel (fold log_spec fs a) w \<and> oks log_ok log_spec fs a \<and>
      distinct (channels (enabled a) w) \<and> set (channels (enabled a) w) \<subseteq> {0..<12} \<and>
      (\<forall>p q k f. (\<exists>x. sys_do E R (Spi_request (Some p) q k f) w = Inr x) \<and> (\<exists>x. sys_do E R (Spi_request q (Some p) k f) w = Inr x)) \<and>
      (\<forall>e. sock_ev_ok e \<longrightarrow> \<not> null_answer e \<longrightarrow> (\<exists>x. sock_do E (runtime E react n) e w = Inr x)) \<and>
      (\<forall>pes. list_all (process_ok E R (runtime E react n)) pes \<longrightarrow>
        (\<exists>es' fs' x. run_res (\<lambda>pe. main_turn E pe (runtime E react n) call_done) pes w = Inr x \<and>
          fw_run E R (runtime E react n) w es' fs' x \<and> list_all spi_ev_ok es')))"
proof -
  obtain t a where t: "main_start E s = Inr t" "booted E a t" using main_start_ready [OF assms(1-6)] by blast
  obtain u where u: "jd_spi_init E cfg t = (0, u)" "share E (Ready, delivered (trace u)) a u"
    using jd_spi_init_share [OF t(2) assms(2,7)] by blast
  note safe = fw_run_safe [OF _ u(2) assms(8,9)]
  show ?thesis
    by (rule exI [of _ t], rule exI [of _ u], rule exI [of _ a], intro conjI allI impI)
      (rule t(1) u(1) | (rule safe socket_runs; assumption))+
qed

definition demo_runtime :: "platform jdrt" where
  "demo_runtime = \<lparr>jd_line_falling = uart_start_rx init_plat 0 16, jd_rx_completed = (\<lambda>_. Inr), jd_tx_completed = (\<lambda>_. Inr)\<rparr>"

definition demo_spi :: jd_spi_cfg_t where
  "demo_spi = \<lparr>cfg_miso = 8, cfg_mosi = 11, cfg_sck = 10, cfg_mode = 0, cfg_hz = 1000000\<rparr>"

text \<open>A runtime that reopens the socket when it is closed and, in its turn, opens it.\<close>

definition demo_events :: "platform handler" where
  "demo_events = runtime init_plat reopen 2"

definition demo_process :: "platform \<Rightarrow> platform res" where
  "demo_process = api_do init_plat demo_events (Api_new [104] 80)"

lemma demo_process_ok: "process_ok init_plat demo_runtime demo_events demo_process"
proof -
  have "\<exists>t. demo_process s = Inr t \<and> fw_run init_plat demo_runtime demo_events s [] [] t" for s
  proof -
    obtain t where "sock_do init_plat demo_events (Sk_api (Api_new [104] 80)) s = Inr t"
      using socket_runs [of "Sk_api (Api_new [104] 80)"] unfolding demo_events_def by (metis api_ok.simps(2) null_answer.simps(2) sock_ev_ok.simps(1))
    then show ?thesis using fw_run.socket [OF _ _ fw_run.stop, of "Sk_api (Api_new [104] 80)"] by (auto simp: demo_process_def)
  qed
  then show ?thesis unfolding process_ok_def by (metis list.pred_inject(1))
qed

theorem firmware_runs_witness:
  "\<exists>t u w x. main_start init_plat platform_demo = Inr t \<and> jd_spi_init init_plat demo_spi t = (0, u) \<and>
     fw_run init_plat demo_runtime demo_events u [Xfer (Some 0) (Some 64) 16 7] [] w \<and>
     uart_inv init_plat w \<and> spi_rel (Busy True 7, delivered (trace u)) w \<and>
     run_res (\<lambda>pe. main_turn init_plat pe demo_events call_done) [demo_process, demo_process] w = Inr x"
proof -
  have R: "runtime_ok init_plat demo_runtime" "runtime_private demo_runtime"
    by (auto simp: runtime_ok_def runtime_private_def demo_runtime_def)
  have cfg: "SIZEOF_BOARD_ID init_plat = 8" "\<And>h. word_of_int (resp init_plat h (Dcfg_get_pin ''jacdac.pin'')) = (9 :: u8)"
    "uint (9 :: u8) \<noteq> NO_PIN init_plat" "unat (9 :: u8) < NUM_BANK0_GPIOS init_plat"
    "first_pin init_plat [cfg_sck demo_spi, cfg_miso demo_spi, cfg_mosi demo_spi] \<noteq> NO_PIN init_plat"
    by (simp_all add: init_plat_def demo_spi_def)
  obtain t u a where t: "main_start init_plat platform_demo = Inr t" "jd_spi_init init_plat demo_spi t = (0, u)"
    and runs: "\<And>es fs w. fw_run init_plat demo_runtime demo_events u es fs w \<Longrightarrow> list_all spi_ev_ok es \<Longrightarrow>
      uart_inv init_plat w \<and> spi_rel (fold spi_spec es (Ready, delivered (trace u))) w \<and>
      (\<forall>p q k f. \<exists>x. sys_do init_plat demo_runtime (Spi_request (Some p) q k f) w = Inr x) \<and>
      (\<forall>pes. list_all (process_ok init_plat demo_runtime demo_events) pes \<longrightarrow>
        (\<exists>x. run_res (\<lambda>pe. main_turn init_plat pe demo_events call_done) pes w = Inr x))"
    using firmware_runs [OF platform_demo_reset init_plat_claims cfg R, of reopen 2] unfolding demo_events_def by meson
  obtain w where "sys_do init_plat demo_runtime (Spi_request (Some 0) (Some 64) 16 7) u = Inr w"
    using runs [OF fw_run.stop list.pred_inject(1)] by blast
  from fw_run.driver [OF this fw_run.stop] have run: "fw_run init_plat demo_runtime demo_events u [Xfer (Some 0) (Some 64) 16 7] [] w" by simp
  have "list_all spi_ev_ok [Xfer (Some 0) (Some 64) 16 7]" by simp
  note safe = runs [OF run this]
  have "list_all (process_ok init_plat demo_runtime demo_events) [demo_process, demo_process]" by (simp add: demo_process_ok)
  with safe obtain x where "run_res (\<lambda>pe. main_turn init_plat pe demo_events call_done) [demo_process, demo_process] w = Inr x"
    by blast
  with t run safe show ?thesis by (auto simp del: run_res.simps)
qed

end
